(* ===== verification/Flo_Prelude.thy ===== *)
theory Flo_Prelude
  imports Main "HOL-Library.Char_ord" "HOL-Library.List_Lexorder" "HOL-Library.Word"
begin

text \<open>
  What the components share.

  \<^item> Go byte strings are \<^typ>\<open>string\<close>: a \<^typ>\<open>char\<close> is one byte, and the order of
    \<open>List_Lexorder\<close> over \<open>Char_ord\<close> is the bytewise order of Go's \<open><\<close> on strings.
  \<^item> Moments and durations are \<^typ>\<open>int\<close>; a nullable moment is \<^typ>\<open>int option\<close>.
  \<^item> A PostgreSQL table is a list of rows. \<open>sql_update\<close>, \<open>sql_delete\<close> and
    \<open>sql_upsert\<close> are the statements \<open>update .. where\<close>, \<open>delete .. where\<close> and
    \<open>insert .. on conflict\<close>; the lemmas collected in \<open>sql\<close> say which rows they keep.
  \<^item> \<open>invariant_system\<close> lifts an invariant from single steps to every reachable state.
\<close>

type_synonym moment = int
type_synonym duration = int

named_theorems sql \<open>how the SQL statements act on the rows of a table\<close>

section \<open>Tables\<close>

definition sql_update :: "('r \<Rightarrow> bool) \<Rightarrow> ('r \<Rightarrow> 'r) \<Rightarrow> 'r list \<Rightarrow> 'r list" where
  "sql_update P f rows = map (\<lambda>r. if P r then f r else r) rows"

definition sql_delete :: "('r \<Rightarrow> bool) \<Rightarrow> 'r list \<Rightarrow> 'r list" where
  "sql_delete P rows = filter (\<lambda>r. \<not> P r) rows"

text \<open>
  \<open>insert into .. values (r) on conflict (key) do update set ..\<close>: the row with the key of
  \<open>r\<close> is changed by \<open>f\<close>, or \<open>r\<close> is added when there is none.
\<close>

definition sql_upsert :: "('r \<Rightarrow> 'k) \<Rightarrow> ('r \<Rightarrow> 'r) \<Rightarrow> 'r \<Rightarrow> 'r list \<Rightarrow> 'r list" where
  "sql_upsert key f r rows =
     (if \<exists>x \<in> set rows. key x = key r
      then sql_update (\<lambda>x. key x = key r) f rows else rows @ [r])"

lemma sql_update_Nil [simp]: "sql_update P f [] = []"
  by (simp add: sql_update_def)

lemma sql_update_Cons [simp]:
  "sql_update P f (r # rows) = (if P r then f r else r) # sql_update P f rows"
  by (simp add: sql_update_def)

lemma sql_delete_Nil [simp]: "sql_delete P [] = []"
  by (simp add: sql_delete_def)

lemma sql_delete_Cons [simp]:
  "sql_delete P (r # rows) = (if P r then sql_delete P rows else r # sql_delete P rows)"
  by (simp add: sql_delete_def)

lemma set_sql_update [sql]:
  "set (sql_update P f rows) = {r \<in> set rows. \<not> P r} \<union> f ` {r \<in> set rows. P r}"
  by (auto simp: sql_update_def)

lemma set_sql_delete [sql]: "set (sql_delete P rows) = {r \<in> set rows. \<not> P r}"
  by (auto simp: sql_delete_def)

lemma in_sql_updateE:
  assumes "r \<in> set (sql_update P f rows)"
  obtains "r \<in> set rows" "\<not> P r" | r0 where "r0 \<in> set rows" "P r0" "r = f r0"
  using assms by (auto simp: set_sql_update)

lemma map_sql_update:
  assumes "\<And>r. P r \<Longrightarrow> g (f r) = g r"
  shows "map g (sql_update P f rows) = map g rows"
  using assms by (simp add: sql_update_def)

lemma image_sql_update:
  assumes "\<And>r. P r \<Longrightarrow> g (f r) = g r"
  shows "g ` set (sql_update P f rows) = g ` set rows"
  using map_sql_update [of P g f rows, OF assms] by (metis list.set_map)

lemma distinct_map_sql_delete:
  "distinct (map g rows) \<Longrightarrow> distinct (map g (sql_delete P rows))"
  by (simp add: sql_delete_def distinct_map_filter)

lemma length_sql_update [simp]: "length (sql_update P f rows) = length rows"
  by (simp add: sql_update_def)

lemma distinct_sql_upsert:
  assumes "distinct (map key rows)" and "\<And>x. key x = key r \<Longrightarrow> key (f x) = key r"
  shows "distinct (map key (sql_upsert key f r rows))"
proof (cases "\<exists>x \<in> set rows. key x = key r")
  case True
  have "map key (sql_update (\<lambda>x. key x = key r) f rows) = map key rows"
    by (rule map_sql_update) (simp add: assms(2))
  with True assms(1) show ?thesis
    by (simp add: sql_upsert_def)
next
  case False
  then show ?thesis
    using assms by (auto simp: sql_upsert_def)
qed

lemma filter_sql_update:
  assumes "\<And>r. P r \<Longrightarrow> \<not> Q r" and "\<And>r. P r \<Longrightarrow> \<not> Q (f r)"
  shows "filter Q (sql_update P f rows) = filter Q rows"
  using assms by (induction rows) auto

lemma sql_update_twice:
  assumes "\<And>r. P r \<Longrightarrow> \<not> Q (f r)"
  shows "sql_update Q f (sql_update P f rows) = sql_update (\<lambda>r. P r \<or> Q r) f rows"
  using assms by (induction rows) auto

lemma list_all2_sql_update:
  assumes "\<And>r. r \<in> set rows \<Longrightarrow> P r \<Longrightarrow> R r (f r)" and "\<And>r. r \<in> set rows \<Longrightarrow> R r r"
  shows "list_all2 R rows (sql_update P f rows)"
  using assms by (induction rows) auto

lemma has_key_sql_update:
  assumes "\<And>r. P r \<Longrightarrow> g (f r) = g r"
  shows "list_ex (\<lambda>r. g r = k) (sql_update P f rows) \<longleftrightarrow> list_ex (\<lambda>r. g r = k) rows"
  using assms by (induction rows) auto

lemma sql_upsert_has:
  assumes "Q r" and "\<And>x. key x = key r \<Longrightarrow> Q (f x)"
  shows "\<exists>x \<in> set (sql_upsert key f r rows). Q x"
proof (cases "\<exists>x \<in> set rows. key x = key r")
  case True
  then obtain x where "x \<in> set rows" "key x = key r" by blast
  then have "f x \<in> set (sql_update (\<lambda>x. key x = key r) f rows)"
    by (auto simp: set_sql_update)
  with \<open>key x = key r\<close> assms(2) True show ?thesis
    by (auto simp: sql_upsert_def)
qed (use assms(1) in \<open>simp add: sql_upsert_def\<close>)

section \<open>Looking a row up by its key\<close>

definition sql_get :: "('r \<Rightarrow> 'k) \<Rightarrow> 'k \<Rightarrow> 'r list \<Rightarrow> 'r option" where
  "sql_get key k rows = find (\<lambda>r. key r = k) rows"

lemma sql_get_Nil [simp]: "sql_get key k [] = None"
  by (simp add: sql_get_def)

lemma sql_get_Cons [simp]:
  "sql_get key k (r # rows) = (if key r = k then Some r else sql_get key k rows)"
  by (simp add: sql_get_def)

lemma sql_get_SomeD: "sql_get key k rows = Some r \<Longrightarrow> r \<in> set rows \<and> key r = k"
  by (auto simp: sql_get_def find_Some_iff)

lemma sql_get_None_iff: "sql_get key k rows = None \<longleftrightarrow> k \<notin> key ` set rows"
  by (auto simp: sql_get_def find_None_iff)

lemma sql_get_eq_Some_iff:
  assumes "distinct (map key rows)"
  shows "sql_get key k rows = Some r \<longleftrightarrow> r \<in> set rows \<and> key r = k"
  using assms by (induction rows) auto

lemma sql_get_update:
  assumes "\<And>r. key (f r) = key r"
  shows "sql_get key k (sql_update P f rows) =
           map_option (\<lambda>r. if P r then f r else r) (sql_get key k rows)"
  using assms by (induction rows) auto

lemma find_snoc:
  "find P xs = None \<Longrightarrow> find P (xs @ [x]) = (if P x then Some x else None)"
  by (induction xs) (auto split: if_splits)

lemma sql_get_snoc:
  "sql_get key k (rows @ [r]) =
     (case sql_get key k rows of None \<Rightarrow> if key r = k then Some r else None | Some x \<Rightarrow> Some x)"
  by (induction rows) auto

lemma sql_get_upsert:
  assumes "\<And>x. key (f x) = key x"
  shows "sql_get key k (sql_upsert key f r rows) =
    (if k = key r then Some (case sql_get key k rows of None \<Rightarrow> r | Some x \<Rightarrow> f x)
     else sql_get key k rows)"
proof (cases "sql_get key (key r) rows")
  case None
  then have "\<not> (\<exists>x \<in> set rows. key x = key r)"
    unfolding sql_get_None_iff by (metis image_eqI)
  with None show ?thesis
    by (auto simp: sql_upsert_def sql_get_snoc split: option.splits)
next
  case (Some x)
  then have x: "x \<in> set rows" "key x = key r"
    by (auto dest: sql_get_SomeD)
  then have "sql_upsert key f r rows = sql_update (\<lambda>x. key x = key r) f rows"
    by (auto simp: sql_upsert_def)
  then have "sql_get key k (sql_upsert key f r rows)
      = map_option (\<lambda>x. if key x = key r then f x else x) (sql_get key k rows)"
    using assms by (simp add: sql_get_update)
  moreover have "key y = k" if "sql_get key k rows = Some y" for y
    using that by (auto dest: sql_get_SomeD)
  ultimately show ?thesis
    using Some x(2) by (cases "k = key r"; cases "sql_get key k rows") auto
qed

section \<open>Invariants of transition systems\<close>

locale invariant_system =
  fixes initial :: "'s \<Rightarrow> bool"
    and step :: "'s \<Rightarrow> 's \<Rightarrow> bool"
    and inv :: "'s \<Rightarrow> bool"
  assumes inv_initial: "initial s \<Longrightarrow> inv s"
    and inv_step: "inv s \<Longrightarrow> step s t \<Longrightarrow> inv t"
begin

lemma inv_steps:
  assumes "step\<^sup>*\<^sup>* s t" and "inv s"
  shows "inv t"
  using assms by (induction rule: rtranclp_induct) (auto intro: inv_step)

lemma inv_reachable:
  assumes "initial s" and "step\<^sup>*\<^sup>* s t"
  shows "inv t"
  using assms(2) inv_initial [OF assms(1)] by (rule inv_steps)

end

section \<open>Words\<close>

text \<open>A \<open>bigint\<close> that is not negative survives its way through \<open>uint64\<close> and back.\<close>

lemma int64_of_uint64:
  "0 \<le> k \<Longrightarrow> k < 2 ^ 63 \<Longrightarrow> sint (word_of_int k :: 64 word) = k"
  by (simp add: sint_sbintrunc' signed_take_bit_int_eq_self)

section \<open>Strings\<close>

fun HasPrefix :: "string \<Rightarrow> string \<Rightarrow> bool" where
  "HasPrefix s [] = True"
| "HasPrefix [] (p # ps) = False"
| "HasPrefix (c # s) (p # ps) = (c = p \<and> HasPrefix s ps)"

definition TrimPrefix :: "string \<Rightarrow> string \<Rightarrow> string" where
  "TrimPrefix s p = (if HasPrefix s p then drop (length p) s else s)"

lemma HasPrefix_iff: "HasPrefix s p \<longleftrightarrow> (\<exists>t. s = p @ t)"
  by (induction s p rule: HasPrefix.induct) auto

lemma HasPrefix_append_self [simp]: "HasPrefix (p @ s) p"
  by (simp add: HasPrefix_iff)

lemma HasPrefix_append: "HasPrefix s p \<Longrightarrow> HasPrefix (s @ t) p"
  by (auto simp: HasPrefix_iff)

lemma HasPrefix_length: "HasPrefix s p \<Longrightarrow> length p \<le> length s"
  by (auto simp: HasPrefix_iff)

lemma TrimPrefix_append [simp]: "TrimPrefix (p @ s) p = s"
  by (simp add: TrimPrefix_def)

section \<open>Results\<close>

text \<open>The early return of an error: what follows runs on the value of a result that has one.\<close>

fun and_then :: "'e + 'a \<Rightarrow> ('a \<Rightarrow> 'e + 'b) \<Rightarrow> 'e + 'b" where
  "and_then (Inl err) f = Inl err"
| "and_then (Inr x) f = f x"

lemma and_then_cong [fundef_cong]:
  "r = r' \<Longrightarrow> (\<And>x. r' = Inr x \<Longrightarrow> f x = f' x) \<Longrightarrow> and_then r f = and_then r' f'"
  by (cases r') auto

lemma and_then_eq_Inr [simp]: "and_then r f = Inr y \<longleftrightarrow> (\<exists>x. r = Inr x \<and> f x = Inr y)"
  by (cases r) auto

end
