(* ===== verification/Job_State.thy ===== *)
theory Job_State
  imports Flo_Prelude
begin

text \<open>
  The state machine of a job, from \<open>src/internal/jobs/state.go\<close>: the states, the table of
  allowed transitions, which states are final and which hold a lease, and what a result may
  do to its job (\<open>fateOfResult\<close>).
\<close>

datatype State =
    StatePlanned
  | StateAwaitingApproval
  | StateQueued
  | StateLeased
  | StateDispatched
  | StateRunning
  | StateCancelRequested
  | StateSucceeded
  | StateFailed
  | StateTimedOut
  | StateCanceled
  | StateExpired

fun transitions :: "State \<Rightarrow> State list" where
  "transitions StatePlanned = [StateAwaitingApproval, StateQueued, StateCanceled, StateExpired]"
| "transitions StateAwaitingApproval = [StateQueued, StateCanceled, StateExpired]"
| "transitions StateQueued = [StateLeased, StateCanceled, StateExpired]"
| "transitions StateLeased =
     [StateDispatched, StateQueued, StateCanceled, StateExpired, StateFailed]"
| "transitions StateDispatched =
     [StateRunning, StateSucceeded, StateFailed, StateTimedOut, StateCanceled, StateExpired,
      StateQueued, StateCancelRequested]"
| "transitions StateRunning =
     [StateSucceeded, StateFailed, StateTimedOut, StateCanceled, StateQueued,
      StateCancelRequested]"
| "transitions StateCancelRequested =
     [StateCanceled, StateRunning, StateSucceeded, StateFailed, StateTimedOut]"
| "transitions _ = []"

fun Terminal :: "State \<Rightarrow> bool" where
  "Terminal StateSucceeded = True"
| "Terminal StateFailed = True"
| "Terminal StateTimedOut = True"
| "Terminal StateCanceled = True"
| "Terminal StateExpired = True"
| "Terminal _ = False"

definition CanTransition :: "State \<Rightarrow> State \<Rightarrow> bool" where
  "CanTransition s to = list_ex (\<lambda>allowed. allowed = to) (transitions s)"

text \<open>\<open>Validate\<close> answers \<^const>\<open>None\<close> for no error and the forbidden move otherwise.\<close>

definition Validate :: "State \<Rightarrow> State \<Rightarrow> (State \<times> State) option" where
  "Validate s to =
     (if s = to then None else if \<not> CanTransition s to then Some (s, to) else None)"

definition leaseHoldingStates :: "State list" where
  "leaseHoldingStates = [StateLeased, StateDispatched, StateRunning, StateCancelRequested]"

definition HoldsLease :: "State \<Rightarrow> bool" where
  "HoldsLease s = list_ex (\<lambda>held. held = s) leaseHoldingStates"

datatype resultFate = fateSettles | fateAfterSettlement | fateUnapplicable

definition fateOfResult :: "State \<Rightarrow> State \<Rightarrow> bool \<Rightarrow> resultFate" where
  "fateOfResult current asked afterLeaseExpiry =
     (if Terminal current then fateAfterSettlement
      else if afterLeaseExpiry then fateSettles
      else if Validate current asked \<noteq> None then fateUnapplicable
      else fateSettles)"

definition closesTheAttempt :: "resultFate \<Rightarrow> bool" where
  "closesTheAttempt f = (f = fateAfterSettlement)"

section \<open>The table of transitions\<close>

lemma HoldsLease_iff:
  "HoldsLease s \<longleftrightarrow>
     s = StateLeased \<or> s = StateDispatched \<or> s = StateRunning \<or> s = StateCancelRequested"
  by (auto simp: HoldsLease_def leaseHoldingStates_def)

lemma HoldsLease_simps [simp]:
  "\<not> HoldsLease StatePlanned" "\<not> HoldsLease StateAwaitingApproval" "\<not> HoldsLease StateQueued"
  "HoldsLease StateLeased" "HoldsLease StateDispatched" "HoldsLease StateRunning"
  "HoldsLease StateCancelRequested" "\<not> HoldsLease StateSucceeded" "\<not> HoldsLease StateFailed"
  "\<not> HoldsLease StateTimedOut" "\<not> HoldsLease StateCanceled" "\<not> HoldsLease StateExpired"
  by (simp_all add: HoldsLease_iff)

lemma CanTransition_iff: "CanTransition s t \<longleftrightarrow> t \<in> set (transitions s)"
  by (auto simp: CanTransition_def list_ex_iff)

lemma Validate_None_iff: "Validate s t = None \<longleftrightarrow> s = t \<or> CanTransition s t"
  by (simp add: Validate_def)

text \<open>A final state has no way out, and every other state has one.\<close>

lemma Terminal_iff_no_transition: "Terminal s \<longleftrightarrow> transitions s = []"
  by (cases s) auto

lemma no_transition_from_Terminal: "Terminal s \<Longrightarrow> \<not> CanTransition s t"
  by (simp add: CanTransition_iff Terminal_iff_no_transition)

lemma Terminal_not_HoldsLease: "Terminal s \<Longrightarrow> \<not> HoldsLease s"
  by (cases s) auto

lemma transitions_progress: "\<not> Terminal s \<Longrightarrow> CanTransition s StateCanceled"
  by (cases s) (simp_all add: CanTransition_iff)

lemma fateOfResult_Terminal [simp]:
  "fateOfResult current asked late = fateAfterSettlement \<longleftrightarrow> Terminal current"
  by (auto simp: fateOfResult_def)

lemma fateOfResult_settles:
  "fateOfResult current asked late = fateSettles \<longleftrightarrow>
     \<not> Terminal current \<and> (late \<or> current = asked \<or> CanTransition current asked)"
  by (auto simp: fateOfResult_def Validate_None_iff)

end
