(* ===== verification/Opspec.thy ===== *)
theory Opspec
  imports Flo_Prelude
begin

text \<open>
  The contract of an operation as the rest of the panel asks for it, from
  \<open>src/internal/opspec/opspec.go\<close>.

  The registry \<open>actionSpecs\<close> is a table of data; the model takes it as the argument
  \<open>reg\<close>, a partial map from the action name to its row, and translates the functions that
  read it. \<open>actionSpecs[a].field\<close> of an unknown action is the zero value of the field,
  which \<open>zero_spec\<close> spells out.
\<close>

type_synonym ActionType = string

datatype RiskLevel = RiskUnset | RiskLow | RiskMedium | RiskHigh | RiskCritical | RiskDestructive

record actionSpec =
  mutating :: bool
  authorized :: bool
  capability :: string
  permission :: string
  timeoutSeconds :: int
  risk :: RiskLevel
  lockClass :: string
  maxOutputBytes :: nat
  requiresPlan :: bool

type_synonym registry = "ActionType \<Rightarrow> actionSpec option"

definition zero_spec :: actionSpec where
  "zero_spec = \<lparr>mutating = False, authorized = False, capability = [], permission = [],
     timeoutSeconds = 0, risk = RiskUnset, lockClass = [], maxOutputBytes = 0,
     requiresPlan = False\<rparr>"

definition spec_of :: "registry \<Rightarrow> ActionType \<Rightarrow> actionSpec" where
  "spec_of reg a = (case reg a of None \<Rightarrow> zero_spec | Some s \<Rightarrow> s)"

definition ActionSystemReboot :: ActionType where
  "ActionSystemReboot = ''system.reboot''"

definition ActionSystemShutdown :: ActionType where
  "ActionSystemShutdown = ''system.shutdown''"

definition ActionBackupRun :: ActionType where
  "ActionBackupRun = ''backup.run''"

definition ActionBackupVerify :: ActionType where
  "ActionBackupVerify = ''backup.verify''"

definition ActionBackupRestore :: ActionType where
  "ActionBackupRestore = ''backup.restore''"

definition ActionLocalUserLock :: ActionType where
  "ActionLocalUserLock = ''localuser.lock''"

definition Known_action :: "registry \<Rightarrow> ActionType \<Rightarrow> bool" where
  "Known_action reg a = (reg a \<noteq> None)"

definition Mutating :: "registry \<Rightarrow> ActionType \<Rightarrow> bool" where
  "Mutating reg a = (case reg a of None \<Rightarrow> False | Some s \<Rightarrow> mutating s)"

definition UnderCapability :: "registry \<Rightarrow> ActionType \<Rightarrow> bool" where
  "UnderCapability reg a =
     (case reg a of None \<Rightarrow> False | Some s \<Rightarrow> mutating s \<or> authorized s)"

definition Risk :: "registry \<Rightarrow> ActionType \<Rightarrow> RiskLevel" where
  "Risk reg a = (case reg a of Some s \<Rightarrow> risk s | None \<Rightarrow> RiskCritical)"

definition LockClass :: "registry \<Rightarrow> ActionType \<Rightarrow> string" where
  "LockClass reg a = lockClass (spec_of reg a)"

definition Permission :: "registry \<Rightarrow> ActionType \<Rightarrow> string" where
  "Permission reg a = permission (spec_of reg a)"

definition DefaultTimeout :: "registry \<Rightarrow> ActionType \<Rightarrow> int" where
  "DefaultTimeout reg a = timeoutSeconds (spec_of reg a)"

definition RequiresFreshAuth :: "registry \<Rightarrow> ActionType \<Rightarrow> bool" where
  "RequiresFreshAuth reg a =
     (case Risk reg a of RiskCritical \<Rightarrow> True | RiskDestructive \<Rightarrow> True | _ \<Rightarrow> False)"

text \<open>An operation nobody described is never taken for a harmless one.\<close>

lemma unknown_action_is_guarded:
  "\<not> Known_action reg a \<Longrightarrow> Risk reg a = RiskCritical \<and> RequiresFreshAuth reg a"
  by (simp add: Known_action_def Risk_def RequiresFreshAuth_def)

lemma Mutating_UnderCapability: "Mutating reg a \<Longrightarrow> UnderCapability reg a"
  by (auto simp: Mutating_def UnderCapability_def split: option.splits)

end
