(* ===== verification/Go_Strings.thy ===== *)
theory Go_Strings
  imports Flo_Prelude
begin

text \<open>
  The part of Go's \<open>strings\<close>, \<open>unicode\<close> and \<open>strconv\<close> packages that the components
  call, over byte strings.

  A rune of white space is the byte sequence of its UTF-8 encoding, so that \<open>TrimSpace\<close>
  cuts exactly what Go cuts, beyond ASCII too. \<open>Index\<close> and \<open>LastIndex\<close> of a byte
  answer an offset or \<^const>\<open>None\<close> where Go answers -1.
\<close>

abbreviation byte_of :: "nat \<Rightarrow> char" where
  "byte_of n \<equiv> char_of n"

abbreviation code :: "char \<Rightarrow> nat" where
  "code c \<equiv> of_char c"

section \<open>White space\<close>

text \<open>The UTF-8 encodings of the runes \<open>unicode.IsSpace\<close> answers true for.\<close>

definition space_runes :: "string list" where
  "space_runes =
     [[CHR 0x09], [CHR 0x0A], [CHR 0x0B], [CHR 0x0C], [CHR 0x0D], [CHR 0x20],
      [CHR 0xC2, CHR 0x85], [CHR 0xC2, CHR 0xA0], [CHR 0xE1, CHR 0x9A, CHR 0x80],
      [CHR 0xE2, CHR 0x80, CHR 0x80], [CHR 0xE2, CHR 0x80, CHR 0x81],
      [CHR 0xE2, CHR 0x80, CHR 0x82], [CHR 0xE2, CHR 0x80, CHR 0x83],
      [CHR 0xE2, CHR 0x80, CHR 0x84], [CHR 0xE2, CHR 0x80, CHR 0x85],
      [CHR 0xE2, CHR 0x80, CHR 0x86], [CHR 0xE2, CHR 0x80, CHR 0x87],
      [CHR 0xE2, CHR 0x80, CHR 0x88], [CHR 0xE2, CHR 0x80, CHR 0x89],
      [CHR 0xE2, CHR 0x80, CHR 0x8A], [CHR 0xE2, CHR 0x80, CHR 0xA8],
      [CHR 0xE2, CHR 0x80, CHR 0xA9], [CHR 0xE2, CHR 0x80, CHR 0xAF],
      [CHR 0xE2, CHR 0x81, CHR 0x9F], [CHR 0xE3, CHR 0x80, CHR 0x80]]"

definition space_prefix :: "string \<Rightarrow> nat" where
  "space_prefix s =
     (case find (\<lambda>r. HasPrefix s r) space_runes of None \<Rightarrow> 0 | Some r \<Rightarrow> length r)"

lemma space_prefix_le: "space_prefix s \<le> length s"
proof (cases "find (\<lambda>r. HasPrefix s r) space_runes")
  case (Some r)
  then have "HasPrefix s r" by (auto simp: find_Some_iff)
  then have "length r \<le> length s" by (rule HasPrefix_length)
  with Some show ?thesis by (simp add: space_prefix_def)
qed (simp add: space_prefix_def)

function trim_left :: "string \<Rightarrow> string" where
  "trim_left s = (if space_prefix s = 0 then s else trim_left (drop (space_prefix s) s))"
  by pat_completeness auto
termination
proof (relation "measure length")
  fix s :: string
  assume "space_prefix s \<noteq> 0"
  then show "(drop (space_prefix s) s, s) \<in> measure length"
    using space_prefix_le [of s] by simp
qed simp

declare trim_left.simps [simp del]

text \<open>Cutting from the right is cutting the reversed string by the reversed encodings.\<close>

definition space_suffix :: "string \<Rightarrow> nat" where
  "space_suffix s =
     (case find (\<lambda>r. HasPrefix (rev s) (rev r)) space_runes of None \<Rightarrow> 0 | Some r \<Rightarrow> length r)"

lemma space_suffix_le: "space_suffix s \<le> length s"
proof (cases "find (\<lambda>r. HasPrefix (rev s) (rev r)) space_runes")
  case (Some r)
  then have "HasPrefix (rev s) (rev r)" by (auto simp: find_Some_iff)
  then have "length (rev r) \<le> length (rev s)" by (rule HasPrefix_length)
  with Some show ?thesis by (simp add: space_suffix_def)
qed (simp add: space_suffix_def)

function trim_right :: "string \<Rightarrow> string" where
  "trim_right s =
     (if space_suffix s = 0 then s else trim_right (take (length s - space_suffix s) s))"
  by pat_completeness auto
termination
proof (relation "measure length")
  fix s :: string
  assume "space_suffix s \<noteq> 0"
  then show "(take (length s - space_suffix s) s, s) \<in> measure length"
    using space_suffix_le [of s] by simp
qed simp

declare trim_right.simps [simp del]

definition TrimSpace :: "string \<Rightarrow> string" where
  "TrimSpace s = trim_right (trim_left s)"

lemma trim_left_fixed: "space_prefix (trim_left s) = 0"
proof (induction s rule: trim_left.induct)
  case (1 s)
  then show ?case by (simp add: trim_left.simps [of s])
qed

lemma trim_right_fixed: "space_suffix (trim_right s) = 0"
proof (induction s rule: trim_right.induct)
  case (1 s)
  then show ?case by (simp add: trim_right.simps [of s])
qed

lemma trim_left_id: "space_prefix s = 0 \<Longrightarrow> trim_left s = s"
  by (simp add: trim_left.simps)

lemma trim_right_id: "space_suffix s = 0 \<Longrightarrow> trim_right s = s"
  by (simp add: trim_right.simps)

lemma trim_right_prefix: "\<exists>t. s = trim_right s @ t"
proof (induction s rule: trim_right.induct)
  case (1 s)
  show ?case
  proof (cases "space_suffix s = 0")
    case False
    let ?u = "take (length s - space_suffix s) s"
    from 1 False obtain t where "?u = trim_right ?u @ t" by blast
    then have "s = trim_right ?u @ (t @ drop (length s - space_suffix s) s)"
      by (metis append.assoc append_take_drop_id)
    with False show ?thesis by (metis trim_right.simps)
  qed (simp add: trim_right_id)
qed

text \<open>Cutting on the right uncovers no space on the left, so \<open>TrimSpace\<close> is idempotent.\<close>

lemma space_runes_nonempty: "[] \<notin> set space_runes"
  by (simp add: space_runes_def)

lemma space_prefix_0_iff: "space_prefix s = 0 \<longleftrightarrow> (\<forall>r \<in> set space_runes. \<not> HasPrefix s r)"
proof (cases "find (\<lambda>r. HasPrefix s r) space_runes")
  case None
  then have "\<forall>r \<in> set space_runes. \<not> HasPrefix s r" by (simp add: find_None_iff)
  with None show ?thesis by (simp add: space_prefix_def)
next
  case (Some r)
  then have r: "r \<in> set space_runes" "HasPrefix s r"
    by (metis find_Some_iff nth_mem)+
  then have "r \<noteq> []" using space_runes_nonempty by blast
  with Some r show ?thesis by (auto simp: space_prefix_def)
qed

lemma TrimSpace_idem: "TrimSpace (TrimSpace s) = TrimSpace s"
proof -
  obtain t where t: "trim_left s = trim_right (trim_left s) @ t"
    using trim_right_prefix by blast
  have "space_prefix (trim_right (trim_left s)) = 0"
    using trim_left_fixed [of s] t HasPrefix_append [of "trim_right (trim_left s)" _ t]
    by (metis space_prefix_0_iff)
  then show ?thesis
    by (simp add: TrimSpace_def trim_left_id trim_right_id trim_right_fixed)
qed

lemma TrimSpace_Nil [simp]: "TrimSpace [] = []"
proof -
  have "space_prefix [] = 0" "space_suffix [] = 0"
    using space_prefix_le [of "[]"] space_suffix_le [of "[]"] by simp_all
  then show ?thesis by (simp add: TrimSpace_def trim_left_id trim_right_id)
qed

section \<open>Finding a byte\<close>

fun IndexByte :: "string \<Rightarrow> char \<Rightarrow> nat option" where
  "IndexByte [] c = None"
| "IndexByte (x # xs) c = (if x = c then Some 0 else map_option Suc (IndexByte xs c))"

fun LastIndexByte :: "string \<Rightarrow> char \<Rightarrow> nat option" where
  "LastIndexByte [] c = None"
| "LastIndexByte (x # xs) c =
     (case LastIndexByte xs c of
        Some i \<Rightarrow> Some (Suc i)
      | None \<Rightarrow> if x = c then Some 0 else None)"

lemma IndexByte_None_iff: "IndexByte s c = None \<longleftrightarrow> c \<notin> set s"
  by (induction s) auto

lemma LastIndexByte_None_iff: "LastIndexByte s c = None \<longleftrightarrow> c \<notin> set s"
  by (induction s) (auto split: option.splits)

lemma IndexByte_Some_iff:
  "IndexByte s c = Some i \<longleftrightarrow> i < length s \<and> s ! i = c \<and> c \<notin> set (take i s)"
proof (induction s arbitrary: i)
  case (Cons x xs)
  then show ?case by (cases i) auto
qed simp

lemma LastIndexByte_Some_iff:
  "LastIndexByte s c = Some i \<longleftrightarrow> i < length s \<and> s ! i = c \<and> c \<notin> set (drop (Suc i) s)"
proof (induction s arbitrary: i)
  case (Cons x xs)
  show ?case
  proof (cases "LastIndexByte xs c")
    case None
    then have "c \<notin> set xs" by (simp add: LastIndexByte_None_iff)
    with None show ?thesis by (cases i) (auto simp: in_set_conv_nth)
  next
    case (Some k)
    then have "c \<in> set xs" using LastIndexByte_None_iff [of xs c] by auto
    moreover have "LastIndexByte (x # xs) c = Some i \<longleftrightarrow> (\<exists>j. i = Suc j \<and> LastIndexByte xs c = Some j)"
      using Some by auto
    ultimately show ?thesis using Cons.IH by (cases i) auto
  qed
qed simp

lemma IndexByte_append:
  "c \<notin> set xs \<Longrightarrow> IndexByte (xs @ c # ys) c = Some (length xs)"
  by (induction xs) auto

lemma LastIndexByte_append:
  "c \<notin> set ys \<Longrightarrow> LastIndexByte (xs @ c # ys) c = Some (length xs)"
  by (induction xs) (auto simp: LastIndexByte_None_iff split: option.splits)

section \<open>Trimming and digits\<close>

definition TrimLeft :: "string \<Rightarrow> char \<Rightarrow> string" where
  "TrimLeft s c = dropWhile (\<lambda>x. x = c) s"

definition byte_in :: "char \<Rightarrow> char \<Rightarrow> char \<Rightarrow> bool" where
  "byte_in lo hi c = (lo \<le> c \<and> c \<le> hi)"

definition isDigit :: "char \<Rightarrow> bool" where
  "isDigit c = byte_in (CHR ''0'') (CHR ''9'') c"

definition isAlpha :: "char \<Rightarrow> bool" where
  "isAlpha c = (byte_in (CHR ''a'') (CHR ''z'') c \<or> byte_in (CHR ''A'') (CHR ''Z'') c)"

definition isAlnum :: "char \<Rightarrow> bool" where
  "isAlnum c = (isDigit c \<or> isAlpha c)"

lemma code_le_iff: "c \<le> d \<longleftrightarrow> code c \<le> (code d :: nat)"
  by (simp add: less_eq_char_def)

lemma code_less_iff: "c < d \<longleftrightarrow> code c < (code d :: nat)"
  by (simp add: less_char_def)

lemma isDigit_code: "isDigit c \<longleftrightarrow> 48 \<le> (code c :: nat) \<and> (code c :: nat) \<le> 57"
  by (simp add: isDigit_def byte_in_def code_le_iff)

lemma isAlpha_code:
  "isAlpha c \<longleftrightarrow> 97 \<le> (code c :: nat) \<and> (code c :: nat) \<le> 122
     \<or> 65 \<le> (code c :: nat) \<and> (code c :: nat) \<le> 90"
  by (simp add: isAlpha_def byte_in_def code_le_iff)

lemma isDigit_not_isAlpha: "isDigit c \<Longrightarrow> \<not> isAlpha c"
  by (auto simp: isDigit_code isAlpha_code)

text \<open>\<open>strings.Compare\<close>: -1, 0 or 1 by the bytewise order.\<close>

definition Compare :: "string \<Rightarrow> string \<Rightarrow> int" where
  "Compare a b = (if a = b then 0 else if a < b then -1 else 1)"

section \<open>Splitting at a byte\<close>

fun split_byte :: "char \<Rightarrow> string \<Rightarrow> string list" where
  "split_byte c [] = [[]]"
| "split_byte c (x # xs) =
     (if x = c then [] # split_byte c xs
      else case split_byte c xs of
             [] \<Rightarrow> [[x]]
           | p # ps \<Rightarrow> (x # p) # ps)"

lemma split_byte_nonempty [simp]: "split_byte c s \<noteq> []"
  by (induction s) (auto split: list.splits)

lemma split_byte_notin: "c \<notin> set s \<Longrightarrow> split_byte c s = [s]"
  by (induction s) auto

lemma split_byte_append:
  "c \<notin> set p \<Longrightarrow> split_byte c (p @ c # s) = p # split_byte c s"
  by (induction p) auto

lemma split_byte_parts: "p \<in> set (split_byte c s) \<Longrightarrow> c \<notin> set p"
  by (induction s arbitrary: p) (auto split: if_splits list.splits)

section \<open>Joining and numbers in decimal\<close>

fun Join :: "string list \<Rightarrow> string \<Rightarrow> string" where
  "Join [] sep = []"
| "Join [s] sep = s"
| "Join (s # t # ss) sep = s @ sep @ Join (t # ss) sep"

fun Itoa :: "nat \<Rightarrow> string" where
  "Itoa n = (if n < 10 then [byte_of (48 + n)] else Itoa (n div 10) @ [byte_of (48 + n mod 10)])"

declare Itoa.simps [simp del]

section \<open>Letter case\<close>

text \<open>
  \<open>strings.ToLower\<close> on ASCII; what the code compares the result with has only letters no rune beyond
  ASCII is lowered to.
\<close>

definition ToLower :: "string \<Rightarrow> string" where
  "ToLower s = map (\<lambda>c. if byte_in (CHR ''A'') (CHR ''Z'') c then byte_of (code c + 32) else c) s"

end
