(* ===== verification/Budgets.thy ===== *)
theory Budgets
  imports Opspec Go_Strings
begin

text \<open>
  Capacity budgets, from \<open>src/internal/budgets/budgets.go\<close> (which budgets an operation loads
  and how a wait is spelled out) and \<open>src/internal/budgets/store.go\<close> (the tables
  \<open>budget_limits\<close>, \<open>budget_leases\<close> and \<open>budget_waiters\<close> and the grants made over
  them).

  One unit of time is a microsecond, the resolution of a PostgreSQL timestamp. Every operation
  of the store is one transaction on \<open>budget_db\<close>; \<open>now\<close> is the moment of the transaction.
\<close>

abbreviation Second :: int where
  "Second \<equiv> 1000000"

abbreviation Minute :: int where
  "Minute \<equiv> 60000000"

section \<open>What an operation asks for\<close>

type_synonym Class = string

definition ClassIncident :: Class where
  "ClassIncident = ''incident''"

definition ClassInteractive :: Class where
  "ClassInteractive = ''interactive''"

definition ClassMaintenance :: Class where
  "ClassMaintenance = ''maintenance''"

definition ClassBackground :: Class where
  "ClassBackground = ''background''"

definition PromotionAge :: "Class \<Rightarrow> duration" where
  "PromotionAge c =
     (if c = ClassIncident then 0
      else if c = ClassInteractive then 15 * Second
      else if c = ClassMaintenance then 2 * Minute
      else 5 * Minute)"

definition Known :: "Class \<Rightarrow> bool" where
  "Known c =
     (c = ClassIncident \<or> c = ClassInteractive \<or> c = ClassMaintenance \<or> c = ClassBackground)"

record Need =
  n_Key :: string
  n_Weight :: int

definition ReasonCapacity :: string where
  "ReasonCapacity = ''capacity''"

definition ReasonFairShare :: string where
  "ReasonFairShare = ''fair_share''"

record Refusal =
  rf_Key :: string
  rf_Reason :: string
  rf_Used :: int
  rf_Capacity :: int
  rf_Share :: int
  rf_Held :: int
  rf_Waiting :: duration

definition no_refusal :: Refusal where
  "no_refusal = \<lparr>rf_Key = [], rf_Reason = [], rf_Used = 0, rf_Capacity = 0, rf_Share = 0,
     rf_Held = 0, rf_Waiting = 0\<rparr>"

definition Empty :: "Refusal \<Rightarrow> bool" where
  "Empty r = (rf_Key r = [])"

definition KeyGlobalMutations :: string where
  "KeyGlobalMutations = ''global:mutations''"

definition KeyGlobalReads :: string where
  "KeyGlobalReads = ''global:reads''"

definition SiteFamily :: "registry \<Rightarrow> ActionType \<Rightarrow> string" where
  "SiteFamily reg action =
     (if action = ActionSystemReboot \<or> action = ActionSystemShutdown then ''reboot''
      else LockClass reg action)"

definition SiteKey :: "string \<Rightarrow> string \<Rightarrow> string" where
  "SiteKey site family =
     (if site = [] \<or> family = [] then [] else ''site:'' @ site @ '':'' @ family)"

text \<open>
  \<open>scopeName\<close> replaces the colon and the space and shortens a long name to its first hundred
  bytes and the start of the digest of the text. \<open>hexsum\<close> stands for
  \<open>hex(sha256(text))\<close>.
\<close>

definition scope_byte :: "char \<Rightarrow> char" where
  "scope_byte c = (if c = CHR '':'' \<or> c = CHR '' '' then CHR ''_'' else c)"

definition scopeName :: "(string \<Rightarrow> string) \<Rightarrow> string \<Rightarrow> string" where
  "scopeName hexsum text =
     (let text = TrimSpace text in
      if text = [] then []
      else let name = map scope_byte text in
        if length name > 100 then take 100 name @ ''_'' @ take 16 (hexsum text) else name)"

definition BackendKey :: "(string \<Rightarrow> string) \<Rightarrow> string \<Rightarrow> string" where
  "BackendKey hexsum repository =
     (let name = scopeName hexsum repository in
      if name = [] then [] else ''backend:'' @ name @ '':backup'')"

definition DomainKey :: "(string \<Rightarrow> string) \<Rightarrow> string \<Rightarrow> string \<Rightarrow> string" where
  "DomainKey hexsum domain family =
     (let name = scopeName hexsum domain in
      if name = [] \<or> family = [] then [] else ''domain:'' @ name @ '':'' @ family)"

definition GatewayKey :: "(string \<Rightarrow> string) \<Rightarrow> string \<Rightarrow> string \<Rightarrow> string" where
  "GatewayKey hexsum gateway family =
     (let name = scopeName hexsum gateway in
      if name = [] \<or> family = [] then [] else ''gateway:'' @ name @ '':'' @ family)"

definition split :: "string \<Rightarrow> string list" where
  "split key = split_byte (CHR '':'') key"

definition Pattern :: "string \<Rightarrow> string" where
  "Pattern key =
     (case split key of
        [scope, name, family] \<Rightarrow> scope @ '':*:'' @ family
      | _ \<Rightarrow> [])"

record Topology =
  t_Site :: string
  t_FailureDomain :: string
  t_Gateway :: string

definition Needs ::
  "registry \<Rightarrow> (string \<Rightarrow> string) \<Rightarrow> ActionType \<Rightarrow> Topology \<Rightarrow> string \<Rightarrow> Need list" where
  "Needs reg hexsum action place repository =
     (let mut = Mutating reg action \<or> \<not> Known_action reg action;
          global = (if mut then KeyGlobalMutations else KeyGlobalReads);
          family = SiteFamily reg action;
          topo = (if mut
                  then filter (\<lambda>key. key \<noteq> [])
                         [SiteKey (t_Site place) family,
                          DomainKey hexsum (t_FailureDomain place) family,
                          GatewayKey hexsum (t_Gateway place) family]
                  else []);
          back = (if action = ActionBackupRun \<or> action = ActionBackupVerify
                     \<or> action = ActionBackupRestore
                  then filter (\<lambda>key. key \<noteq> []) [BackendKey hexsum repository]
                  else [])
      in map (\<lambda>key. \<lparr>n_Key = key, n_Weight = 1\<rparr>) (global # topo @ back))"

definition JobOwner :: "string \<Rightarrow> string" where
  "JobOwner jobID = ''job:'' @ jobID"

definition JobClaimant :: "string \<Rightarrow> string" where
  "JobClaimant createdBy = ''jobs:'' @ createdBy"

definition WaitReasonPrefix :: string where
  "WaitReasonPrefix = ''awaiting_budget:''"

definition WaitReason :: "Refusal \<Rightarrow> string" where
  "WaitReason refusal = (if Empty refusal then [] else WaitReasonPrefix @ rf_Key refusal)"

definition WaitedKey :: "string \<Rightarrow> string" where
  "WaitedKey reason =
     (if \<not> HasPrefix reason WaitReasonPrefix then [] else TrimPrefix reason WaitReasonPrefix)"

definition PanelAuthorPrefix :: string where
  "PanelAuthorPrefix = ''flotestro/''"

definition JobClass :: "ActionType \<Rightarrow> string \<Rightarrow> Class \<Rightarrow> Class" where
  "JobClass action createdBy stated =
     (if Known stated then stated
      else if HasPrefix createdBy PanelAuthorPrefix then ClassBackground
      else if action = ActionLocalUserLock then ClassIncident
      else ClassInteractive)"

definition ClassUnknown :: string where
  "ClassUnknown = ''unknown''"

record JobFacts =
  jf_Action :: ActionType
  jf_CreatedBy :: string
  jf_Stated :: Class

definition LeaseClass :: "string \<Rightarrow> string \<Rightarrow> JobFacts option \<Rightarrow> string" where
  "LeaseClass owner claimant job =
     (if HasPrefix owner ''job:''
      then (case job of
              None \<Rightarrow> ClassUnknown
            | Some f \<Rightarrow> JobClass (jf_Action f) (jf_CreatedBy f) (jf_Stated f))
      else if HasPrefix claimant ''campaign:'' then ClassMaintenance
      else if HasPrefix owner ''fanout:'' then ClassInteractive
      else ClassUnknown)"

section \<open>Keys and their patterns\<close>

lemma split_byte_snoc:
  "c \<notin> set q \<Longrightarrow> split_byte c (p @ c # q) = split_byte c p @ [q]"
  by (induction p) (auto simp: split_byte_notin split: list.splits)

lemma length_split_byte: "length (split_byte c s) = Suc (length (filter (\<lambda>x. x = c) s))"
  by (induction s) (auto split: list.splits)

lemma split_three:
  assumes "CHR '':'' \<notin> set scope" and "CHR '':'' \<notin> set family"
  shows "split (scope @ CHR '':'' # name @ CHR '':'' # family)
           = scope # split_byte (CHR '':'') name @ [family]"
  using assms by (simp add: split_def split_byte_append split_byte_snoc)

lemma Pattern_three:
  assumes "CHR '':'' \<notin> set scope" and "CHR '':'' \<notin> set family"
  shows "Pattern (scope @ CHR '':'' # name @ CHR '':'' # family) =
           (if CHR '':'' \<in> set name then [] else scope @ '':*:'' @ family)"
proof (cases "CHR '':'' \<in> set name")
  case False
  then show ?thesis
    using assms by (simp add: Pattern_def split_three split_byte_notin)
next
  case True
  then have "filter (\<lambda>x. x = CHR '':'') name \<noteq> []"
    by (auto simp: filter_empty_conv)
  then have "2 \<le> length (split_byte (CHR '':'') name)"
    by (simp add: length_split_byte Suc_le_eq)
  then obtain a b r where "split_byte (CHR '':'') name = a # b # r"
    by (metis Suc_le_length_iff numeral_2_eq_2)
  then show ?thesis
    using assms True by (simp add: Pattern_def split_three split: list.splits)
qed

lemma scopeName_no_colon:
  assumes "\<And>t. CHR '':'' \<notin> set (hexsum t)"
  shows "CHR '':'' \<notin> set (scopeName hexsum text)"
proof -
  have m: "CHR '':'' \<notin> set (map scope_byte t)" for t
    by (auto simp: scope_byte_def)
  have "CHR '':'' \<notin> set (take n (map scope_byte t))" for n t
    using m [of t] in_set_takeD by metis
  moreover have "CHR '':'' \<notin> set (take n (hexsum t))" for n t
    using assms [of t] in_set_takeD by metis
  ultimately show ?thesis
    using m by (simp add: scopeName_def Let_def)
qed

lemma Needs_keys_nonempty: "[] \<notin> set (map n_Key (Needs reg hexsum action place repository))"
  by (auto simp: Needs_def Let_def KeyGlobalMutations_def KeyGlobalReads_def)

lemma Needs_weights: "need \<in> set (Needs reg hexsum action place repository) \<Longrightarrow> n_Weight need = 1"
  by (auto simp: Needs_def Let_def)

text \<open>
  C25: The budget of a failure domain, of a gateway or of a backup repository always falls under
  the default row of its family, whatever text names it: the name is one part of the key. The
  name of a site goes into the key as it is, so the budget of a site falls under the default row
  of its family exactly when the name has no colon.
\<close>

theorem scope_keys_fall_under_pattern:
  assumes "\<And>t. CHR '':'' \<notin> set (hexsum t)"
    and "CHR '':'' \<notin> set family"
  shows "(DomainKey hexsum domain family \<noteq> [] \<longrightarrow>
            Pattern (DomainKey hexsum domain family) = ''domain:*:'' @ family)
         \<and> (GatewayKey hexsum gateway family \<noteq> [] \<longrightarrow>
            Pattern (GatewayKey hexsum gateway family) = ''gateway:*:'' @ family)
         \<and> (BackendKey hexsum repository \<noteq> [] \<longrightarrow>
            Pattern (BackendKey hexsum repository) = ''backend:*:backup'')
         \<and> (SiteKey site family \<noteq> [] \<longrightarrow>
            Pattern (SiteKey site family) =
              (if CHR '':'' \<in> set site then [] else ''site:*:'' @ family))"
  using assms scopeName_no_colon [of hexsum]
    Pattern_three [of "''domain''" family "scopeName hexsum domain"]
    Pattern_three [of "''gateway''" family "scopeName hexsum gateway"]
    Pattern_three [of "''backend''" "''backup''" "scopeName hexsum repository"]
    Pattern_three [of "''site''" family site]
  by (auto simp: DomainKey_def GatewayKey_def BackendKey_def SiteKey_def Let_def split: if_splits)

theorem scope_keys_fall_under_pattern_witness:
  "Pattern (DomainKey (\<lambda>_. ''0'') ''rack: 1'' ''packages'') = ''domain:*:packages''
   \<and> Pattern (GatewayKey (\<lambda>_. ''0'') ''gw'' ''packages'') = ''gateway:*:packages''
   \<and> Pattern (BackendKey (\<lambda>_. ''0'') ''s3://store'') = ''backend:*:backup''
   \<and> Pattern (SiteKey ''fra:1'' ''packages'') = []"
proof -
  have "DomainKey (\<lambda>_. ''0'') ''rack: 1'' ''packages'' \<noteq> []"
    and "GatewayKey (\<lambda>_. ''0'') ''gw'' ''packages'' \<noteq> []"
    and "BackendKey (\<lambda>_. ''0'') ''s3://store'' \<noteq> []"
    and "SiteKey ''fra:1'' ''packages'' \<noteq> []"
    by code_simp+
  then show ?thesis
    using scope_keys_fall_under_pattern [of "\<lambda>_. ''0''" "''packages''" "''rack: 1''" "''gw''"
        "''s3://store''" "''fra:1''"]
    by simp
qed

end
