(* ===== verification/Budget_Store.thy ===== *)
theory Budget_Store
  imports Budgets
begin

text \<open>
  The store of the capacity budgets, from \<open>src/internal/budgets/store.go\<close>.

  The capacity rows are locked for the length of a grant, so a grant is one step on the
  tables. \<open>AcquireFenced\<close> grants every need or none; an expired lease no longer counts; a
  lease is renewed only while it is alive. The main result is that no sequence of these
  operations lets the weight of the live leases of a budget exceed its capacity.
\<close>

record budget_limit =
  lim_key :: string
  lim_capacity :: int
  lim_note :: string
  lim_updated_at :: moment

record budget_lease =
  bl_key :: string
  bl_owner :: string
  bl_claimant :: string
  bl_weight :: int
  bl_acquired_at :: moment
  bl_until :: moment
  bl_token :: int

record budget_waiter =
  bw_key :: string
  bw_claimant :: string
  bw_class :: Class
  bw_since :: moment
  bw_seen_at :: moment

record budget_db =
  limits :: "budget_limit list"
  leases :: "budget_lease list"
  waiters :: "budget_waiter list"

datatype budget_error = ErrDatabase | ErrLeaseLost | ErrFenceStale | ErrCapacityMoved

definition defaultLease :: duration where
  "defaultLease = 2 * Minute"

definition waiterAge :: duration where
  "waiterAge = 30 * Second"

section \<open>Granting\<close>

text \<open>
  \<open>capacities\<close>: the rows named by a need or by its pattern are read; a need takes the row
  of its own key, or else the row of its pattern, or else it has no capacity at all.
\<close>

definition wanted_keys :: "Need list \<Rightarrow> string list" where
  "wanted_keys needs =
     concat (map (\<lambda>need. n_Key need #
       (if Pattern (n_Key need) \<noteq> [] then [Pattern (n_Key need)] else [])) needs)"

definition capacities :: "budget_db \<Rightarrow> Need list \<Rightarrow> string \<Rightarrow> int option" where
  "capacities db needs key =
     (let source = filter (\<lambda>l. lim_key l \<in> set (wanted_keys needs)) (limits db) in
      if key \<notin> set (map n_Key needs) then None
      else case sql_get lim_key key source of
             Some l \<Rightarrow> Some (lim_capacity l)
           | None \<Rightarrow> map_option lim_capacity (sql_get lim_key (Pattern key) source))"

definition live :: "moment \<Rightarrow> string \<Rightarrow> budget_lease \<Rightarrow> bool" where
  "live now key l = (bl_key l = key \<and> now < bl_until l)"

definition used_by_others :: "budget_db \<Rightarrow> string \<Rightarrow> string \<Rightarrow> moment \<Rightarrow> int" where
  "used_by_others db key owner now =
     sum_list (map bl_weight (filter (\<lambda>l. live now key l \<and> bl_owner l \<noteq> owner) (leases db)))"

definition held_by_claimant ::
  "budget_db \<Rightarrow> string \<Rightarrow> string \<Rightarrow> string \<Rightarrow> moment \<Rightarrow> int" where
  "held_by_claimant db key owner claimant now =
     sum_list (map bl_weight
       (filter (\<lambda>l. live now key l \<and> bl_owner l \<noteq> owner \<and> bl_claimant l = claimant) (leases db)))"

definition claimants :: "budget_db \<Rightarrow> string \<Rightarrow> moment \<Rightarrow> int" where
  "claimants db key now =
     int (length (remdups
       (map bl_claimant (filter (live now key) (leases db))
        @ map bw_claimant
            (filter (\<lambda>w. bw_key w = key \<and> now - waiterAge < bw_seen_at w) (waiters db)))))"

definition waitingTime :: "budget_db \<Rightarrow> string \<Rightarrow> string \<Rightarrow> moment \<Rightarrow> duration" where
  "waitingTime db key claimant now =
     (case sql_get (\<lambda>w. (bw_key w, bw_claimant w)) (key, claimant) (waiters db) of
        None \<Rightarrow> 0
      | Some w \<Rightarrow> now - bw_since w)"

text \<open>A capacity is positive, so the truncating division of Go is the division of HOL.\<close>

definition check ::
  "budget_db \<Rightarrow> string \<Rightarrow> string \<Rightarrow> Class \<Rightarrow> Need \<Rightarrow> int \<Rightarrow> moment \<Rightarrow> Refusal" where
  "check db owner claimant class need capacity now =
     (let key = n_Key need;
          used = used_by_others db key owner now;
          mine = held_by_claimant db key owner claimant now;
          waiting = waitingTime db key claimant now
      in if used + n_Weight need > capacity
         then no_refusal\<lparr>rf_Key := key, rf_Reason := ReasonCapacity, rf_Used := used,
                rf_Capacity := capacity, rf_Waiting := waiting\<rparr>
         else let share0 = capacity div max (claimants db key now) 1;
                  share = (if share0 < 1 then 1 else share0)
              in if mine + n_Weight need > share \<and> waiting < PromotionAge class
                 then no_refusal\<lparr>rf_Key := key, rf_Reason := ReasonFairShare, rf_Used := used,
                        rf_Capacity := capacity, rf_Share := share, rf_Held := mine,
                        rf_Waiting := waiting\<rparr>
                 else no_refusal)"

definition recordWaiter ::
  "budget_db \<Rightarrow> string \<Rightarrow> string \<Rightarrow> Class \<Rightarrow> moment \<Rightarrow> budget_db" where
  "recordWaiter db key claimant class now =
     db\<lparr>waiters := sql_upsert (\<lambda>w. (bw_key w, bw_claimant w))
          (\<lambda>w. w\<lparr>bw_seen_at := now, bw_class := class\<rparr>)
          \<lparr>bw_key = key, bw_claimant = claimant, bw_class = class, bw_since = now,
           bw_seen_at = now\<rparr>
          (waiters db)\<rparr>"

definition recordLease ::
  "duration \<Rightarrow> Need \<Rightarrow> string \<Rightarrow> string \<Rightarrow> int \<Rightarrow> moment \<Rightarrow> budget_db \<Rightarrow> budget_db" where
  "recordLease lease need owner claimant token now db =
     db\<lparr>leases := sql_upsert (\<lambda>l. (bl_key l, bl_owner l))
          (\<lambda>l. l\<lparr>bl_claimant := claimant, bl_weight := n_Weight need, bl_until := now + lease,
                 bl_token := token\<rparr>)
          \<lparr>bl_key = n_Key need, bl_owner = owner, bl_claimant = claimant,
           bl_weight = n_Weight need, bl_acquired_at = now, bl_until = now + lease,
           bl_token = token\<rparr>
          (leases db)\<rparr>"

text \<open>
  The loop over the ordered needs: the first refusal ends it (\<^const>\<open>Inl\<close>), otherwise the
  needs that have a capacity are granted (\<^const>\<open>Inr\<close>).
\<close>

fun check_needs ::
  "budget_db \<Rightarrow> (string \<Rightarrow> int option) \<Rightarrow> string \<Rightarrow> string \<Rightarrow> Class \<Rightarrow> moment \<Rightarrow>
   Need list \<Rightarrow> Need list \<Rightarrow> (Need \<times> Refusal) + Need list" where
  "check_needs db caps owner claimant class now [] granted = Inr granted"
| "check_needs db caps owner claimant class now (need # needs) granted =
     (case caps (n_Key need) of
        None \<Rightarrow> check_needs db caps owner claimant class now needs granted
      | Some capacity \<Rightarrow>
          let refusal = check db owner claimant class need capacity now in
          if \<not> Empty refusal then Inl (need, refusal)
          else check_needs db caps owner claimant class now needs (granted @ [need]))"

definition AcquireFenced ::
  "duration \<Rightarrow> string \<Rightarrow> string \<Rightarrow> Class \<Rightarrow> Need list \<Rightarrow> int \<Rightarrow> moment \<Rightarrow> budget_db \<Rightarrow>
   (budget_error + Refusal) \<times> budget_db" where
  "AcquireFenced lease owner claimant class needs token now db =
     (if needs = [] then (Inr no_refusal, db)
      else let ordered = sort_key n_Key needs in
        case check_needs db (capacities db ordered) owner claimant class now ordered [] of
          Inl (need, refusal) \<Rightarrow>
            (Inr refusal, recordWaiter db (n_Key need) claimant class now)
        | Inr granted \<Rightarrow>
            if list_ex (\<lambda>need. n_Weight need \<le> 0) granted then (Inl ErrDatabase, db)
            else let db' = fold (\<lambda>need. recordLease lease need owner claimant token now) granted db
                 in (Inr no_refusal,
                     db'\<lparr>waiters := sql_delete
                       (\<lambda>w. bw_claimant w = claimant \<and> bw_key w \<in> set (map n_Key granted))
                       (waiters db')\<rparr>))"

definition Acquire ::
  "duration \<Rightarrow> string \<Rightarrow> string \<Rightarrow> Class \<Rightarrow> Need list \<Rightarrow> moment \<Rightarrow> budget_db \<Rightarrow>
   (budget_error + Refusal) \<times> budget_db" where
  "Acquire lease owner claimant class needs now db =
     AcquireFenced lease owner claimant class needs 0 now db"

section \<open>Renewing and releasing\<close>

definition Renew ::
  "duration \<Rightarrow> string list \<Rightarrow> moment \<Rightarrow> budget_db \<Rightarrow> budget_error option \<times> budget_db" where
  "Renew lease owners now db =
     (if owners = [] then (None, db)
      else let lost = length (filter (\<lambda>l. bl_owner l \<in> set owners \<and> bl_until l \<le> now) (leases db))
           in (if lost > 0 then Some ErrLeaseLost else None,
               db\<lparr>leases := sql_update (\<lambda>l. bl_owner l \<in> set owners \<and> now < bl_until l)
                    (\<lambda>l. l\<lparr>bl_until := now + lease\<rparr>) (leases db)\<rparr>))"

text \<open>
  \<open>RenewFenced\<close> joins the pairs the caller holds with the rows of their owner: rows under
  another token, rows of the caller that ran out, and pairs without any row.
\<close>

definition RenewFenced ::
  "duration \<Rightarrow> (string \<times> int) list \<Rightarrow> moment \<Rightarrow> budget_db \<Rightarrow> budget_error option \<times> budget_db"
where
  "RenewFenced lease held now db =
     (if held = [] then (None, db)
      else let joined = concat (map (\<lambda>(owner, token).
                 map (\<lambda>l. (l, token)) (filter (\<lambda>l. bl_owner l = owner) (leases db))) held);
               stale = list_ex (\<lambda>(l, token). bl_token l \<noteq> token) joined;
               expired = list_ex (\<lambda>(l, token). bl_token l = token \<and> bl_until l \<le> now) joined;
               missing = list_ex (\<lambda>(owner, token). owner \<notin> set (map bl_owner (leases db))) held
           in (if stale then Some ErrFenceStale
               else if expired then Some ErrLeaseLost
               else if missing then Some ErrLeaseLost
               else None,
               db\<lparr>leases := sql_update
                    (\<lambda>l. (bl_owner l, bl_token l) \<in> set held \<and> now < bl_until l)
                    (\<lambda>l. l\<lparr>bl_until := now + lease\<rparr>) (leases db)\<rparr>))"

definition Release :: "string \<Rightarrow> budget_db \<Rightarrow> budget_db" where
  "Release owner db = db\<lparr>leases := sql_delete (\<lambda>l. bl_owner l = owner) (leases db)\<rparr>"

definition ReleaseFenced :: "string \<Rightarrow> int \<Rightarrow> budget_db \<Rightarrow> budget_db" where
  "ReleaseFenced owner token db =
     db\<lparr>leases := sql_delete (\<lambda>l. bl_owner l = owner \<and> bl_token l = token) (leases db)\<rparr>"

definition ReleaseIn :: "string \<Rightarrow> budget_db \<Rightarrow> budget_db" where
  "ReleaseIn owner db = db\<lparr>leases := sql_delete (\<lambda>l. bl_owner l = owner) (leases db)\<rparr>"

definition ReleaseClaimant :: "string \<Rightarrow> budget_db \<Rightarrow> budget_db" where
  "ReleaseClaimant claimant db =
     db\<lparr>leases := sql_delete (\<lambda>l. bl_claimant l = claimant) (leases db),
        waiters := sql_delete (\<lambda>w. bw_claimant w = claimant) (waiters db)\<rparr>"

definition sweep :: "moment \<Rightarrow> budget_db \<Rightarrow> budget_db" where
  "sweep now db =
     db\<lparr>leases := sql_delete (\<lambda>l. bl_until l < now - 10 * Minute) (leases db),
        waiters := sql_delete (\<lambda>w. bw_seen_at w < now - 10 * Minute) (waiters db)\<rparr>"

definition SetCapacity ::
  "string \<Rightarrow> int \<Rightarrow> string \<Rightarrow> moment option \<Rightarrow> moment \<Rightarrow> budget_db \<Rightarrow>
   budget_error option \<times> budget_db" where
  "SetCapacity key capacity note expected now db =
     (case expected of
        None \<Rightarrow>
          if capacity \<le> 0 then (Some ErrDatabase, db)
          else if key \<in> set (map lim_key (limits db)) then (Some ErrCapacityMoved, db)
          else (None, db\<lparr>limits := limits db @
                 [\<lparr>lim_key = key, lim_capacity = capacity, lim_note = note,
                   lim_updated_at = now\<rparr>]\<rparr>)
      | Some at \<Rightarrow>
          if \<not> list_ex (\<lambda>l. lim_key l = key \<and> lim_updated_at l = at) (limits db)
          then (Some ErrCapacityMoved, db)
          else if capacity \<le> 0 then (Some ErrDatabase, db)
          else (None, db\<lparr>limits := sql_update (\<lambda>l. lim_key l = key \<and> lim_updated_at l = at)
                 (\<lambda>l. l\<lparr>lim_capacity := capacity, lim_note := note, lim_updated_at := now\<rparr>)
                 (limits db)\<rparr>))"

section \<open>The interface other components rely on\<close>

text \<open>
  A component that settles work gives its capacity back with \<open>release\<close>; what it relies on is
  that exactly the grants of the named owner are gone afterwards.
\<close>

locale capacity_ledger =
  fixes release :: "string \<Rightarrow> 'd \<Rightarrow> 'd"
    and holds :: "'d \<Rightarrow> string \<Rightarrow> bool"
  assumes holds_release: "holds (release owner d) x \<longleftrightarrow> holds d x \<and> x \<noteq> owner"
begin

lemma holds_release_all: "holds (fold release owners d) x \<longleftrightarrow> holds d x \<and> x \<notin> set owners"
  by (induction owners arbitrary: d) (auto simp: holds_release)

lemma released: "x \<in> set owners \<Longrightarrow> \<not> holds (fold release owners d) x"
  by (simp add: holds_release_all)

end

definition holds_capacity :: "budget_db \<Rightarrow> string \<Rightarrow> bool" where
  "holds_capacity db owner = list_ex (\<lambda>l. bl_owner l = owner) (leases db)"

interpretation ledger: capacity_ledger ReleaseIn holds_capacity
  by unfold_locales (auto simp: ReleaseIn_def holds_capacity_def list_ex_iff set_sql_delete)

section \<open>Weights of the live leases\<close>

definition cap_of :: "budget_db \<Rightarrow> string \<Rightarrow> int option" where
  "cap_of db key =
     (case sql_get lim_key key (limits db) of
        Some l \<Rightarrow> Some (lim_capacity l)
      | None \<Rightarrow> if Pattern key = [] then None
                else map_option lim_capacity (sql_get lim_key (Pattern key) (limits db)))"

definition live_weight :: "budget_db \<Rightarrow> string \<Rightarrow> moment \<Rightarrow> int" where
  "live_weight db key now = sum_list (map bl_weight (filter (live now key) (leases db)))"

definition own_weight :: "budget_db \<Rightarrow> string \<Rightarrow> string \<Rightarrow> moment \<Rightarrow> int" where
  "own_weight db key owner now =
     sum_list (map bl_weight (filter (\<lambda>l. live now key l \<and> bl_owner l = owner) (leases db)))"

definition wf_leases :: "budget_db \<Rightarrow> bool" where
  "wf_leases db =
     (distinct (map (\<lambda>l. (bl_key l, bl_owner l)) (leases db))
      \<and> (\<forall>l \<in> set (leases db). 0 < bl_weight l))"

definition within_capacity :: "budget_db \<Rightarrow> moment \<Rightarrow> bool" where
  "within_capacity db now =
     (\<forall>key cap. cap_of db key = Some cap \<longrightarrow> live_weight db key now \<le> cap)"

lemma sql_get_filter_key:
  "sql_get key k (filter (\<lambda>r. key r \<in> K) rows) = (if k \<in> K then sql_get key k rows else None)"
  by (induction rows) auto

lemma capacities_eq_cap_of:
  assumes "key \<in> set (map n_Key needs)" and "[] \<notin> set (map n_Key needs)"
  shows "capacities db needs key = cap_of db key"
proof -
  have k: "key \<in> set (wanted_keys needs)"
    using assms(1) by (auto simp: wanted_keys_def)
  have p: "Pattern key \<in> set (wanted_keys needs) \<longleftrightarrow> Pattern key \<noteq> []"
    using assms by (force simp: wanted_keys_def)
  show ?thesis
    using assms(1) k p
    by (auto simp: capacities_def cap_of_def sql_get_filter_key Let_def split: option.splits)
qed

lemma live_weight_split:
  "live_weight db key now = used_by_others db key owner now + own_weight db key owner now"
proof -
  have "sum_list (map bl_weight (filter (live now key) ls)) =
          sum_list (map bl_weight (filter (\<lambda>l. live now key l \<and> bl_owner l \<noteq> owner) ls))
          + sum_list (map bl_weight (filter (\<lambda>l. live now key l \<and> bl_owner l = owner) ls))" for ls
    by (induction ls) auto
  then show ?thesis
    by (simp add: live_weight_def used_by_others_def own_weight_def)
qed

lemma sum_list_filter_mono:
  fixes w :: "'r \<Rightarrow> int"
  assumes "\<forall>r \<in> set rows. 0 < w r" and "\<And>r. P r \<Longrightarrow> Q r"
  shows "sum_list (map w (filter P rows)) \<le> sum_list (map w (filter Q rows))"
  using assms by (induction rows) (auto intro: add_mono less_imp_le add_increasing)

text \<open>Leases run out as time passes: what is live later was live earlier.\<close>

lemma live_weight_antimono:
  assumes "wf_leases db" and "now \<le> later"
  shows "live_weight db key later \<le> live_weight db key now"
  unfolding live_weight_def
  using assms by (intro sum_list_filter_mono) (auto simp: wf_leases_def live_def)

lemma within_capacity_later:
  "wf_leases db \<Longrightarrow> within_capacity db now \<Longrightarrow> now \<le> later \<Longrightarrow> within_capacity db later"
  unfolding within_capacity_def using live_weight_antimono by (meson order_trans)

text \<open>Dropping leases keeps everything within its capacity.\<close>

lemma live_weight_sql_delete:
  assumes "wf_leases db"
  shows "live_weight (db\<lparr>leases := sql_delete P (leases db)\<rparr>) key now \<le> live_weight db key now"
proof -
  have "filter (live now key) (sql_delete P (leases db))
          = filter (\<lambda>l. live now key l \<and> \<not> P l) (leases db)"
    by (auto simp: sql_delete_def intro: filter_cong)
  then show ?thesis
    using assms by (auto simp: live_weight_def wf_leases_def intro: sum_list_filter_mono)
qed

lemma cap_of_leases [simp]: "cap_of (db\<lparr>leases := ls\<rparr>) key = cap_of db key"
  by (simp add: cap_of_def split: option.splits)

lemma cap_of_waiters [simp]: "cap_of (db\<lparr>waiters := ws\<rparr>) key = cap_of db key"
  by (simp add: cap_of_def split: option.splits)

lemma live_weight_waiters [simp]: "live_weight (db\<lparr>waiters := ws\<rparr>) key now = live_weight db key now"
  by (simp add: live_weight_def)

lemma wf_leases_waiters [simp]: "wf_leases (db\<lparr>waiters := ws\<rparr>) = wf_leases db"
  by (simp add: wf_leases_def)

lemma within_capacity_waiters [simp]:
  "within_capacity (db\<lparr>waiters := ws\<rparr>) now = within_capacity db now"
  by (simp add: within_capacity_def)

lemma wf_leases_delete:
  "wf_leases db \<Longrightarrow> wf_leases (db\<lparr>leases := sql_delete P (leases db)\<rparr>)"
  by (auto simp: wf_leases_def distinct_map_sql_delete set_sql_delete)

lemma within_capacity_delete:
  assumes "wf_leases db" and "within_capacity db now"
  shows "within_capacity (db\<lparr>leases := sql_delete P (leases db)\<rparr>) now"
  unfolding within_capacity_def
proof (intro allI impI)
  fix key cap
  assume "cap_of (db\<lparr>leases := sql_delete P (leases db)\<rparr>) key = Some cap"
  then have "live_weight db key now \<le> cap"
    using assms(2) by (simp add: within_capacity_def)
  then show "live_weight (db\<lparr>leases := sql_delete P (leases db)\<rparr>) key now \<le> cap"
    using live_weight_sql_delete [OF assms(1)] order_trans by blast
qed

section \<open>A grant keeps every budget within its capacity\<close>

lemma leases_recordLease:
  "leases (recordLease lease need owner claimant token now db) =
     sql_upsert (\<lambda>l. (bl_key l, bl_owner l))
       (\<lambda>l. l\<lparr>bl_claimant := claimant, bl_weight := n_Weight need, bl_until := now + lease,
              bl_token := token\<rparr>)
       \<lparr>bl_key = n_Key need, bl_owner = owner, bl_claimant = claimant,
        bl_weight = n_Weight need, bl_acquired_at = now, bl_until = now + lease,
        bl_token = token\<rparr> (leases db)"
  by (simp add: recordLease_def)

lemma limits_recordLease [simp]:
  "limits (recordLease lease need owner claimant token now db) = limits db"
  by (simp add: recordLease_def)

lemma cap_of_recordLease [simp]:
  "cap_of (recordLease lease need owner claimant token now db) key = cap_of db key"
  by (simp add: cap_of_def split: option.splits)

lemma wf_leases_recordLease:
  assumes "wf_leases db" and "0 < n_Weight need"
  shows "wf_leases (recordLease lease need owner claimant token now db)"
  using assms
  by (auto simp: wf_leases_def leases_recordLease intro!: distinct_sql_upsert)
     (auto simp: sql_upsert_def set_sql_update split: if_splits)

lemma used_by_others_recordLease:
  "used_by_others (recordLease lease need owner claimant token now db) key owner t
     = used_by_others db key owner t"
  unfolding used_by_others_def leases_recordLease sql_upsert_def
  by (auto intro!: arg_cong [where f = "\<lambda>ls. sum_list (map bl_weight ls)"] filter_sql_update)

lemma own_weight_recordLease_other:
  "key \<noteq> n_Key need \<Longrightarrow>
   own_weight (recordLease lease need owner claimant token now db) key owner t
     = own_weight db key owner t"
  unfolding own_weight_def leases_recordLease sql_upsert_def
  by (auto simp: live_def intro!: arg_cong [where f = "\<lambda>ls. sum_list (map bl_weight ls)"] filter_sql_update)

lemma no_own_rows:
  "(k, owner) \<notin> (\<lambda>l. (bl_key l, bl_owner l)) ` set rows \<Longrightarrow>
   filter (\<lambda>l. live t k l \<and> bl_owner l = owner) rows = []"
  by (induction rows) (auto simp: live_def)

lemma own_weight_update_same:
  assumes "distinct (map (\<lambda>l. (bl_key l, bl_owner l)) rows)"
    and "(k, owner) \<in> (\<lambda>l. (bl_key l, bl_owner l)) ` set rows" and "now < until"
  shows "sum_list (map bl_weight (filter (\<lambda>l. live now k l \<and> bl_owner l = owner)
           (sql_update (\<lambda>l. bl_key l = k \<and> bl_owner l = owner)
             (\<lambda>l. l\<lparr>bl_claimant := c, bl_weight := w, bl_until := until, bl_token := tk\<rparr>) rows))) = w"
  using assms
proof (induction rows)
  case Nil
  then show ?case by simp
next
  case (Cons l rows)
  show ?case
  proof (cases "(bl_key l, bl_owner l) = (k, owner)")
    case True
    then have out: "(k, owner) \<notin> (\<lambda>l. (bl_key l, bl_owner l)) ` set rows"
      using Cons.prems(1) by simp
    then have "sql_update (\<lambda>l. bl_key l = k \<and> bl_owner l = owner)
        (\<lambda>l. l\<lparr>bl_claimant := c, bl_weight := w, bl_until := until, bl_token := tk\<rparr>) rows = rows"
      by (auto simp: sql_update_def intro!: map_idI)
    with True no_own_rows [OF out] Cons.prems(3) show ?thesis
      by (auto simp: live_def)
  next
    case False
    then have "\<not> (live now k l \<and> bl_owner l = owner)"
      by (auto simp: live_def)
    with False Cons show ?thesis by auto
  qed
qed

lemma own_weight_recordLease_same:
  assumes "wf_leases db" and "0 < lease"
  shows "own_weight (recordLease lease need owner claimant token now db) (n_Key need) owner now
           = n_Weight need"
proof (cases "(n_Key need, owner) \<in> (\<lambda>l. (bl_key l, bl_owner l)) ` set (leases db)")
  case True
  then show ?thesis
    using assms own_weight_update_same [of "leases db" "n_Key need" owner now "now + lease"]
    by (auto simp: own_weight_def leases_recordLease sql_upsert_def wf_leases_def)
next
  case False
  then have none: "\<not> (\<exists>x \<in> set (leases db). bl_key x = n_Key need \<and> bl_owner x = owner)"
    by force
  show ?thesis
    using none assms(2) no_own_rows [OF False]
    by (auto simp: own_weight_def leases_recordLease sql_upsert_def live_def)
qed

lemma within_capacity_recordLease:
  assumes "wf_leases db" and "within_capacity db now" and "0 < lease"
    and fits: "\<And>cap. cap_of db (n_Key need) = Some cap \<Longrightarrow>
                 used_by_others db (n_Key need) owner now + n_Weight need \<le> cap"
  shows "within_capacity (recordLease lease need owner claimant token now db) now"
  unfolding within_capacity_def
proof (intro allI impI)
  fix key cap
  assume "cap_of (recordLease lease need owner claimant token now db) key = Some cap"
  then have c: "cap_of db key = Some cap"
    by simp
  show "live_weight (recordLease lease need owner claimant token now db) key now \<le> cap"
  proof (cases "key = n_Key need")
    case True
    then show ?thesis
      using fits c own_weight_recordLease_same [OF assms(1,3)]
      by (simp add: live_weight_split [of _ _ _ owner] used_by_others_recordLease)
  next
    case False
    then show ?thesis
      using c assms(2)
      by (simp add: live_weight_split [of _ _ _ owner] used_by_others_recordLease
          own_weight_recordLease_other within_capacity_def)
  qed
qed

lemma fold_recordLease:
  assumes "wf_leases db" and "within_capacity db now" and "0 < lease"
    and "\<forall>need \<in> set granted. 0 < n_Weight need"
    and "\<forall>need \<in> set granted. \<forall>cap. cap_of db (n_Key need) = Some cap \<longrightarrow>
           used_by_others db (n_Key need) owner now + n_Weight need \<le> cap"
  shows "wf_leases (fold (\<lambda>need. recordLease lease need owner claimant token now) granted db)
         \<and> within_capacity (fold (\<lambda>need. recordLease lease need owner claimant token now) granted db) now
         \<and> limits (fold (\<lambda>need. recordLease lease need owner claimant token now) granted db) = limits db"
  using assms
proof (induction granted arbitrary: db)
  case Nil
  then show ?case by simp
next
  case (Cons need granted)
  let ?db = "recordLease lease need owner claimant token now db"
  have "wf_leases ?db" and "within_capacity ?db now"
    using Cons.prems by (auto intro: wf_leases_recordLease within_capacity_recordLease)
  moreover have "\<forall>n \<in> set granted. \<forall>cap. cap_of ?db (n_Key n) = Some cap \<longrightarrow>
      used_by_others ?db (n_Key n) owner now + n_Weight n \<le> cap"
    using Cons.prems by (simp add: used_by_others_recordLease)
  ultimately show ?case
    using Cons.IH [of ?db] Cons.prems by simp
qed

lemma check_Empty:
  assumes "Empty (check db owner claimant class need capacity now)" and "n_Key need \<noteq> []"
  shows "used_by_others db (n_Key need) owner now + n_Weight need \<le> capacity"
  using assms by (auto simp: check_def Empty_def Let_def split: if_splits)

lemma check_needs_granted:
  assumes "check_needs db caps owner claimant class now needs granted = Inr all"
  shows "set all \<subseteq> set granted \<union> set needs
    \<and> (\<forall>need \<in> set all - set granted. \<exists>cap. caps (n_Key need) = Some cap
          \<and> Empty (check db owner claimant class need cap now))"
  using assms
proof (induction needs arbitrary: granted)
  case Nil
  then show ?case by simp
next
  case (Cons need needs)
  show ?case
  proof (cases "caps (n_Key need)")
    case None
    then show ?thesis
      using Cons by auto
  next
    case (Some cap)
    then have e: "Empty (check db owner claimant class need cap now)"
      and "check_needs db caps owner claimant class now needs (granted @ [need]) = Inr all"
      using Cons.prems by (auto simp: Let_def split: if_splits)
    from Cons.IH [OF this(2)] show ?thesis
      using e Some by auto
  qed
qed

lemma AcquireFenced_within_capacity:
  assumes "wf_leases db" and "within_capacity db now" and "0 < lease"
    and "[] \<notin> set (map n_Key needs)"
    and acq: "AcquireFenced lease owner claimant class needs token now db = (r, db')"
  shows "wf_leases db' \<and> within_capacity db' now \<and> limits db' = limits db"
proof (cases "needs = []")
  case True
  then show ?thesis
    using assms by (simp add: AcquireFenced_def)
next
  case False
  let ?ord = "sort_key n_Key needs"
  show ?thesis
  proof (cases "check_needs db (capacities db ?ord) owner claimant class now ?ord []")
    case (Inl refused)
    then show ?thesis
      using assms False by (auto simp: AcquireFenced_def recordWaiter_def split: prod.splits)
  next
    case (Inr granted)
    have g: "\<forall>need \<in> set granted. \<forall>cap. cap_of db (n_Key need) = Some cap \<longrightarrow>
        used_by_others db (n_Key need) owner now + n_Weight need \<le> cap"
    proof (intro ballI allI impI)
      fix need cap
      assume need: "need \<in> set granted" and cap: "cap_of db (n_Key need) = Some cap"
      from need check_needs_granted [OF Inr] obtain c
        where n: "need \<in> set needs" and "capacities db ?ord (n_Key need) = Some c"
          and "Empty (check db owner claimant class need c now)"
        by auto
      moreover have "capacities db ?ord (n_Key need) = cap_of db (n_Key need)"
        using n assms(4) by (intro capacities_eq_cap_of) auto
      moreover have "n_Key need \<noteq> []"
        using n assms(4) by force
      ultimately show "used_by_others db (n_Key need) owner now + n_Weight need \<le> cap"
        using cap by (simp add: check_Empty)
    qed
    show ?thesis
    proof (cases "list_ex (\<lambda>need. n_Weight need \<le> 0) granted")
      case True
      then show ?thesis
        using assms False Inr by (simp add: AcquireFenced_def)
    next
      case w: False
      then have "\<forall>need \<in> set granted. 0 < n_Weight need"
        by (auto simp: list_ex_iff not_le)
      from fold_recordLease [OF assms(1-3) this g, of claimant token] show ?thesis
        using acq False Inr w by (auto simp: AcquireFenced_def Let_def)
    qed
  qed
qed

section \<open>Every other operation does so as well\<close>

lemma live_weight_renewed:
  assumes "0 < lease"
  shows "live_weight (db\<lparr>leases := sql_update (\<lambda>l. P l \<and> now < bl_until l)
           (\<lambda>l. l\<lparr>bl_until := now + lease\<rparr>) (leases db)\<rparr>) key now = live_weight db key now"
proof -
  have "map bl_weight (filter (live now key) (sql_update (\<lambda>l. P l \<and> now < bl_until l)
           (\<lambda>l. l\<lparr>bl_until := now + lease\<rparr>) ls)) = map bl_weight (filter (live now key) ls)" for ls
    using assms by (induction ls) (auto simp: live_def)
  then show ?thesis
    by (simp add: live_weight_def)
qed

lemma wf_leases_renewed:
  "wf_leases db \<Longrightarrow>
   wf_leases (db\<lparr>leases := sql_update P (\<lambda>l. l\<lparr>bl_until := u\<rparr>) (leases db)\<rparr>)"
  by (auto simp: wf_leases_def map_sql_update set_sql_update)

lemma within_capacity_renewed:
  assumes "within_capacity db now" and "0 < lease"
  shows "within_capacity (db\<lparr>leases := sql_update (\<lambda>l. P l \<and> now < bl_until l)
           (\<lambda>l. l\<lparr>bl_until := now + lease\<rparr>) (leases db)\<rparr>) now"
  using assms live_weight_renewed [OF assms(2)] by (simp add: within_capacity_def)

definition budget_inv :: "budget_db \<times> moment \<Rightarrow> bool" where
  "budget_inv s = (wf_leases (fst s) \<and> within_capacity (fst s) (snd s))"

lemma budget_kept_delete:
  "wf_leases db \<Longrightarrow> within_capacity db now \<Longrightarrow>
   wf_leases (db\<lparr>leases := sql_delete P (leases db), waiters := ws\<rparr>)
   \<and> within_capacity (db\<lparr>leases := sql_delete P (leases db), waiters := ws\<rparr>) now"
  using wf_leases_delete [of db P] within_capacity_delete [of db now P]
    wf_leases_waiters within_capacity_waiters by blast

lemma Renew_cases:
  assumes "Renew lease owners now db = (r, db')"
  obtains "db' = db" | P where "db' = db\<lparr>leases := sql_update (\<lambda>l. P l \<and> now < bl_until l)
    (\<lambda>l. l\<lparr>bl_until := now + lease\<rparr>) (leases db)\<rparr>"
proof (cases "owners = []")
  case True
  with assms that(1) show ?thesis
    by (simp add: Renew_def)
next
  case False
  with assms that(2) [of "\<lambda>l. bl_owner l \<in> set owners"] show ?thesis
    by (simp add: Renew_def Let_def)
qed

lemma RenewFenced_cases:
  assumes "RenewFenced lease held now db = (r, db')"
  obtains "db' = db" | P where "db' = db\<lparr>leases := sql_update (\<lambda>l. P l \<and> now < bl_until l)
    (\<lambda>l. l\<lparr>bl_until := now + lease\<rparr>) (leases db)\<rparr>"
proof (cases "held = []")
  case True
  with assms that(1) show ?thesis
    by (simp add: RenewFenced_def)
next
  case False
  with assms that(2) [of "\<lambda>l. (bl_owner l, bl_token l) \<in> set held"] show ?thesis
    by (simp add: RenewFenced_def Let_def)
qed

lemma budget_kept_renewed:
  assumes "db' = db\<lparr>leases := sql_update (\<lambda>l. P l \<and> now < bl_until l)
    (\<lambda>l. l\<lparr>bl_until := now + defaultLease\<rparr>) (leases db)\<rparr>"
    and "budget_inv (db, now)"
  shows "budget_inv (db', now) \<and> limits db' = limits db"
  using assms wf_leases_renewed [of db] within_capacity_renewed [of db now defaultLease P]
  by (simp add: budget_inv_def defaultLease_def)

text \<open>
  One step of the store: a transaction, or the clock going on. The limits stay as they are:
  lowering a capacity below what is already granted takes effect as the leases run out.
  A need names its budget: \<open>Needs\<close> never asks for the empty key.
\<close>

inductive budget_step :: "budget_db \<times> moment \<Rightarrow> budget_db \<times> moment \<Rightarrow> bool" where
  bs_tick: "now \<le> later \<Longrightarrow> budget_step (db, now) (db, later)"
| bs_acquire: "[] \<notin> set (map n_Key needs) \<Longrightarrow>
    AcquireFenced defaultLease owner claimant class needs token now db = (r, db') \<Longrightarrow>
    budget_step (db, now) (db', now)"
| bs_renew: "Renew defaultLease owners now db = (r, db') \<Longrightarrow> budget_step (db, now) (db', now)"
| bs_renew_fenced: "RenewFenced defaultLease held now db = (r, db') \<Longrightarrow>
    budget_step (db, now) (db', now)"
| bs_release: "budget_step (db, now) (Release owner db, now)"
| bs_release_fenced: "budget_step (db, now) (ReleaseFenced owner token db, now)"
| bs_release_in: "budget_step (db, now) (ReleaseIn owner db, now)"
| bs_release_claimant: "budget_step (db, now) (ReleaseClaimant claimant db, now)"
| bs_sweep: "budget_step (db, now) (sweep now db, now)"

lemma budget_inv_step:
  assumes "budget_step s t" and "budget_inv s"
  shows "budget_inv t \<and> limits (fst t) = limits (fst s)"
  using assms
proof (induction rule: budget_step.induct)
  case (bs_tick now later db)
  then show ?case
    by (auto simp: budget_inv_def intro: within_capacity_later)
next
  case (bs_acquire needs owner claimant cls token now db r db')
  then show ?case
    using AcquireFenced_within_capacity [OF _ _ _ bs_acquire(1,2)]
    by (auto simp: budget_inv_def defaultLease_def)
next
  case (bs_renew owners now db r db')
  then show ?case
    by (auto elim!: Renew_cases simp: budget_kept_renewed [OF refl])
next
  case (bs_renew_fenced held now db r db')
  then show ?case
    by (auto elim!: RenewFenced_cases simp: budget_kept_renewed [OF refl])
qed (auto simp: budget_inv_def Release_def ReleaseFenced_def ReleaseIn_def ReleaseClaimant_def
      sweep_def budget_kept_delete wf_leases_delete within_capacity_delete)

interpretation bsys: invariant_system "\<lambda>s. leases (fst s) = [] \<and> (\<forall>l \<in> set (limits (fst s)). 0 < lim_capacity l)"
  budget_step budget_inv
proof
  fix s :: "budget_db \<times> moment"
  assume s: "leases (fst s) = [] \<and> (\<forall>l \<in> set (limits (fst s)). 0 < lim_capacity l)"
  then have "0 \<le> cap" if "cap_of (fst s) key = Some cap" for key cap
    using that by (auto simp: cap_of_def dest!: sql_get_SomeD split: option.splits if_splits)
  with s show "budget_inv s"
    by (auto simp: budget_inv_def wf_leases_def within_capacity_def live_weight_def)
qed (use budget_inv_step in blast)

section \<open>What a grant and a refusal mean\<close>

lemma check_needs_all:
  assumes "check_needs db caps owner claimant cls now needs granted = Inr all"
  shows "all = granted @ filter (\<lambda>need. caps (n_Key need) \<noteq> None) needs"
  using assms
  by (induction needs arbitrary: granted)
     (fastforce simp: Let_def split: option.splits if_splits)+

lemma check_needs_refused:
  assumes "check_needs db caps owner claimant cls now needs granted = Inl (need, r)"
  shows "need \<in> set needs \<and> \<not> Empty r
    \<and> (\<exists>cap. caps (n_Key need) = Some cap \<and> r = check db owner claimant cls need cap now)"
  using assms
  by (induction needs arbitrary: granted)
     (fastforce simp: Let_def split: option.splits if_splits)+

lemma check_key: "\<not> Empty (check db owner claimant cls need cap now) \<Longrightarrow>
  rf_Key (check db owner claimant cls need cap now) = n_Key need"
  by (auto simp: check_def Empty_def no_refusal_def Let_def split: if_splits)

lemma recordLease_keeps:
  "l \<in> set (leases db) \<Longrightarrow> (bl_key l, bl_owner l) \<noteq> (n_Key need, owner) \<Longrightarrow>
   l \<in> set (leases (recordLease lease need owner claimant token now db))"
  by (auto simp: leases_recordLease sql_upsert_def set_sql_update)

text \<open>A lease as an acquisition writes it; \<open>W\<close> are the weights it may have.\<close>

definition granted_lease ::
  "duration \<Rightarrow> string \<Rightarrow> string \<Rightarrow> int \<Rightarrow> moment \<Rightarrow> string \<Rightarrow> int set \<Rightarrow> budget_lease \<Rightarrow> bool" where
  "granted_lease lease owner claimant token now key W l =
     (bl_key l = key \<and> bl_owner l = owner \<and> bl_claimant l = claimant \<and> bl_token l = token
      \<and> bl_until l = now + lease \<and> bl_weight l \<in> W)"

lemma recordLease_grants:
  "n_Weight need \<in> W \<Longrightarrow> \<exists>l \<in> set (leases (recordLease lease need owner claimant token now db)).
     granted_lease lease owner claimant token now (n_Key need) W l"
  unfolding leases_recordLease by (rule sql_upsert_has) (auto simp: granted_lease_def)

lemma recordLease_keeps_grant:
  assumes "\<exists>l \<in> set (leases db). granted_lease lease owner claimant token now key W l"
    and "n_Key need = key \<Longrightarrow> n_Weight need \<in> W"
  shows "\<exists>l \<in> set (leases (recordLease lease need owner claimant token now db)).
           granted_lease lease owner claimant token now key W l"
proof (cases "key = n_Key need")
  case True
  then show ?thesis
    using recordLease_grants assms(2) by simp
next
  case False
  then show ?thesis
    using assms(1) recordLease_keeps [of _ db need owner]
    by (fastforce simp: granted_lease_def)
qed

lemma fold_recordLease_grants:
  assumes "need \<in> set granted
    \<or> (\<exists>l \<in> set (leases db). granted_lease lease owner claimant token now (n_Key need) W l)"
    and "\<forall>n \<in> set granted. n_Key n = n_Key need \<longrightarrow> n_Weight n \<in> W"
  shows "\<exists>l \<in> set (leases (fold (\<lambda>n. recordLease lease n owner claimant token now) granted db)).
           granted_lease lease owner claimant token now (n_Key need) W l"
  using assms
proof (induction granted arbitrary: db)
  case Nil
  then show ?case by simp
next
  case (Cons n granted)
  have "need \<in> set granted
    \<or> (\<exists>l \<in> set (leases (recordLease lease n owner claimant token now db)).
           granted_lease lease owner claimant token now (n_Key need) W l)"
    using Cons.prems recordLease_grants
      recordLease_keeps_grant [of db lease owner claimant token now "n_Key need" W n]
    by (metis list.set_intros(1) set_ConsD)
  from Cons.IH [OF this] Cons.prems(2) show ?case by simp
qed

text \<open>
  C18: An acquisition is all or nothing. When it answers without a refusal, every need that has a
  capacity is held by a lease of this owner, claimant and fence that lives for a whole lease
  time and weighs what a need on that budget asks for; when it answers with a refusal, no lease changed, the refused budget is one of the needs,
  and the claimant stands in the queue of that budget; when it fails, nothing changed.
\<close>

theorem acquire_all_or_nothing:
  assumes acq: "AcquireFenced lease owner claimant cls needs token now db = (r, db')"
    and keys: "[] \<notin> set (map n_Key needs)"
  shows "case r of
      Inl e \<Rightarrow> db' = db
    | Inr refusal \<Rightarrow>
        (if Empty refusal
         then \<forall>need \<in> set needs. cap_of db (n_Key need) \<noteq> None \<longrightarrow>
                (\<exists>l \<in> set (leases db').
                   granted_lease lease owner claimant token now (n_Key need)
                     (n_Weight ` {n \<in> set needs. n_Key n = n_Key need}) l)
         else leases db' = leases db \<and> rf_Key refusal \<in> set (map n_Key needs)
              \<and> (\<exists>w \<in> set (waiters db'). bw_key w = rf_Key refusal \<and> bw_claimant w = claimant
                    \<and> bw_class w = cls \<and> bw_seen_at w = now))"
proof (cases "needs = []")
  case True
  then show ?thesis
    using acq by (auto simp: AcquireFenced_def Empty_def no_refusal_def)
next
  case False
  let ?ord = "sort_key n_Key needs"
  show ?thesis
  proof (cases "check_needs db (capacities db ?ord) owner claimant cls now ?ord []")
    case (Inl refused)
    obtain need refusal where p: "refused = (need, refusal)" by (cases refused)
    have res: "r = Inr refusal" and db': "db' = recordWaiter db (n_Key need) claimant cls now"
      using acq False Inl p by (simp_all add: AcquireFenced_def)
    have n: "need \<in> set needs" and e: "\<not> Empty refusal" and k: "rf_Key refusal = n_Key need"
      using check_needs_refused [OF Inl [unfolded p]] check_key by auto
    have "\<exists>w \<in> set (waiters db'). bw_key w = n_Key need \<and> bw_claimant w = claimant
        \<and> bw_class w = cls \<and> bw_seen_at w = now"
      unfolding db' recordWaiter_def by simp (rule sql_upsert_has, auto)
    then show ?thesis
      using res n e k by (simp add: db' recordWaiter_def)
  next
    case (Inr granted)
    have all: "granted = filter (\<lambda>need. capacities db ?ord (n_Key need) \<noteq> None) ?ord"
      using check_needs_all [OF Inr] by simp
    have in_granted: "need \<in> set granted"
      if "need \<in> set needs" and "cap_of db (n_Key need) \<noteq> None" for need
      using that keys capacities_eq_cap_of [of "n_Key need" ?ord db] by (auto simp: all)
    show ?thesis
    proof (cases "list_ex (\<lambda>need. n_Weight need \<le> 0) granted")
      case True
      then show ?thesis
        using acq False Inr by (auto simp: AcquireFenced_def)
    next
      case w: False
      let ?fold = "fold (\<lambda>n. recordLease lease n owner claimant token now) granted db"
      have "r = Inr no_refusal" and "leases db' = leases ?fold"
        using acq False Inr w by (auto simp: AcquireFenced_def Let_def)
      moreover have "\<exists>l \<in> set (leases ?fold). granted_lease lease owner claimant token now (n_Key need)
          (n_Weight ` {n \<in> set needs. n_Key n = n_Key need}) l"
        if "need \<in> set needs" "cap_of db (n_Key need) \<noteq> None" for need
        using in_granted [OF that] by (intro fold_recordLease_grants) (auto simp: all)
      ultimately show ?thesis by (simp add: Empty_def no_refusal_def)
    qed
  qed
qed

text \<open>A store with one budget of one token, and two needs on it.\<close>

definition one_token :: budget_db where
  "one_token = \<lparr>limits = [\<lparr>lim_key = ''global:mutations'', lim_capacity = 1, lim_note = [],
     lim_updated_at = 0\<rparr>], leases = [], waiters = []\<rparr>"

definition one_need :: Need where
  "one_need = \<lparr>n_Key = ''global:mutations'', n_Weight = 1\<rparr>"

definition one_taken :: budget_db where
  "one_taken = snd (AcquireFenced defaultLease ''job:1'' ''jobs:a'' ''interactive'' [one_need] 7 0 one_token)"

theorem acquire_all_or_nothing_witness:
  "list_ex (granted_lease defaultLease ''job:1'' ''jobs:a'' 7 0 ''global:mutations'' {1}) (leases one_taken)
   \<and> leases (snd (AcquireFenced defaultLease ''job:2'' ''jobs:b'' ''interactive'' [one_need] 8 0 one_taken))
       = leases one_taken"
proof -
  have a: "AcquireFenced defaultLease ''job:1'' ''jobs:a'' ''interactive'' [one_need] 7 0 one_token
      = (Inr no_refusal, one_taken)" and "cap_of one_token ''global:mutations'' \<noteq> None"
    and "Empty no_refusal"
    by code_simp+
  then have "\<exists>l \<in> set (leases one_taken).
      granted_lease defaultLease ''job:1'' ''jobs:a'' 7 0 ''global:mutations'' {1} l"
    using acquire_all_or_nothing [OF a] by (simp add: one_need_def Collect_conv_if)
  moreover have "fst (AcquireFenced defaultLease ''job:2'' ''jobs:b'' ''interactive'' [one_need] 8 0 one_taken)
      = Inr (no_refusal\<lparr>rf_Key := ''global:mutations'', rf_Reason := ''capacity'', rf_Used := 1,
          rf_Capacity := 1\<rparr>)"
    by code_simp
  then obtain db' where b: "AcquireFenced defaultLease ''job:2'' ''jobs:b'' ''interactive'' [one_need] 8 0 one_taken
      = (Inr (no_refusal\<lparr>rf_Key := ''global:mutations'', rf_Reason := ''capacity'', rf_Used := 1,
          rf_Capacity := 1\<rparr>), db')"
    by (metis prod.collapse)
  then have "leases db' = leases one_taken"
    using acquire_all_or_nothing [OF b] by (simp add: one_need_def Empty_def)
  ultimately show ?thesis
    using b by (simp add: list_ex_iff)
qed

text \<open>
  C23: Waiting ends. A claimant whose needs all fit into the free capacity, and who has waited
  as long as its class asks for (an incident not at all), is granted whatever its fair share is.
\<close>

theorem aged_claimant_is_granted:
  assumes keys: "[] \<notin> set (map n_Key needs)"
    and weights: "\<forall>need \<in> set needs. 0 < n_Weight need"
    and fits: "\<forall>need \<in> set needs. \<forall>cap. cap_of db (n_Key need) = Some cap \<longrightarrow>
        used_by_others db (n_Key need) owner now + n_Weight need \<le> cap
        \<and> PromotionAge cls \<le> waitingTime db (n_Key need) claimant now"
  shows "fst (AcquireFenced lease owner claimant cls needs token now db) = Inr no_refusal"
proof -
  let ?ord = "sort_key n_Key needs"
  have ok: "check_needs db (capacities db ?ord) owner claimant cls now ns g \<noteq> Inl x"
    if "set ns \<subseteq> set needs" for ns g x
  proof
    assume "check_needs db (capacities db ?ord) owner claimant cls now ns g = Inl x"
    then obtain need c where n: "need \<in> set needs" and "capacities db ?ord (n_Key need) = Some c"
      and e: "\<not> Empty (check db owner claimant cls need c now)"
      using \<open>set ns \<subseteq> set needs\<close> check_needs_refused by (cases x) blast
    moreover have "capacities db ?ord (n_Key need) = cap_of db (n_Key need)"
      using n keys by (intro capacities_eq_cap_of) auto
    ultimately show False
      using fits by (fastforce simp: check_def Empty_def no_refusal_def Let_def)
  qed
  show ?thesis
  proof (cases "needs = []")
    case False
    obtain g where g: "check_needs db (capacities db ?ord) owner claimant cls now ?ord [] = Inr g"
      using ok [of ?ord "[]"] by (cases "check_needs db (capacities db ?ord) owner claimant cls now ?ord []") auto
    moreover have "\<not> list_ex (\<lambda>need. n_Weight need \<le> 0) g"
      using weights check_needs_all [OF g] by (auto simp: list_ex_iff not_le)
    ultimately show ?thesis
      using False by (simp add: AcquireFenced_def Let_def)
  qed (simp add: AcquireFenced_def)
qed

text \<open>Two tokens, one of them held by the claimant, and another claimant in the queue.\<close>

definition two_tokens :: budget_db where
  "two_tokens =
     \<lparr>limits = [\<lparr>lim_key = ''global:mutations'', lim_capacity = 2, lim_note = [], lim_updated_at = 0\<rparr>],
      leases = [\<lparr>bl_key = ''global:mutations'', bl_owner = ''job:0'', bl_claimant = ''jobs:a'', bl_weight = 1,
        bl_acquired_at = 0, bl_until = 60 * Minute, bl_token = 7\<rparr>],
      waiters = map (\<lambda>c. \<lparr>bw_key = ''global:mutations'', bw_claimant = c, bw_class = ''interactive'',
        bw_since = 0, bw_seen_at = 0\<rparr>) [''jobs:a'', ''jobs:b'']\<rparr>"

theorem aged_claimant_is_granted_witness:
  "fst (AcquireFenced defaultLease ''job:1'' ''jobs:a'' ''interactive'' [one_need] 7 1 two_tokens) \<noteq> Inr no_refusal
   \<and> fst (AcquireFenced defaultLease ''job:1'' ''jobs:a'' ''interactive'' [one_need] 7 (15 * Second) two_tokens)
     = Inr no_refusal"
proof
  show "fst (AcquireFenced defaultLease ''job:1'' ''jobs:a'' ''interactive'' [one_need] 7 1 two_tokens) \<noteq> Inr no_refusal"
    by code_simp
  have fits: "cap_of two_tokens ''global:mutations'' = Some 2"
      "used_by_others two_tokens ''global:mutations'' ''job:1'' (15 * Second) = 1"
      "PromotionAge ''interactive'' \<le> waitingTime two_tokens ''global:mutations'' ''jobs:a'' (15 * Second)"
    by code_simp+
  show "fst (AcquireFenced defaultLease ''job:1'' ''jobs:a'' ''interactive'' [one_need] 7 (15 * Second) two_tokens)
      = Inr no_refusal"
    by (rule aged_claimant_is_granted) (use fits in \<open>simp_all add: one_need_def\<close>)
qed

text \<open>
  C3: No run of the store grants more than there is. From tables without leases, through any
  sequence of acquisitions, renewals, releases and sweeps at moments that never go back, the
  weight of the leases of a budget that are alive stays within the capacity of that budget, be it
  its own row or the default row of its pattern.
\<close>

theorem live_weight_within_capacity:
  assumes "\<forall>l \<in> set (limits db). 0 < lim_capacity l" and "leases db = []"
    and "budget_step\<^sup>*\<^sup>* (db, now) (db', now')"
    and "cap_of db' key = Some cap"
  shows "live_weight db' key now' \<le> cap"
proof -
  have "budget_inv (db', now')"
    using assms by (intro bsys.inv_reachable [OF _ assms(3)]) simp
  then show ?thesis
    using assms(4) by (simp add: budget_inv_def within_capacity_def)
qed

theorem live_weight_within_capacity_witness:
  "live_weight one_taken ''global:mutations'' 5 \<le> 1"
proof (rule live_weight_within_capacity)
  have "AcquireFenced defaultLease ''job:1'' ''jobs:a'' ''interactive'' [one_need] 7 0 one_token
      = (Inr no_refusal, one_taken)"
    by code_simp
  then have "budget_step (one_token, 0) (one_taken, 0)"
    by (rule bs_acquire [rotated]) (simp add: one_need_def)
  moreover have "budget_step (one_taken, 0) (one_taken, 5)"
    by (rule bs_tick) simp
  ultimately show "budget_step\<^sup>*\<^sup>* (one_token, 0) (one_taken, 5)"
    by (meson converse_rtranclp_into_rtranclp r_into_rtranclp)
  show "cap_of one_taken ''global:mutations'' = Some 1"
    by code_simp
qed (simp_all add: one_token_def)

lemma three_errors_None:
  "(if a then Some x else if b then Some y else if c then Some z else None) = None
     \<longleftrightarrow> \<not> a \<and> \<not> b \<and> \<not> c"
  by simp

text \<open>
  C24: A renewal that answers without an error vouches for every pair it was asked about: the
  owner has leases, each of them carries the fence of the caller and lives for a whole lease time
  from now. The leases of every other owner or fence are as they were.
\<close>

theorem renew_fenced_vouches:
  assumes "RenewFenced lease held now db = (None, db')"
  shows "(\<forall>(owner, token) \<in> set held.
            list_ex (\<lambda>l. bl_owner l = owner) (leases db')
            \<and> list_all (\<lambda>l. bl_owner l = owner \<longrightarrow> bl_token l = token \<and> bl_until l = now + lease)
                (leases db'))
         \<and> filter (\<lambda>l. (bl_owner l, bl_token l) \<notin> set held) (leases db')
             = filter (\<lambda>l. (bl_owner l, bl_token l) \<notin> set held) (leases db)"
proof (cases "held = []")
  case True
  then show ?thesis
    using assms by (simp add: RenewFenced_def)
next
  case False
  let ?upd = "sql_update (\<lambda>l. (bl_owner l, bl_token l) \<in> set held \<and> now < bl_until l)
                (\<lambda>l. l\<lparr>bl_until := now + lease\<rparr>) (leases db)"
  have ls: "leases db' = ?upd"
    using assms False by (auto simp: RenewFenced_def Let_def)
  let ?j = "concat (map (\<lambda>(owner, token).
      map (\<lambda>l. (l, token)) (filter (\<lambda>l. bl_owner l = owner) (leases db))) held)"
  note flags = assms [unfolded RenewFenced_def Let_def if_not_P [OF False] prod.inject
      three_errors_None, THEN conjunct1]
  have rows: "bl_token l = token \<and> now < bl_until l"
    if "(owner, token) \<in> set held" "l \<in> set (leases db)" "bl_owner l = owner" for owner token l
  proof -
    have "(l, token) \<in> set ?j"
      using that by (auto intro!: bexI [of _ "(owner, token)"])
    then have "\<not> (case (l, token) of (l, token) \<Rightarrow> bl_token l \<noteq> token)"
      and "\<not> (case (l, token) of (l, token) \<Rightarrow> bl_token l = token \<and> bl_until l \<le> now)"
      using flags unfolding list_ex_iff by blast+
    then show ?thesis by simp
  qed
  have some: "owner \<in> bl_owner ` set (leases db)" if "(owner, token) \<in> set held" for owner token
  proof -
    have "\<not> (case (owner, token) of (owner, token) \<Rightarrow> owner \<notin> set (map bl_owner (leases db)))"
      using flags that unfolding list_ex_iff by blast
    then show ?thesis by simp
  qed
  have kept: "filter (\<lambda>l. (bl_owner l, bl_token l) \<notin> set held) ?upd
      = filter (\<lambda>l. (bl_owner l, bl_token l) \<notin> set held) (leases db)"
    by (rule filter_sql_update) auto
  have has: "list_ex (\<lambda>l. bl_owner l = owner) ?upd" if "(owner, token) \<in> set held" for owner token
  proof -
    have "list_ex (\<lambda>l. bl_owner l = owner) (leases db)"
      using some [OF that] by (auto simp: list_ex_iff)
    then show ?thesis
      by (subst has_key_sql_update) simp_all
  qed
  have mine: "bl_token l = token \<and> bl_until l = now + lease"
    if h: "(owner, token) \<in> set held" and l: "l \<in> set ?upd" "bl_owner l = owner" for owner token l
    using l(1)
  proof (cases rule: in_sql_updateE)
    case 1
    then show ?thesis using rows [OF h _ l(2)] h l(2) by blast
  next
    case (2 r0)
    then show ?thesis using rows [OF h \<open>r0 \<in> set (leases db)\<close>] l(2) by simp
  qed
  have "list_all (\<lambda>l. bl_owner l = owner \<longrightarrow> bl_token l = token \<and> bl_until l = now + lease) ?upd"
    if "(owner, token) \<in> set held" for owner token
    unfolding list_all_iff using mine [OF that] by blast
  with has kept show ?thesis
    unfolding ls by blast
qed

theorem renew_fenced_vouches_witness:
  "fst (RenewFenced defaultLease [(''job:1'', 7)] 3 one_taken) = None
   \<and> list_all (\<lambda>l. bl_owner l = ''job:1'' \<longrightarrow> bl_token l = 7 \<and> bl_until l = 3 + defaultLease)
       (leases (snd (RenewFenced defaultLease [(''job:1'', 7)] 3 one_taken)))"
proof -
  have none: "fst (RenewFenced defaultLease [(''job:1'', 7)] 3 one_taken) = None"
    by code_simp
  then have "RenewFenced defaultLease [(''job:1'', 7)] 3 one_taken
      = (None, snd (RenewFenced defaultLease [(''job:1'', 7)] 3 one_taken))"
    by (metis prod.collapse)
  from none renew_fenced_vouches [OF this] show ?thesis by simp
qed

end
