(* ===== verification/Job_Tables.thy ===== *)
theory Job_Tables
  imports Job_State Budget_Store
begin

text \<open>
  The tables the job store works on, from \<open>src/internal/jobs/store.go\<close>,
  \<open>ownership.go\<close> and \<open>cancel.go\<close>, with the pure helpers of these files.

  A job row is split into what its order says (\<open>job_order\<close>, never written again) and what the
  operations write. A nullable text is the empty string when it is null, as \<open>nullable\<close> and
  \<open>coalesce\<close> have it; a nullable moment is an option.
\<close>

section \<open>Rows\<close>

record job_order =
  o_host :: string
  o_action :: ActionType
  o_payload :: string
  o_payload_hash :: string
  o_key :: string
  o_requires_approval :: bool
  o_required :: int
  o_preconditions :: string
  o_timeout :: int
  o_max_output :: int
  o_expires_at :: moment
  o_created_by :: string
  o_kind :: string
  o_request :: string
  o_campaign :: string
  o_fanout :: string
  o_class :: string

record job =
  j_id :: string
  j_order :: job_order
  j_state :: State
  j_approved_by :: string
  j_approved_at :: "moment option"
  j_canceled_by :: string
  j_canceled_at :: "moment option"
  j_cancel_reason :: string
  j_cancel_requested_at :: "moment option"
  j_cancel_revision :: int
  j_cancel_ack_at :: "moment option"
  j_cancel_outcome :: string
  j_cancel_phase :: string
  j_wait_reason :: string
  j_result_status :: string
  j_result_error_code :: string
  j_result_message :: string
  j_finished_at :: "moment option"
  j_created_at :: moment
  j_updated_at :: moment

record attempt =
  at_id :: string
  at_job :: string
  at_number :: nat
  at_lease_owner :: string
  at_lease_expires :: "moment option"
  at_gateway :: string
  at_session :: string
  at_status :: string
  at_exit_code :: "int option"
  at_error_code :: string
  at_message :: string
  at_stdout :: string
  at_stderr :: string
  at_truncated :: bool
  at_replayed :: bool
  at_unit_before :: string
  at_unit_after :: string
  at_detail :: string
  at_verification :: string
  at_dispatched_at :: "moment option"
  at_accepted_at :: "moment option"
  at_started_at :: "moment option"
  at_finished_at :: "moment option"

record approval_row =
  ap_job :: string
  ap_approver :: string
  ap_reason :: string
  ap_at :: moment

record owner_row =
  ow_host :: string
  ow_token :: int
  ow_session :: string
  ow_instance :: string
  ow_lease_until :: "moment option"
  ow_connected_at :: moment
  ow_revision :: int

record session_row =
  se_id :: string
  se_host :: string
  se_ended_at :: "moment option"

record cancel_event =
  ev_job :: string
  ev_host :: string
  ev_campaign :: string
  ev_attempt :: string
  ev_revision :: int
  ev_by :: string
  ev_reason :: string
  ev_deadline :: moment

record job_db =
  jobs :: "job list"
  attempts :: "attempt list"
  approvals :: "approval_row list"
  owners :: "owner_row list"
  sessions :: "session_row list"
  budget :: budget_db
  outbox :: "cancel_event list"

datatype job_error =
    ErrNotFound
  | ErrConflict
  | ErrKeyReused
  | ErrSessionStale
  | ErrDispatchLost
  | ErrStaleFence
  | ErrCancelAckStale
  | ErrInvalid string
  | ErrQuery

section \<open>Fences and outcomes\<close>

text \<open>A fence carries a \<open>uint64\<close>; the column is a \<open>bigint\<close>, reached by \<open>int64(token)\<close>.\<close>

record Fence =
  fc_SessionID :: string
  fc_Token :: "64 word"

record Owner =
  O_SessionID :: string
  O_InstanceID :: string
  O_Token :: "64 word"
  O_LeaseUntil :: "moment option"

definition Live :: "Owner \<Rightarrow> moment \<Rightarrow> bool" where
  "Live ow now =
     (O_SessionID ow \<noteq> [] \<and> (case O_LeaseUntil ow of None \<Rightarrow> False | Some u \<Rightarrow> now < u))"

definition DispatchLease :: duration where
  "DispatchLease = 60 * Second"

definition RebootReturnGrace :: duration where
  "RebootReturnGrace = 10 * Minute"

definition ResultStatusUnknown :: string where
  "ResultStatusUnknown = ''unknown_needs_reconciliation''"

definition AttemptStatusLeaseExpired :: string where
  "AttemptStatusLeaseExpired = ''lease_expired''"

definition AttemptStatusSuperseded :: string where
  "AttemptStatusSuperseded = ''superseded_by_result''"

definition AttemptStatusReleased :: string where
  "AttemptStatusReleased = ''released''"

definition CancelAckTimeoutCode :: string where
  "CancelAckTimeoutCode = ''cancel_ack_timeout''"

definition ErrorRebootNotObserved :: string where
  "ErrorRebootNotObserved = ''reboot_not_observed''"

definition CancelOutcomeNotStarted :: string where
  "CancelOutcomeNotStarted = ''not_started''"

definition CancelOutcomeInterrupted :: string where
  "CancelOutcomeInterrupted = ''interrupted''"

definition CancelOutcomeNotInterruptible :: string where
  "CancelOutcomeNotInterruptible = ''not_interruptible''"

definition CancelOutcomeAlreadyDone :: string where
  "CancelOutcomeAlreadyDone = ''already_done''"

definition KnownCancelOutcome :: "string \<Rightarrow> bool" where
  "KnownCancelOutcome outcome =
     (outcome = CancelOutcomeNotStarted \<or> outcome = CancelOutcomeInterrupted
      \<or> outcome = CancelOutcomeNotInterruptible \<or> outcome = CancelOutcomeAlreadyDone)"

definition WaitReasonLockPrefix :: string where
  "WaitReasonLockPrefix = ''awaiting_lock:''"

definition LockWaitReason :: "string \<Rightarrow> string" where
  "LockWaitReason blocker = WaitReasonLockPrefix @ blocker"

definition LockBlocker :: "string \<Rightarrow> string option" where
  "LockBlocker reason =
     (if \<not> HasPrefix reason WaitReasonLockPrefix then None
      else Some (TrimPrefix reason WaitReasonLockPrefix))"

definition AttemptCarriesResult :: "attempt \<Rightarrow> bool" where
  "AttemptCarriesResult a =
     (if at_status a = AttemptStatusSuperseded \<or> at_status a = AttemptStatusLeaseExpired
         \<or> at_status a = AttemptStatusReleased
      then False else at_error_code a \<noteq> AttemptStatusSuperseded)"

text \<open>\<open>(record, supersedes)\<close> by the status the attempt already has.\<close>

definition lateResultDisposition :: "string \<Rightarrow> bool \<times> bool" where
  "lateResultDisposition previousStatus =
     (if previousStatus = AttemptStatusSuperseded then (False, False)
      else if previousStatus = AttemptStatusLeaseExpired then (True, True)
      else (True, False))"

definition clampOutput :: "string \<Rightarrow> string \<Rightarrow> bool \<Rightarrow> int \<Rightarrow> string \<times> string \<times> bool" where
  "clampOutput stdout stderr truncated limit =
     (if limit \<le> 0 \<or> int (length stdout + length stderr) \<le> limit
      then (stdout, stderr, truncated)
      else let out = (if int (length stdout) > limit then take (nat limit) stdout else stdout);
               room = limit - int (length out);
               err = (if int (length stderr) > room then take (nat room) stderr else stderr)
           in (out, err, True))"

definition staleReason :: "string \<Rightarrow> bool" where
  "staleReason reason \<longleftrightarrow> reason \<in> set
     [''precondition_failed'', ''precondition_changed'', ''payload_hash_mismatch'',
      ''plan_hash_mismatch'', ''plan_stale'', ''stale_plan'', ''replan_required'',
      ''plan_expired'']"

record Result =
  r_Status :: string
  r_ExitCode :: int
  r_Stdout :: string
  r_Stderr :: string
  r_OutputTruncated :: bool
  r_ErrorCode :: string
  r_Message :: string
  r_Replayed :: bool
  r_UnitStateBefore :: string
  r_UnitStateAfter :: string
  r_Detail :: string
  r_Verification :: string

section \<open>Reading and writing rows\<close>

definition get_job :: "job_db \<Rightarrow> string \<Rightarrow> job option" where
  "get_job db jobID = sql_get j_id jobID (jobs db)"

definition get_attempt :: "job_db \<Rightarrow> string \<Rightarrow> attempt option" where
  "get_attempt db attemptID = sql_get at_id attemptID (attempts db)"

definition update_jobs :: "(job \<Rightarrow> bool) \<Rightarrow> (job \<Rightarrow> job) \<Rightarrow> job_db \<Rightarrow> job_db" where
  "update_jobs P f db = db\<lparr>jobs := sql_update P f (jobs db)\<rparr>"

definition update_attempts :: "(attempt \<Rightarrow> bool) \<Rightarrow> (attempt \<Rightarrow> attempt) \<Rightarrow> job_db \<Rightarrow> job_db" where
  "update_attempts P f db = db\<lparr>attempts := sql_update P f (attempts db)\<rparr>"

text \<open>An attempt is open until something finishes it.\<close>

definition open_attempt :: "attempt \<Rightarrow> bool" where
  "open_attempt a = (at_finished_at a = None)"

definition releaseBudgets :: "string list \<Rightarrow> job_db \<Rightarrow> job_db" where
  "releaseBudgets jobIDs db =
     db\<lparr>budget := fold (\<lambda>jobID. ReleaseIn (JobOwner jobID)) jobIDs (budget db)\<rparr>"

text \<open>
  The last attempt of a job: the highest number, \<open>order by attempt_number desc limit 1\<close>; the
  numbers of one job differ.
\<close>

definition last_attempt :: "job_db \<Rightarrow> string \<Rightarrow> attempt option" where
  "last_attempt db jobID =
     (let mine = filter (\<lambda>a. at_job a = jobID) (attempts db) in
      if mine = [] then None
      else find (\<lambda>a. at_number a = Max (set (map at_number mine))) mine)"

definition next_number :: "job_db \<Rightarrow> string \<Rightarrow> nat" where
  "next_number db jobID =
     Suc (foldr max (map at_number (filter (\<lambda>a. at_job a = jobID) (attempts db))) 0)"

end
