(* ===== verification/Job_Store.thy ===== *)
theory Job_Store
  imports Job_Tables
begin

text \<open>
  The operations of the job store, from \<open>src/internal/jobs/store.go\<close>. Each is one
  transaction: it answers an error (\<^const>\<open>Inl\<close>) or a value (\<^const>\<open>Inr\<close>) and the
  tables after it; a transaction that fails leaves the tables as they were. \<open>now\<close> is the
  moment of the transaction, \<open>locked\<close> the rows another transaction holds when the query says
  \<open>skip locked\<close>, and the identifiers \<open>uuid.NewString\<close> makes are arguments.
\<close>

section \<open>Creating and approving\<close>

record Spec =
  s_HostID :: string
  s_Action :: ActionType
  s_Payload :: string
  s_IdempotencyKey :: string
  s_RequiresApproval :: bool
  s_RequiredApprovals :: int
  s_TimeoutSeconds :: int
  s_MaxOutputBytes :: int
  s_TTL :: duration
  s_CreatedBy :: string
  s_CreatedByKind :: string
  s_RequestID :: string
  s_CampaignID :: string
  s_FanoutID :: string
  s_Preconditions :: string
  s_Class :: string

definition requiredApprovals :: "registry \<Rightarrow> Spec \<Rightarrow> int" where
  "requiredApprovals reg spec =
     (if s_RequiredApprovals spec > 0 then s_RequiredApprovals spec
      else if Risk reg (s_Action spec) = RiskDestructive then 2
      else 1)"

text \<open>
  \<open>validate\<close>, \<open>planBinding\<close> and \<open>payloadHash\<close> are the checks and the hash of the
  operation registry, over the payload as its JSON text. The row must satisfy the checks of the
  table: one to three approvals, a positive timeout.
\<close>

definition new_order ::
  "registry \<Rightarrow> string \<Rightarrow> string \<Rightarrow> moment \<Rightarrow> Spec \<Rightarrow> job_order" where
  "new_order reg hash key now spec =
     \<lparr>o_host = s_HostID spec, o_action = s_Action spec, o_payload = s_Payload spec,
      o_payload_hash = hash, o_key = key, o_requires_approval = s_RequiresApproval spec,
      o_required = requiredApprovals reg spec, o_preconditions = s_Preconditions spec,
      o_timeout = (if s_TimeoutSeconds spec \<le> 0 then DefaultTimeout reg (s_Action spec)
                   else s_TimeoutSeconds spec),
      o_max_output = (if s_MaxOutputBytes spec \<le> 0 then 65536 else s_MaxOutputBytes spec),
      o_expires_at = now + (if s_TTL spec \<le> 0 then 15 * Minute else s_TTL spec),
      o_created_by = s_CreatedBy spec, o_kind = s_CreatedByKind spec,
      o_request = s_RequestID spec, o_campaign = s_CampaignID spec,
      o_fanout = s_FanoutID spec, o_class = s_Class spec\<rparr>"

definition new_job :: "string \<Rightarrow> job_order \<Rightarrow> moment \<Rightarrow> job" where
  "new_job jobID order now =
     \<lparr>j_id = jobID, j_order = order,
      j_state = (if o_requires_approval order then StateAwaitingApproval else StateQueued),
      j_approved_by = [], j_approved_at = None, j_canceled_by = [], j_canceled_at = None,
      j_cancel_reason = [], j_cancel_requested_at = None, j_cancel_revision = 0,
      j_cancel_ack_at = None, j_cancel_outcome = [], j_cancel_phase = [], j_wait_reason = [],
      j_result_status = [], j_result_error_code = [], j_result_message = [],
      j_finished_at = None, j_created_at = now, j_updated_at = now\<rparr>"

definition Create ::
  "registry \<Rightarrow> (ActionType \<Rightarrow> string \<Rightarrow> string option) \<Rightarrow> (ActionType \<Rightarrow> string \<Rightarrow> string option) \<Rightarrow>
   (ActionType \<Rightarrow> string \<Rightarrow> string option) \<Rightarrow> string \<Rightarrow> string \<Rightarrow> Spec \<Rightarrow> moment \<Rightarrow> job_db \<Rightarrow>
   (job_error + job) \<times> job_db" where
  "Create reg validate planBinding payloadHash jobID newKey spec now db =
     (case validate (s_Action spec) (s_Payload spec) of
        Some e \<Rightarrow> (Inl (ErrInvalid e), db)
      | None \<Rightarrow>
     (case planBinding (s_Action spec) (s_Payload spec) of
        Some e \<Rightarrow> (Inl (ErrInvalid e), db)
      | None \<Rightarrow>
     (case payloadHash (s_Action spec) (s_Payload spec) of
        None \<Rightarrow> (Inl (ErrInvalid []), db)
      | Some hash \<Rightarrow>
          let key = (if s_IdempotencyKey spec = [] then newKey else s_IdempotencyKey spec);
              order = new_order reg hash key now spec
          in if o_required order < 1 \<or> 3 < o_required order \<or> o_timeout order \<le> 0
             then (Inl ErrQuery, db)
             else (case find (\<lambda>j. o_host (j_order j) = s_HostID spec \<and> o_key (j_order j) = key)
                          (jobs db) of
                     Some existing \<Rightarrow>
                       if o_action (j_order existing) \<noteq> s_Action spec
                          \<or> o_payload_hash (j_order existing) \<noteq> hash
                       then (Inl ErrKeyReused, db)
                       else (Inr existing, db)
                   | None \<Rightarrow>
                       if get_job db jobID \<noteq> None then (Inl ErrQuery, db)
                       else (Inr (new_job jobID order now),
                             db\<lparr>jobs := jobs db @ [new_job jobID order now]\<rparr>)))))"

definition recordApproval :: "string \<Rightarrow> string \<Rightarrow> string \<Rightarrow> moment \<Rightarrow> job_db \<Rightarrow> job_db" where
  "recordApproval jobID actor reason now db =
     db\<lparr>approvals := sql_upsert (\<lambda>a. (ap_job a, ap_approver a)) (\<lambda>a. a)
          \<lparr>ap_job = jobID, ap_approver = actor, ap_reason = reason, ap_at = now\<rparr>
          (approvals db)\<rparr>"

definition approvals_of :: "job_db \<Rightarrow> string \<Rightarrow> approval_row list" where
  "approvals_of db jobID = filter (\<lambda>a. ap_job a = jobID) (approvals db)"

definition Approve ::
  "string \<Rightarrow> string \<Rightarrow> string \<Rightarrow> moment \<Rightarrow> job_db \<Rightarrow> (job_error + job option) \<times> job_db" where
  "Approve jobID actor reason now db =
     (case get_job db jobID of
        None \<Rightarrow> (Inl ErrQuery, db)
      | Some task \<Rightarrow>
          let db1 = recordApproval jobID actor reason now db in
          if j_state task = StateAwaitingApproval
             \<and> int (length (approvals_of db1 jobID)) \<ge> o_required (j_order task)
          then let db2 = update_jobs (\<lambda>j. j_id j = jobID)
                           (\<lambda>j. j\<lparr>j_state := StateQueued, j_approved_by := actor,
                                  j_approved_at := Some now, j_updated_at := now\<rparr>) db1
               in (Inr (get_job db2 jobID), db2)
          else if j_state task \<noteq> StateAwaitingApproval then (Inl ErrConflict, db)
          else (Inr (Some task), db1))"

section \<open>Fences\<close>

text \<open>
  The owner row of the host of the job names the session and the token of the fence, and its
  lease has not run out.
\<close>

definition fenceHolds :: "job_db \<Rightarrow> string \<Rightarrow> Fence \<Rightarrow> moment \<Rightarrow> bool" where
  "fenceHolds db jobID fence now =
     (fc_SessionID fence \<noteq> []
      \<and> list_ex (\<lambda>j. j_id j = jobID \<and>
          list_ex (\<lambda>ow. ow_host ow = o_host (j_order j) \<and> ow_session ow = fc_SessionID fence
             \<and> ow_token ow = sint (fc_Token fence)
             \<and> (case ow_lease_until ow of None \<Rightarrow> False | Some u \<Rightarrow> now < u)) (owners db))
          (jobs db))"

section \<open>Canceling\<close>

definition canceled_row :: "string \<Rightarrow> string \<Rightarrow> moment \<Rightarrow> job \<Rightarrow> job" where
  "canceled_row actor reason now j =
     j\<lparr>j_state := StateCanceled, j_canceled_by := actor, j_canceled_at := Some now,
       j_cancel_reason := reason, j_wait_reason := [], j_finished_at := Some now,
       j_updated_at := now\<rparr>"

definition request_row :: "string \<Rightarrow> string \<Rightarrow> moment \<Rightarrow> job \<Rightarrow> job" where
  "request_row actor reason now j =
     j\<lparr>j_state := StateCancelRequested, j_canceled_by := actor, j_cancel_reason := reason,
       j_cancel_requested_at := Some now, j_updated_at := now,
       j_cancel_revision := j_cancel_revision j + 1, j_cancel_ack_at := None,
       j_cancel_outcome := [], j_cancel_phase := []\<rparr>"

definition requestCancel ::
  "string \<Rightarrow> string \<Rightarrow> string \<Rightarrow> moment \<Rightarrow> job_db \<Rightarrow> job_error option \<times> job_db" where
  "requestCancel jobID actor reason now db =
     (case (get_job db jobID, last_attempt db jobID) of
        (Some j, Some a) \<Rightarrow>
          (None,
           (update_jobs (\<lambda>j. j_id j = jobID)
              (request_row actor reason now) db)
           \<lparr>outbox := outbox db @
              [\<lparr>ev_job = jobID, ev_host = o_host (j_order j), ev_campaign = o_campaign (j_order j),
                ev_attempt = at_id a, ev_revision = j_cancel_revision j + 1, ev_by = actor,
                ev_reason = reason,
                ev_deadline = now + o_timeout (j_order j) * Second\<rparr>]\<rparr>)
      | _ \<Rightarrow> (Some ErrConflict, db))"

definition Cancel ::
  "string \<Rightarrow> string \<Rightarrow> string \<Rightarrow> moment \<Rightarrow> job_db \<Rightarrow> (job_error + job option) \<times> job_db" where
  "Cancel jobID actor reason now db =
     (case get_job db jobID of
        None \<Rightarrow> (Inl ErrNotFound, db)
      | Some task \<Rightarrow>
          if j_state task \<in> set [StatePlanned, StateAwaitingApproval, StateQueued, StateLeased]
          then let db1 = releaseBudgets [jobID]
                           (update_jobs (\<lambda>j. j_id j = jobID) (canceled_row actor reason now) db)
               in (Inr (get_job db1 jobID), db1)
          else if j_state task \<in> set [StateDispatched, StateRunning]
          then (case requestCancel jobID actor reason now db of
                  (None, db1) \<Rightarrow> (Inr (get_job db1 jobID), db1)
                | (Some e, _) \<Rightarrow> (Inl e, db))
          else (Inl ErrConflict, db))"

definition CancelUndelivered ::
  "string \<Rightarrow> string \<Rightarrow> string \<Rightarrow> moment \<Rightarrow> job_db \<Rightarrow> nat \<times> job_db" where
  "CancelUndelivered hostID actor reason now db =
     (let hit = (\<lambda>j. o_host (j_order j) = hostID \<and>
            j_state j \<in> set [StatePlanned, StateAwaitingApproval, StateQueued, StateLeased]);
          canceled = map j_id (filter hit (jobs db))
      in (length canceled,
          releaseBudgets canceled (update_jobs hit (canceled_row actor reason now) db)))"

definition CancelQueuedOf ::
  "string \<Rightarrow> string \<Rightarrow> string \<Rightarrow> string list \<Rightarrow> moment \<Rightarrow> job_db \<Rightarrow> string list \<times> job_db" where
  "CancelQueuedOf campaignID actor reason keep now db =
     (let hit = (\<lambda>j. campaignID \<noteq> [] \<and> o_campaign (j_order j) = campaignID \<and>
            j_state j \<in> set [StatePlanned, StateAwaitingApproval, StateQueued]
            \<and> j_id j \<notin> set keep);
          canceled = map j_id (filter hit (jobs db))
      in (canceled, releaseBudgets canceled (update_jobs hit (canceled_row actor reason now) db)))"

fun requestCancel_all ::
  "string list \<Rightarrow> string \<Rightarrow> string \<Rightarrow> moment \<Rightarrow> job_db \<Rightarrow> job_error option \<times> job_db" where
  "requestCancel_all [] actor reason now db = (None, db)"
| "requestCancel_all (jobID # rest) actor reason now db =
     (case requestCancel jobID actor reason now db of
        (Some e, db1) \<Rightarrow> (Some e, db1)
      | (None, db1) \<Rightarrow> requestCancel_all rest actor reason now db1)"

definition RequestCancelOf ::
  "string \<Rightarrow> string \<Rightarrow> string \<Rightarrow> string list \<Rightarrow> moment \<Rightarrow> job_db \<Rightarrow>
   (job_error + string list) \<times> job_db" where
  "RequestCancelOf campaignID actor reason keep now db =
     (let held = map j_id (sort_key j_created_at
            (filter (\<lambda>j. campaignID \<noteq> [] \<and> o_campaign (j_order j) = campaignID
               \<and> j_state j \<in> set [StateDispatched, StateRunning] \<and> j_id j \<notin> set keep) (jobs db)))
      in case requestCancel_all held actor reason now db of
           (Some e, _) \<Rightarrow> (Inl e, db)
         | (None, db1) \<Rightarrow> (Inr held, db1))"

section \<open>Taking and handing over\<close>

definition queued_ready :: "moment \<Rightarrow> job \<Rightarrow> bool" where
  "queued_ready now j = (j_state j = StateQueued \<and> now < o_expires_at (j_order j))"

definition Queued :: "string list \<Rightarrow> nat \<Rightarrow> moment \<Rightarrow> job_db \<Rightarrow> job list" where
  "Queued hostIDs limit now db =
     (if hostIDs = [] \<or> limit = 0 then []
      else take limit (sort_key j_created_at
             (filter (\<lambda>j. queued_ready now j \<and> o_host (j_order j) \<in> set hostIDs) (jobs db))))"

definition new_attempt :: "string \<Rightarrow> string \<Rightarrow> nat \<Rightarrow> string \<Rightarrow> moment \<Rightarrow> attempt" where
  "new_attempt attemptID jobID number gatewayID expires =
     \<lparr>at_id = attemptID, at_job = jobID, at_number = number, at_lease_owner = gatewayID,
      at_lease_expires = Some expires, at_gateway = gatewayID, at_session = [], at_status = [],
      at_exit_code = None, at_error_code = [], at_message = [], at_stdout = [], at_stderr = [],
      at_truncated = False, at_replayed = False, at_unit_before = [], at_unit_after = [],
      at_detail = [], at_verification = [], at_dispatched_at = None, at_accepted_at = None,
      at_started_at = None, at_finished_at = None\<rparr>"

definition lease_one ::
  "string \<Rightarrow> (string \<Rightarrow> string) \<Rightarrow> duration \<Rightarrow> moment \<Rightarrow> string \<Rightarrow> job_db \<Rightarrow> job_db" where
  "lease_one gatewayID newID leaseDuration now jobID db =
     (let db1 = update_jobs (\<lambda>j. j_id j = jobID)
            (\<lambda>j. j\<lparr>j_state := StateLeased, j_wait_reason := [], j_updated_at := now\<rparr>) db
      in db1\<lparr>attempts := attempts db1 @
           [new_attempt (newID jobID) jobID (next_number db1 jobID) gatewayID (now + leaseDuration)]\<rparr>)"

definition LeaseJobs ::
  "string \<Rightarrow> string list \<Rightarrow> string list \<Rightarrow> (string \<Rightarrow> string) \<Rightarrow> duration \<Rightarrow> moment \<Rightarrow> job_db \<Rightarrow>
   (job_error + string list) \<times> job_db" where
  "LeaseJobs gatewayID jobIDs locked newID leaseDuration now db =
     (let taken = map j_id (sort_key j_created_at
            (filter (\<lambda>j. queued_ready now j \<and> j_id j \<in> set jobIDs \<and> j_id j \<notin> set locked) (jobs db)))
      in if \<not> distinct (map newID taken @ map at_id (attempts db)) then (Inl ErrQuery, db)
         else (Inr taken, fold (lease_one gatewayID newID leaseDuration now) taken db))"

definition SetWaitReason :: "string \<Rightarrow> string \<Rightarrow> moment \<Rightarrow> job_db \<Rightarrow> job_db" where
  "SetWaitReason jobID reason now db =
     update_jobs (\<lambda>j. j_id j = jobID \<and> j_state j = StateQueued \<and> j_wait_reason j \<noteq> reason)
       (\<lambda>j. j\<lparr>j_wait_reason := reason, j_updated_at := now\<rparr>) db"

definition InFlight :: "job_db \<Rightarrow> string list" where
  "InFlight db = map j_id (filter (\<lambda>j. HoldsLease (j_state j) \<and> o_campaign (j_order j) = []
     \<and> o_fanout (j_order j) = []) (jobs db))"

text \<open>
  \<open>least\<close> of PostgreSQL passes over a null: an attempt without a lease gets the one offered.
\<close>

definition sql_least :: "moment option \<Rightarrow> moment \<Rightarrow> moment option" where
  "sql_least a b = (case a of None \<Rightarrow> Some b | Some x \<Rightarrow> Some (min x b))"

definition sql_greatest :: "moment option \<Rightarrow> moment \<Rightarrow> moment option" where
  "sql_greatest a b = (case a of None \<Rightarrow> Some b | Some x \<Rightarrow> Some (max x b))"

definition sql_coalesce :: "moment option \<Rightarrow> moment \<Rightarrow> moment option" where
  "sql_coalesce a b = (case a of None \<Rightarrow> Some b | Some x \<Rightarrow> Some x)"

definition open_session :: "job_db \<Rightarrow> string \<Rightarrow> string \<Rightarrow> bool" where
  "open_session db jobID sessionID =
     (sessionID \<noteq> []
      \<and> list_ex (\<lambda>s. se_id s = sessionID \<and> se_ended_at s = None
          \<and> list_ex (\<lambda>j. j_id j = jobID \<and> o_host (j_order j) = se_host s) (jobs db)) (sessions db))"

text \<open>
  \<open>dispatchAfterSettlement\<close>: \<^const>\<open>None\<close> when the job moved forward, otherwise the error,
  with the doubt written on the settled job. The row was found by the session check, so the
  read of its state has a row.
\<close>

definition dispatchAfterSettlement ::
  "string \<Rightarrow> moment \<Rightarrow> job_db \<Rightarrow> job_error option \<times> job_db" where
  "dispatchAfterSettlement jobID now db =
     (case get_job db jobID of
        None \<Rightarrow> (Some ErrQuery, db)
      | Some j \<Rightarrow>
          if j_state j \<in> set [StateDispatched, StateRunning, StateCancelRequested] then (None, db)
          else (Some ErrDispatchLost,
                update_jobs (\<lambda>j. j_id j = jobID \<and> j_result_status j \<noteq> ResultStatusUnknown)
                  (\<lambda>j. j\<lparr>j_result_status := ResultStatusUnknown,
                         j_result_message := ''the task had already left the panel when this job was settled; the host may have carried it out - read the host before ordering again'',
                         j_updated_at := now\<rparr>) db))"

definition sent_attempt :: "Fence \<Rightarrow> duration \<Rightarrow> moment \<Rightarrow> attempt \<Rightarrow> attempt" where
  "sent_attempt fence lease now a =
     a\<lparr>at_dispatched_at := Some now, at_session := fc_SessionID fence,
       at_lease_expires :=
         (if at_accepted_at a = None then sql_least (at_lease_expires a) (now + lease)
          else at_lease_expires a)\<rparr>"

definition MarkDispatchedWithLease ::
  "string \<Rightarrow> string \<Rightarrow> Fence \<Rightarrow> duration \<Rightarrow> moment \<Rightarrow> job_db \<Rightarrow> job_error option \<times> job_db" where
  "MarkDispatchedWithLease jobID attemptID fence lease now db =
     (if \<not> open_session db jobID (fc_SessionID fence) then (Some ErrSessionStale, db)
      else if \<not> fenceHolds db jobID fence now then (Some ErrStaleFence, db)
      else let moved = list_ex (\<lambda>j. j_id j = jobID \<and> j_state j = StateLeased) (jobs db);
               db1 = update_jobs (\<lambda>j. j_id j = jobID \<and> j_state j = StateLeased)
                       (\<lambda>j. j\<lparr>j_state := StateDispatched, j_updated_at := now\<rparr>) db;
               after = (if moved then (None, db1) else dispatchAfterSettlement jobID now db1)
           in case after of
                (Some ErrDispatchLost, db2) \<Rightarrow> (Some ErrDispatchLost, db2)
              | (Some e, _) \<Rightarrow> (Some e, db)
              | (None, db2) \<Rightarrow>
                  (None, update_attempts (\<lambda>a. at_id a = attemptID)
                     (sent_attempt fence lease now) db2))"

definition MarkDispatched ::
  "string \<Rightarrow> string \<Rightarrow> Fence \<Rightarrow> moment \<Rightarrow> job_db \<Rightarrow> job_error option \<times> job_db" where
  "MarkDispatched jobID attemptID fence now db =
     MarkDispatchedWithLease jobID attemptID fence DispatchLease now db"

definition RecordHandover ::
  "string \<Rightarrow> string \<Rightarrow> string \<Rightarrow> moment \<Rightarrow> job_db \<Rightarrow> job_db" where
  "RecordHandover jobID attemptID sessionID now db =
     update_jobs (\<lambda>j. j_id j = jobID \<and> j_state j = StateLeased)
       (\<lambda>j. j\<lparr>j_state := StateDispatched, j_updated_at := now\<rparr>)
       (update_attempts (\<lambda>a. at_id a = attemptID \<and> open_attempt a)
          (\<lambda>a. a\<lparr>at_dispatched_at := sql_coalesce (at_dispatched_at a) now,
                 at_session := (if at_session a = [] then sessionID else at_session a)\<rparr>) db)"

text \<open>The attempt, when the host carries its job in one of the given states.\<close>

definition carried_by :: "job_db \<Rightarrow> string \<Rightarrow> State list \<Rightarrow> attempt \<Rightarrow> bool" where
  "carried_by db hostID states a =
     list_ex (\<lambda>j. j_id j = at_job a \<and> o_host (j_order j) = hostID \<and> j_state j \<in> set states) (jobs db)"

definition AcceptAttempt ::
  "string \<Rightarrow> string \<Rightarrow> duration \<Rightarrow> moment \<Rightarrow> job_db \<Rightarrow> bool \<times> job_db" where
  "AcceptAttempt attemptID hostID executionLease now db =
     (let hit = (\<lambda>a. at_id a = attemptID
            \<and> carried_by db hostID [StateLeased, StateDispatched, StateRunning] a
            \<and> open_attempt a \<and> at_lease_expires a \<noteq> None)
      in (list_ex hit (attempts db),
          update_attempts hit
            (\<lambda>a. a\<lparr>at_accepted_at := sql_coalesce (at_accepted_at a) now,
                   at_lease_expires := sql_greatest (at_lease_expires a) (now + executionLease)\<rparr>)
            db))"

definition SetLockWait ::
  "string \<Rightarrow> string \<Rightarrow> string \<Rightarrow> moment \<Rightarrow> job_db \<Rightarrow> job_db" where
  "SetLockWait attemptID hostID blocker now db =
     (let reason = LockWaitReason blocker in
      update_jobs (\<lambda>j. o_host (j_order j) = hostID \<and> j_state j \<in> set [StateLeased, StateDispatched]
          \<and> j_wait_reason j \<noteq> reason
          \<and> list_ex (\<lambda>a. at_id a = attemptID \<and> at_job a = j_id j \<and> open_attempt a) (attempts db))
        (\<lambda>j. j\<lparr>j_wait_reason := reason, j_updated_at := now\<rparr>) db)"

definition MarkRunning :: "string \<Rightarrow> string \<Rightarrow> moment \<Rightarrow> job_db \<Rightarrow> (job_error + bool) \<times> job_db" where
  "MarkRunning attemptID hostID now db =
     (case find (\<lambda>a. at_id a = attemptID \<and> open_attempt a
             \<and> carried_by db hostID [StateLeased, StateDispatched] a) (attempts db) of
        None \<Rightarrow> (Inr False, db)
      | Some a \<Rightarrow>
          if Validate StateDispatched StateRunning \<noteq> None then (Inl ErrConflict, db)
          else (Inr True,
                update_attempts (\<lambda>a. at_id a = attemptID)
                  (\<lambda>a. a\<lparr>at_started_at := sql_coalesce (at_started_at a) now\<rparr>)
                  (update_jobs (\<lambda>j. j_id j = at_job a)
                     (\<lambda>j. j\<lparr>j_state := StateRunning, j_wait_reason := [], j_updated_at := now\<rparr>) db)))"

definition close_attempt ::
  "string \<Rightarrow> string \<Rightarrow> string \<Rightarrow> moment \<Rightarrow> attempt \<Rightarrow> attempt" where
  "close_attempt status errCode message now a =
     a\<lparr>at_finished_at := Some now, at_status := status, at_error_code := errCode,
       at_message := message, at_lease_expires := None\<rparr>"

definition failed_row :: "string \<Rightarrow> string \<Rightarrow> string \<Rightarrow> moment \<Rightarrow> job \<Rightarrow> job" where
  "failed_row status errCode message now j =
     j\<lparr>j_state := StateFailed, j_result_status := status, j_result_error_code := errCode,
       j_result_message := message, j_wait_reason := [], j_finished_at := Some now,
       j_updated_at := now\<rparr>"

definition FailUndelivered ::
  "string \<Rightarrow> string \<Rightarrow> string \<Rightarrow> string \<Rightarrow> moment \<Rightarrow> job_db \<Rightarrow> job_db" where
  "FailUndelivered jobID attemptID errCode message now db =
     (let hit = (\<lambda>j. j_id j = jobID \<and> j_state j \<in> set [StateLeased, StateDispatched]) in
      if \<not> list_ex hit (jobs db) then db
      else releaseBudgets [jobID]
             (update_attempts (\<lambda>a. at_id a = attemptID)
                (close_attempt ''failed'' errCode message now)
                (update_jobs hit
                   (failed_row ''failed'' errCode message now) db)))"

definition released_attempt :: "string \<Rightarrow> moment \<Rightarrow> attempt \<Rightarrow> attempt" where
  "released_attempt reason now a =
     a\<lparr>at_finished_at := Some now, at_status := AttemptStatusReleased, at_message := reason,
       at_lease_expires := None\<rparr>"

definition ReleaseLease ::
  "string \<Rightarrow> string \<Rightarrow> string \<Rightarrow> moment \<Rightarrow> job_db \<Rightarrow> job_db" where
  "ReleaseLease jobID attemptID reason now db =
     (let hit = (\<lambda>j. j_id j = jobID \<and> j_state j \<in> set [StateLeased, StateDispatched]) in
      if \<not> list_ex hit (jobs db) then db
      else releaseBudgets [jobID]
             (update_attempts (\<lambda>a. at_id a = attemptID)
                (released_attempt reason now)
                (update_jobs hit (\<lambda>j. j\<lparr>j_state := StateQueued, j_updated_at := now\<rparr>) db)))"

definition RenewAttemptLease ::
  "string \<Rightarrow> string \<Rightarrow> duration \<Rightarrow> moment \<Rightarrow> job_db \<Rightarrow> bool \<times> job_db" where
  "RenewAttemptLease attemptID hostID extension now db =
     (let hit = (\<lambda>a. at_id a = attemptID \<and> carried_by db hostID leaseHoldingStates a
            \<and> open_attempt a \<and> at_lease_expires a \<noteq> None)
      in (list_ex hit (attempts db),
          update_attempts hit
            (\<lambda>a. a\<lparr>at_lease_expires := sql_greatest (at_lease_expires a) (now + extension)\<rparr>) db))"

section \<open>Results\<close>

text \<open>
  \<open>trail\<close> is the outcome of the audit entry written inside the transaction: an error rolls
  the settlement back. The answer says whether the result was accepted.
\<close>

definition settled_attempt :: "Result \<Rightarrow> int \<Rightarrow> moment \<Rightarrow> attempt \<Rightarrow> attempt" where
  "settled_attempt result maxOutput now a =
     (let (out, err, trunc) = clampOutput (r_Stdout result) (r_Stderr result)
            (r_OutputTruncated result) maxOutput
      in a\<lparr>at_status := r_Status result, at_exit_code := Some (r_ExitCode result),
           at_error_code := r_ErrorCode result, at_message := r_Message result,
           at_stdout := out, at_stderr := err, at_truncated := trunc,
           at_replayed := r_Replayed result, at_unit_before := r_UnitStateBefore result,
           at_unit_after := r_UnitStateAfter result, at_detail := r_Detail result,
           at_verification := r_Verification result,
           at_finished_at := Some now, at_lease_expires := None\<rparr>)"

definition late_attempt :: "Result \<Rightarrow> moment \<Rightarrow> attempt \<Rightarrow> attempt" where
  "late_attempt result now a =
     a\<lparr>at_status := r_Status result, at_exit_code := Some (r_ExitCode result),
       at_error_code := r_ErrorCode result, at_replayed := r_Replayed result,
       at_message := ''the result arrived after the job was settled'',
       at_finished_at := Some now, at_lease_expires := None\<rparr>"

definition superseded_attempt :: "moment \<Rightarrow> attempt \<Rightarrow> attempt" where
  "superseded_attempt now a =
     a\<lparr>at_finished_at := Some now, at_status := AttemptStatusSuperseded, at_lease_expires := None,
       at_message := ''the result arrived on the earlier attempt after its lease had expired''\<rparr>"

definition result_row :: "Result \<Rightarrow> State \<Rightarrow> moment \<Rightarrow> job \<Rightarrow> job" where
  "result_row result jobState now j =
     j\<lparr>j_state := jobState, j_result_status := r_Status result,
       j_result_error_code := r_ErrorCode result, j_result_message := r_Message result,
       j_wait_reason := [], j_finished_at := Some now, j_updated_at := now\<rparr>"

definition RecordResult ::
  "string \<Rightarrow> string \<Rightarrow> Result \<Rightarrow> State \<Rightarrow> Fence \<Rightarrow> job_error option \<Rightarrow> moment \<Rightarrow> job_db \<Rightarrow>
   (job_error + bool) \<times> job_db" where
  "RecordResult jobID attemptID result jobState fence trail now db =
     (case get_job db jobID of
        None \<Rightarrow> (Inl ErrNotFound, db)
      | Some j \<Rightarrow>
     (case get_attempt db attemptID of
        None \<Rightarrow> (Inl ErrNotFound, db)
      | Some a \<Rightarrow>
     (let previousStatus = at_status a;
          (record, supersedes) = lateResultDisposition previousStatus
      in if \<not> record then (Inr False, db)
         else let fate = fateOfResult (j_state j) jobState supersedes in
           if fate \<noteq> fateSettles
           then (Inr False,
                 if previousStatus = [] \<and> closesTheAttempt fate
                 then update_attempts (\<lambda>a. at_id a = attemptID \<and> open_attempt a)
                        (late_attempt result now) db
                 else db)
           else if \<not> fenceHolds db jobID fence now then (Inl ErrStaleFence, db)
           else let db1 = update_attempts (\<lambda>a. at_id a = attemptID)
                            (settled_attempt result (o_max_output (j_order j)) now) db;
                    db2 = (if supersedes
                           then update_attempts
                                  (\<lambda>a. at_job a = jobID \<and> at_id a \<noteq> attemptID \<and> open_attempt a)
                                  (superseded_attempt now) db1
                           else db1);
                    db3 = update_jobs (\<lambda>j. j_id j = jobID)
                            (result_row result jobState now) db2;
                    db4 = (if Terminal jobState then releaseBudgets [jobID] db3 else db3)
                in case trail of Some e \<Rightarrow> (Inl e, db) | None \<Rightarrow> (Inr True, db4))))"

section \<open>Sweeps\<close>

text \<open>
  The reclaim query: every sub-query reads the tables as they were at its start. \<open>locked\<close> holds
  the attempts and \<open>lockedJobs\<close> the jobs another transaction has.
\<close>

definition lease_ran_out :: "job_db \<Rightarrow> moment \<Rightarrow> attempt \<Rightarrow> bool" where
  "lease_ran_out db now a =
     (open_attempt a
      \<and> list_ex (\<lambda>j. j_id j = at_job a \<and> HoldsLease (j_state j)
          \<and> (case at_lease_expires a of None \<Rightarrow> False
             | Some u \<Rightarrow> u < (if o_action (j_order j) = ActionSystemReboot
                             then now - RebootReturnGrace else now))) (jobs db))"

definition stranded :: "job_db \<Rightarrow> job \<Rightarrow> bool" where
  "stranded db j =
     (HoldsLease (j_state j)
      \<and> \<not> list_ex (\<lambda>a. at_job a = j_id j \<and> open_attempt a) (attempts db))"

definition reclaimed_row :: "moment \<Rightarrow> job \<Rightarrow> job" where
  "reclaimed_row now j =
     (if o_action (j_order j) = ActionSystemReboot
      then failed_row ''failed'' ErrorRebootNotObserved
             ''the host did not come back with a new boot identifier within the wait'' now j
      else if j_state j = StateCancelRequested
      then failed_row ResultStatusUnknown AttemptStatusLeaseExpired
             ''the host went silent after it was asked to stop; whether the change was made on it is unknown - read the host before ordering again'' now j
      else j\<lparr>j_state := StateQueued, j_wait_reason := [], j_updated_at := now\<rparr>)"

definition expired_attempt :: "moment \<Rightarrow> attempt \<Rightarrow> attempt" where
  "expired_attempt now a =
     a\<lparr>at_finished_at := Some now, at_status := AttemptStatusLeaseExpired, at_lease_expires := None\<rparr>"

definition ReclaimExpiredLeases ::
  "string list \<Rightarrow> string list \<Rightarrow> moment \<Rightarrow> job_db \<Rightarrow> nat \<times> job_db" where
  "ReclaimExpiredLeases locked lockedJobs now db =
     (let expired = (\<lambda>a. lease_ran_out db now a \<and> at_id a \<notin> set locked);
          reclaimed = (\<lambda>j. list_ex (\<lambda>a. expired a \<and> at_job a = j_id j) (attempts db)
             \<or> stranded db j \<and> j_id j \<notin> set lockedJobs);
          ids = map j_id (filter reclaimed (jobs db))
      in (length ids,
          releaseBudgets ids
            (update_jobs reclaimed (reclaimed_row now)
               (update_attempts expired (expired_attempt now) db))))"

definition ExpireOverdue :: "moment \<Rightarrow> job_db \<Rightarrow> nat \<times> job_db" where
  "ExpireOverdue now db =
     (let hit = (\<lambda>j. j_state j \<in> set [StatePlanned, StateAwaitingApproval, StateQueued]
            \<and> o_expires_at (j_order j) \<le> now);
          expired = map j_id (filter hit (jobs db))
      in (length expired,
          releaseBudgets expired
            (update_jobs hit
               (\<lambda>j. j\<lparr>j_state := StateExpired, j_result_status := ''expired'', j_wait_reason := [],
                      j_finished_at := Some now, j_updated_at := now\<rparr>) db)))"

section \<open>The answer to a cancel request\<close>

record CancelSettlement =
  cs_JobID :: string
  cs_CampaignID :: string
  cs_Previous :: State
  cs_State :: State

definition acknowledged :: "string \<Rightarrow> string \<Rightarrow> moment \<Rightarrow> job \<Rightarrow> job" where
  "acknowledged outcome phase now j =
     j\<lparr>j_cancel_ack_at := sql_coalesce (j_cancel_ack_at j) now,
       j_cancel_outcome := (if j_cancel_outcome j = [] then outcome else j_cancel_outcome j),
       j_cancel_phase := (if j_cancel_phase j = [] then phase else j_cancel_phase j),
       j_updated_at := now\<rparr>"

definition cancel_settled :: "string \<Rightarrow> string \<Rightarrow> moment \<Rightarrow> job \<Rightarrow> job" where
  "cancel_settled outcome phase now j =
     j\<lparr>j_state := StateCanceled, j_result_status := ''canceled'',
       j_result_message := ''the host acknowledged the cancel: '' @ outcome
         @ (if phase \<noteq> [] then '' while '' @ phase else []),
       j_canceled_at := sql_coalesce (j_canceled_at j) now,
       j_wait_reason := [], j_finished_at := Some now, j_updated_at := now\<rparr>"

definition RecordCancelAck ::
  "string \<Rightarrow> 64 word \<Rightarrow> string \<Rightarrow> string \<Rightarrow> Fence \<Rightarrow> moment \<Rightarrow> job_db \<Rightarrow>
   (job_error + CancelSettlement) \<times> job_db" where
  "RecordCancelAck jobID revision outcome phase fence now db =
     (if \<not> KnownCancelOutcome outcome then (Inl ErrConflict, db)
      else if \<not> fenceHolds db jobID fence now then (Inl ErrStaleFence, db)
      else case find (\<lambda>j. j_id j = jobID \<and> j_cancel_revision j = sint revision) (jobs db) of
        None \<Rightarrow> (Inl (if get_job db jobID = None then ErrNotFound else ErrCancelAckStale), db)
      | Some j \<Rightarrow>
          let db1 = update_jobs (\<lambda>j. j_id j = jobID \<and> j_cancel_revision j = sint revision)
                      (acknowledged outcome phase now) db;
              answer = (\<lambda>st. \<lparr>cs_JobID = jobID, cs_CampaignID = o_campaign (j_order j),
                              cs_Previous = j_state j, cs_State = st\<rparr>)
          in if j_state j \<noteq> StateCancelRequested then (Inr (answer (j_state j)), db1)
             else if outcome = CancelOutcomeNotStarted \<or> outcome = CancelOutcomeInterrupted
             then (if Validate StateCancelRequested StateCanceled \<noteq> None then (Inl ErrConflict, db)
                   else (Inr (answer StateCanceled),
                         releaseBudgets [jobID]
                           (update_jobs (\<lambda>j. j_id j = jobID) (cancel_settled outcome phase now) db1)))
             else if outcome = CancelOutcomeNotInterruptible
             then (if Validate StateCancelRequested StateRunning \<noteq> None then (Inl ErrConflict, db)
                   else (Inr (answer StateRunning),
                         update_jobs (\<lambda>j. j_id j = jobID)
                           (\<lambda>j. j\<lparr>j_state := StateRunning, j_updated_at := now\<rparr>) db1))
             else (Inr (answer (j_state j)), db1))"

definition PendingCancels :: "string list \<Rightarrow> job_db \<Rightarrow> (string \<times> string \<times> int \<times> moment option) list" where
  "PendingCancels hostIDs db =
     map (\<lambda>j. (j_id j, (case last_attempt db (j_id j) of None \<Rightarrow> [] | Some a \<Rightarrow> at_id a),
               max 0 (j_cancel_revision j), j_cancel_requested_at j))
       (sort_key (\<lambda>j. case j_cancel_requested_at j of None \<Rightarrow> 0 | Some t \<Rightarrow> t)
          (filter (\<lambda>j. j_state j = StateCancelRequested \<and> j_cancel_ack_at j = None
             \<and> o_host (j_order j) \<in> set hostIDs) (jobs db)))"

definition OutstandingCancelRevision :: "string \<Rightarrow> job_db \<Rightarrow> 64 word" where
  "OutstandingCancelRevision jobID db =
     (case get_job db jobID of None \<Rightarrow> 0
      | Some j \<Rightarrow> if j_cancel_revision j < 0 then 0 else word_of_int (j_cancel_revision j))"

definition SettleCancelTimeouts ::
  "string list \<Rightarrow> moment \<Rightarrow> job_db \<Rightarrow> string list \<times> job_db" where
  "SettleCancelTimeouts locked now db =
     (let message = ''the host did not acknowledge the cancel within the operation's timeout; the outcome on the host is unknown - read the host before ordering again'';
          overdue = (\<lambda>j. j_state j = StateCancelRequested \<and> j_id j \<notin> set locked
             \<and> (case j_cancel_requested_at j of None \<Rightarrow> False
                | Some t \<Rightarrow> t + o_timeout (j_order j) * Second < now));
          ids = map j_id (filter overdue (jobs db))
      in (ids,
          releaseBudgets ids
            (update_jobs overdue
               (failed_row ResultStatusUnknown CancelAckTimeoutCode message now)
               (update_attempts (\<lambda>a. at_job a \<in> set ids \<and> open_attempt a)
                  (close_attempt ''failed'' CancelAckTimeoutCode message now) db))))"

section \<open>Ownership of a host\<close>

text \<open>
  A claim is answered with the new token as a \<open>uint64\<close>; a token past the range of a
  \<open>bigint\<close> is an error of the database.
\<close>

definition ClaimSession ::
  "string \<Rightarrow> string \<Rightarrow> string \<Rightarrow> duration \<Rightarrow> moment \<Rightarrow> job_db \<Rightarrow> (job_error + 64 word) \<times> job_db" where
  "ClaimSession hostID sessionID instanceID ttl now db =
     (if hostID = [] \<or> sessionID = [] \<or> instanceID = [] then (Inl (ErrInvalid []), db)
      else let token = (case sql_get ow_host hostID (owners db) of None \<Rightarrow> 1
                        | Some ow \<Rightarrow> ow_token ow + 1)
           in if 2 ^ 63 \<le> token then (Inl ErrQuery, db)
              else (Inr (word_of_int token),
                    db\<lparr>owners := sql_upsert ow_host
                      (\<lambda>ow. ow\<lparr>ow_token := ow_token ow + 1, ow_session := sessionID,
                              ow_instance := instanceID, ow_lease_until := Some (now + ttl),
                              ow_connected_at := now, ow_revision := ow_revision ow + 1\<rparr>)
                      \<lparr>ow_host = hostID, ow_token = 1, ow_session = sessionID,
                       ow_instance = instanceID, ow_lease_until = Some (now + ttl),
                       ow_connected_at = now, ow_revision = 1\<rparr> (owners db)\<rparr>))"

definition RenewOwnership ::
  "string \<Rightarrow> string \<Rightarrow> string \<Rightarrow> 64 word \<Rightarrow> duration \<Rightarrow> moment \<Rightarrow> job_db \<Rightarrow>
   job_error option \<times> job_db" where
  "RenewOwnership hostID sessionID instanceID token ttl now db =
     (let hit = (\<lambda>ow. ow_host ow = hostID \<and> sessionID \<noteq> [] \<and> ow_session ow = sessionID
            \<and> ow_instance ow = instanceID \<and> ow_token ow = sint token)
      in if \<not> list_ex hit (owners db) then (Some ErrStaleFence, db)
         else (None, db\<lparr>owners := sql_update hit (\<lambda>ow. ow\<lparr>ow_lease_until := Some (now + ttl)\<rparr>)
                         (owners db)\<rparr>))"

definition ownerless :: "owner_row \<Rightarrow> owner_row" where
  "ownerless ow = ow\<lparr>ow_session := [], ow_instance := [], ow_lease_until := None\<rparr>"

definition ReleaseOwnership ::
  "string \<Rightarrow> string \<Rightarrow> 64 word \<Rightarrow> job_db \<Rightarrow> job_error option \<times> job_db" where
  "ReleaseOwnership hostID sessionID token db =
     (let hit = (\<lambda>ow. ow_host ow = hostID \<and> sessionID \<noteq> [] \<and> ow_session ow = sessionID
            \<and> ow_token ow = sint token)
      in if \<not> list_ex hit (owners db) then (Some ErrStaleFence, db)
         else (None, db\<lparr>owners := sql_update hit ownerless (owners db)\<rparr>))"

definition OwnerOf :: "string \<Rightarrow> job_db \<Rightarrow> Owner" where
  "OwnerOf hostID db =
     (case sql_get ow_host hostID (owners db) of
        None \<Rightarrow> \<lparr>O_SessionID = [], O_InstanceID = [], O_Token = 0, O_LeaseUntil = None\<rparr>
      | Some ow \<Rightarrow> \<lparr>O_SessionID = ow_session ow, O_InstanceID = ow_instance ow,
                   O_Token = word_of_int (ow_token ow), O_LeaseUntil = ow_lease_until ow\<rparr>)"

definition SweepExpiredOwners :: "moment \<Rightarrow> job_db \<Rightarrow> job_db" where
  "SweepExpiredOwners now db =
     db\<lparr>owners := sql_update
          (\<lambda>ow. ow_session ow \<noteq> [] \<and> (case ow_lease_until ow of None \<Rightarrow> False | Some u \<Rightarrow> u < now))
          ownerless (owners db)\<rparr>"

end
