(* ===== verification/Job_Safety.thy ===== *)
theory Job_Safety
  imports Job_Store
begin

text \<open>
  What every run of the job store keeps. \<open>job_step\<close> has a rule for each operation that writes;
  the properties are proved for one step and lifted to every run:

  \<^item> a job moves along the table of transitions, and a final state is final;
  \<^item> a job that needs approvals runs only with enough of them, by different people;
  \<^item> a job between the lease and its end is carried by exactly one open attempt;
  \<^item> the capacity a job held goes back the moment it stops holding a lease;
  \<^item> a session that lost its host can settle nothing on it.

  Most operations leave the attempts and the approvals alone and only move jobs in the ways
  \<open>quiet\<close> allows; they are covered by one relation, \<open>quiet_step\<close>.
\<close>

section \<open>Reading the tables after a write\<close>

lemma update_jobs_simps [simp]:
  "jobs (update_jobs P f db) = sql_update P f (jobs db)"
  "attempts (update_jobs P f db) = attempts db"
  "approvals (update_jobs P f db) = approvals db"
  "owners (update_jobs P f db) = owners db"
  "sessions (update_jobs P f db) = sessions db"
  "budget (update_jobs P f db) = budget db"
  by (simp_all add: update_jobs_def)

lemma update_attempts_simps [simp]:
  "jobs (update_attempts P g db) = jobs db"
  "attempts (update_attempts P g db) = sql_update P g (attempts db)"
  "approvals (update_attempts P g db) = approvals db"
  "owners (update_attempts P g db) = owners db"
  "sessions (update_attempts P g db) = sessions db"
  "budget (update_attempts P g db) = budget db"
  by (simp_all add: update_attempts_def)

lemma releaseBudgets_simps [simp]:
  "jobs (releaseBudgets ids db) = jobs db"
  "attempts (releaseBudgets ids db) = attempts db"
  "approvals (releaseBudgets ids db) = approvals db"
  "owners (releaseBudgets ids db) = owners db"
  "sessions (releaseBudgets ids db) = sessions db"
  by (simp_all add: releaseBudgets_def)

lemma JobOwner_inject [simp]: "JobOwner a = JobOwner b \<longleftrightarrow> a = b"
  by (simp add: JobOwner_def)

definition job_holds :: "job_db \<Rightarrow> string \<Rightarrow> bool" where
  "job_holds db jobID = holds_capacity (budget db) (JobOwner jobID)"

lemma job_holds_releaseBudgets [simp]:
  "job_holds (releaseBudgets ids db) jobID \<longleftrightarrow> job_holds db jobID \<and> jobID \<notin> set ids"
proof -
  have "fold (\<lambda>jobID. ReleaseIn (JobOwner jobID)) ids b = fold ReleaseIn (map JobOwner ids) b" for b
    by (simp add: fold_map comp_def)
  then show ?thesis
    by (auto simp: job_holds_def releaseBudgets_def ledger.holds_release_all)
qed

lemma job_holds_updates [simp]:
  "job_holds (update_jobs P f db) jobID = job_holds db jobID"
  "job_holds (update_attempts Q g db) jobID = job_holds db jobID"
  by (simp_all add: job_holds_def)

section \<open>Steps that only move jobs\<close>

definition quiet :: "State \<Rightarrow> State \<Rightarrow> bool" where
  "quiet s t =
     (s = t
      \<or> ((CanTransition s t \<or> s = StateLeased \<and> t = StateRunning)
         \<and> (HoldsLease t \<longrightarrow> HoldsLease s)
         \<and> (HoldsLease s \<longrightarrow> HoldsLease t \<or> Terminal t)
         \<and> (s = StatePlanned \<or> s = StateAwaitingApproval \<longrightarrow>
              t = StateCanceled \<or> t = StateExpired)))"

definition attempts_view :: "job_db \<Rightarrow> (string \<times> string \<times> bool) list" where
  "attempts_view db = map (\<lambda>a. (at_id a, at_job a, open_attempt a)) (attempts db)"

text \<open>
  The row \<open>j\<close> of \<open>db\<close> is the row \<open>j'\<close> of \<open>db'\<close>: the same order, moved as \<open>R\<close> allows, with
  its capacity given back when it no longer holds a lease.
\<close>

definition row_moved :: "(State \<Rightarrow> State \<Rightarrow> bool) \<Rightarrow> job_db \<Rightarrow> job \<Rightarrow> job \<Rightarrow> bool" where
  "row_moved R db' j j' =
     (j_id j' = j_id j \<and> j_order j' = j_order j \<and> (j_state j' = j_state j \<or> R (j_state j) (j_state j'))
      \<and> (HoldsLease (j_state j) \<and> \<not> HoldsLease (j_state j') \<longrightarrow> \<not> job_holds db' (j_id j)))"

definition quiet_step :: "job_db \<Rightarrow> job_db \<Rightarrow> bool" where
  "quiet_step db db' =
     (list_all2 (row_moved quiet db') (jobs db) (jobs db')
      \<and> attempts_view db' = attempts_view db \<and> approvals db' = approvals db
      \<and> owners db' = owners db)"

lemma row_moved_refl [simp]: "row_moved R db' j j"
  by (simp add: row_moved_def)

lemma list_all2_row_moved_refl [simp]: "list_all2 (row_moved R db') rows rows"
  by (simp add: list_all2_refl)

lemma quiet_step_same:
  "jobs db' = jobs db \<Longrightarrow> attempts_view db' = attempts_view db \<Longrightarrow> approvals db' = approvals db \<Longrightarrow>
   owners db' = owners db \<Longrightarrow> quiet_step db db'"
  by (simp add: quiet_step_def)

lemma quiet_step_refl [simp]: "quiet_step db db"
  by (simp add: quiet_step_same)

lemma quiet_step_update:
  assumes "jobs db' = sql_update P f (jobs db)"
    and "\<And>j. j \<in> set (jobs db) \<Longrightarrow> P j \<Longrightarrow> row_moved quiet db' j (f j)"
    and "attempts_view db' = attempts_view db" and "approvals db' = approvals db"
    and "owners db' = owners db"
  shows "quiet_step db db'"
  unfolding quiet_step_def using assms by (simp add: list_all2_sql_update)

lemma attempts_view_same: "attempts db' = attempts db \<Longrightarrow> attempts_view db' = attempts_view db"
  by (simp add: attempts_view_def)

lemma attempts_view_update:
  assumes "attempts db' = sql_update P g (attempts db)"
    and "\<And>a. P a \<Longrightarrow> at_id (g a) = at_id a \<and> at_job (g a) = at_job a
           \<and> at_finished_at (g a) = at_finished_at a"
  shows "attempts_view db' = attempts_view db"
  unfolding attempts_view_def assms(1)
  using assms(2) by (intro map_sql_update) (simp add: open_attempt_def)

lemma quiet_update_attempts:
  assumes "\<And>a. P a \<Longrightarrow> at_id (g a) = at_id a \<and> at_job (g a) = at_job a
      \<and> at_finished_at (g a) = at_finished_at a"
  shows "quiet_step db (update_attempts P g db)"
  using assms by (intro quiet_step_same attempts_view_update [where P = P and g = g]) simp_all

lemma quiet_table:
  "s \<in> set [StatePlanned, StateAwaitingApproval, StateQueued, StateLeased] \<Longrightarrow> quiet s StateCanceled"
  "s \<in> set [StatePlanned, StateAwaitingApproval, StateQueued] \<Longrightarrow> quiet s StateExpired"
  "s \<in> set [StateDispatched, StateRunning] \<Longrightarrow> quiet s StateCancelRequested"
  "s \<in> set [StateLeased, StateDispatched] \<Longrightarrow> quiet s StateRunning"
  "quiet StateLeased StateDispatched"
  "quiet StateCancelRequested StateRunning"
  "quiet StateCancelRequested StateCanceled"
  by (auto simp: quiet_def CanTransition_iff)

lemma get_job_SomeD: "get_job db jobID = Some j \<Longrightarrow> j \<in> set (jobs db) \<and> j_id j = jobID"
  unfolding get_job_def by (rule sql_get_SomeD)

definition keyed :: "job_db \<Rightarrow> bool" where
  "keyed db = (distinct (map j_id (jobs db)) \<and> distinct (map at_id (attempts db)))"

lemma keyed_get_job: "keyed db \<Longrightarrow> get_job db jobID = Some j \<longleftrightarrow> j \<in> set (jobs db) \<and> j_id j = jobID"
  unfolding get_job_def keyed_def by (simp add: sql_get_eq_Some_iff)

lemma keyed_row_unique:
  "keyed db \<Longrightarrow> i \<in> set (jobs db) \<Longrightarrow> j \<in> set (jobs db) \<Longrightarrow> j_id i = j_id j \<Longrightarrow> i = j"
  by (auto simp: keyed_def distinct_map inj_on_def)

lemma keyed_attempt_unique:
  "keyed db \<Longrightarrow> a \<in> set (attempts db) \<Longrightarrow> b \<in> set (attempts db) \<Longrightarrow> at_id a = at_id b \<Longrightarrow> a = b"
  by (auto simp: keyed_def distinct_map inj_on_def)

lemma canceled_row_simps [simp]:
  "j_id (canceled_row actor reason now j) = j_id j"
  "j_order (canceled_row actor reason now j) = j_order j"
  "j_state (canceled_row actor reason now j) = StateCanceled"
  by (simp_all add: canceled_row_def)

lemma request_row_simps [simp]:
  "j_id (request_row actor reason now j) = j_id j"
  "j_order (request_row actor reason now j) = j_order j"
  "j_state (request_row actor reason now j) = StateCancelRequested"
  by (simp_all add: request_row_def)

lemma requestCancel_None:
  assumes "requestCancel jobID actor reason now db = (None, db')"
  shows "jobs db' = sql_update (\<lambda>j. j_id j = jobID) (request_row actor reason now) (jobs db)
    \<and> attempts db' = attempts db \<and> approvals db' = approvals db \<and> budget db' = budget db
    \<and> owners db' = owners db"
  using assms
  by (cases "get_job db jobID"; cases "last_attempt db jobID") (auto simp: requestCancel_def)

lemma requestCancel_quiet:
  assumes "requestCancel jobID actor reason now db = (None, db')"
    and "\<And>j. j \<in> set (jobs db) \<Longrightarrow> j_id j = jobID \<Longrightarrow> j_state j \<in> set [StateDispatched, StateRunning]"
  shows "quiet_step db db'"
  using requestCancel_None [OF assms(1)] assms(2) quiet_table(3)
  by (intro quiet_step_update [where P = "\<lambda>j. j_id j = jobID" and f = "request_row actor reason now"])
     (auto simp: row_moved_def attempts_view_def)

lemma quiet_release_one:
  assumes "\<And>j. j \<in> set (jobs db) \<Longrightarrow> j_id j = jobID \<Longrightarrow>
      j_id (f j) = j_id j \<and> j_order (f j) = j_order j \<and> quiet (j_state j) (j_state (f j))"
  shows "quiet_step db (releaseBudgets [jobID] (update_jobs (\<lambda>j. j_id j = jobID) f db))"
  by (rule quiet_step_update [where P = "\<lambda>j. j_id j = jobID" and f = f])
     (use assms in \<open>auto simp: row_moved_def attempts_view_def\<close>)

lemma Cancel_quiet:
  assumes "keyed db" and "Cancel jobID actor reason now db = (r, db')"
  shows "quiet_step db db'"
proof (cases "get_job db jobID")
  case None
  then show ?thesis using assms by (simp add: Cancel_def)
next
  case (Some task)
  have task: "j_state j = j_state task" if "j \<in> set (jobs db)" "j_id j = jobID" for j
    using that get_job_SomeD [OF Some] keyed_row_unique [OF assms(1)] by metis
  consider (panel) "j_state task \<in> set [StatePlanned, StateAwaitingApproval, StateQueued, StateLeased]"
    | (host) "j_state task \<in> set [StateDispatched, StateRunning]"
    | (other) "db' = db"
    using assms(2) Some by (auto simp: Cancel_def split: if_splits)
  then show ?thesis
  proof cases
    case panel
    then have db': "db' = releaseBudgets [jobID]
        (update_jobs (\<lambda>j. j_id j = jobID) (canceled_row actor reason now) db)"
      using assms(2) Some by (auto simp: Cancel_def Let_def)
    show ?thesis
      unfolding db' by (rule quiet_release_one) (use panel task quiet_table(1) in auto)
  next
    case host
    then show ?thesis
      using assms Some task
      by (auto simp: Cancel_def Let_def split: prod.splits option.splits intro: requestCancel_quiet)
  qed simp
qed

lemma quiet_hit:
  assumes "\<And>j. hit j \<Longrightarrow> j_id (f j) = j_id j \<and> j_order (f j) = j_order j
      \<and> quiet (j_state j) (j_state (f j))"
  shows "quiet_step db (releaseBudgets (map j_id (filter hit (jobs db))) (update_jobs hit f db))"
  by (rule quiet_step_update [where P = hit and f = f])
     (use assms in \<open>auto simp: row_moved_def attempts_view_def\<close>)

lemma CancelUndelivered_quiet:
  "CancelUndelivered hostID actor reason now db = (n, db') \<Longrightarrow> quiet_step db db'"
  unfolding CancelUndelivered_def Let_def
  by (elim Pair_inject, hypsubst, rule quiet_hit) (use quiet_table(1) in auto)

lemma CancelQueuedOf_quiet:
  "CancelQueuedOf campaignID actor reason keep now db = (ids, db') \<Longrightarrow> quiet_step db db'"
  unfolding CancelQueuedOf_def Let_def
  by (elim Pair_inject, hypsubst, rule quiet_hit) (use quiet_table(1) in auto)

lemma SetWaitReason_quiet: "quiet_step db (SetWaitReason jobID reason now db)"
  unfolding SetWaitReason_def
  by (rule quiet_step_update [OF update_jobs_simps(1)]) (simp_all add: row_moved_def attempts_view_def)

lemma RecordHandover_quiet: "quiet_step db (RecordHandover jobID attemptID sessionID now db)"
proof (rule quiet_step_update [where P = "\<lambda>j. j_id j = jobID \<and> j_state j = StateLeased"
      and f = "\<lambda>j. j\<lparr>j_state := StateDispatched, j_updated_at := now\<rparr>"])
  show "attempts_view (RecordHandover jobID attemptID sessionID now db) = attempts_view db"
    by (rule attempts_view_update [where P = "\<lambda>a. at_id a = attemptID \<and> open_attempt a"],
        simp add: RecordHandover_def, simp)
qed (use quiet_table(5) in \<open>auto simp: RecordHandover_def row_moved_def\<close>)

lemma AcceptAttempt_quiet:
  "AcceptAttempt attemptID hostID lease now db = (b, db') \<Longrightarrow> quiet_step db db'"
  by (auto simp: AcceptAttempt_def Let_def intro!: quiet_update_attempts)

lemma RenewAttemptLease_quiet:
  "RenewAttemptLease attemptID hostID extension now db = (b, db') \<Longrightarrow> quiet_step db db'"
  by (auto simp: RenewAttemptLease_def Let_def intro!: quiet_update_attempts)

lemma SetLockWait_quiet: "quiet_step db (SetLockWait attemptID hostID blocker now db)"
  unfolding SetLockWait_def Let_def
  by (rule quiet_step_update [OF update_jobs_simps(1)]) (simp_all add: row_moved_def attempts_view_def)

lemma MarkRunning_quiet:
  assumes "keyed db" and "MarkRunning attemptID hostID now db = (r, db')"
  shows "quiet_step db db'"
proof (cases "find (\<lambda>a. at_id a = attemptID \<and> open_attempt a
    \<and> carried_by db hostID [StateLeased, StateDispatched] a) (attempts db)")
  case None
  then show ?thesis using assms by (simp add: MarkRunning_def)
next
  case (Some a)
  then have "carried_by db hostID [StateLeased, StateDispatched] a"
    by (auto simp: find_Some_iff)
  then have s: "j_state j \<in> set [StateLeased, StateDispatched]"
    if "j \<in> set (jobs db)" "j_id j = at_job a" for j
    using keyed_row_unique [OF assms(1), of j] that unfolding carried_by_def list_ex_iff by metis
  show ?thesis
  proof (cases "Validate StateDispatched StateRunning = None")
    case True
    then have db': "db' = update_attempts (\<lambda>a. at_id a = attemptID)
        (\<lambda>a. a\<lparr>at_started_at := sql_coalesce (at_started_at a) now\<rparr>)
        (update_jobs (\<lambda>j. j_id j = at_job a)
           (\<lambda>j. j\<lparr>j_state := StateRunning, j_wait_reason := [], j_updated_at := now\<rparr>) db)"
      using assms(2) Some by (simp add: MarkRunning_def)
    have "attempts_view db' = attempts_view db"
      by (rule attempts_view_update [where P = "\<lambda>a. at_id a = attemptID"], simp add: db', simp)
    then show ?thesis
      using s quiet_table(4)
      by (intro quiet_step_update [where P = "\<lambda>j. j_id j = at_job a"
            and f = "\<lambda>j. j\<lparr>j_state := StateRunning, j_wait_reason := [], j_updated_at := now\<rparr>"])
         (auto simp: db' row_moved_def)
  qed (use assms Some in \<open>simp add: MarkRunning_def\<close>)
qed

lemma ExpireOverdue_quiet: "ExpireOverdue now db = (n, db') \<Longrightarrow> quiet_step db db'"
  unfolding ExpireOverdue_def Let_def
  by (elim Pair_inject, hypsubst, rule quiet_hit) (use quiet_table(2) in auto)

text \<open>A write that moves no job and gives no capacity away can come before or after.\<close>

definition job_view :: "job \<Rightarrow> string \<times> job_order \<times> State" where
  "job_view j = (j_id j, j_order j, j_state j)"

definition still :: "job_db \<Rightarrow> job_db \<Rightarrow> bool" where
  "still db db' =
     (map job_view (jobs db') = map job_view (jobs db) \<and> attempts_view db' = attempts_view db
      \<and> approvals db' = approvals db \<and> budget db' = budget db \<and> owners db' = owners db)"

definition view_moved ::
  "(State \<Rightarrow> State \<Rightarrow> bool) \<Rightarrow> job_db \<Rightarrow> string \<times> job_order \<times> State \<Rightarrow> string \<times> job_order \<times> State \<Rightarrow> bool"
where
  "view_moved R db' v v' =
     (fst v' = fst v \<and> fst (snd v') = fst (snd v)
      \<and> (snd (snd v') = snd (snd v) \<or> R (snd (snd v)) (snd (snd v')))
      \<and> (HoldsLease (snd (snd v)) \<and> \<not> HoldsLease (snd (snd v')) \<longrightarrow> \<not> job_holds db' (fst v)))"

lemma row_moved_view:
  "list_all2 (row_moved R db') xs ys \<longleftrightarrow> list_all2 (view_moved R db') (map job_view xs) (map job_view ys)"
  by (simp add: list_all2_map1 list_all2_map2 view_moved_def job_view_def row_moved_def [abs_def])

lemma quiet_step_after_still: "still db db1 \<Longrightarrow> quiet_step db1 db2 \<Longrightarrow> quiet_step db db2"
  by (simp add: still_def quiet_step_def row_moved_view)

lemma quiet_step_before_still: "quiet_step db db1 \<Longrightarrow> still db1 db2 \<Longrightarrow> quiet_step db db2"
  by (simp add: still_def quiet_step_def row_moved_view view_moved_def [abs_def] job_holds_def)

lemma still_update_jobs:
  assumes "\<And>j. P j \<Longrightarrow> job_view (f j) = job_view j"
  shows "still db (update_jobs P f db)"
  using assms by (simp add: still_def map_sql_update attempts_view_def)

lemma still_update_attempts:
  assumes "\<And>a. P a \<Longrightarrow> at_id (g a) = at_id a \<and> at_job (g a) = at_job a
      \<and> at_finished_at (g a) = at_finished_at a"
  shows "still db (update_attempts P g db)"
  using assms attempts_view_update [of "update_attempts P g db" P g db] by (simp add: still_def)

lemma quiet_update_jobs:
  assumes "\<And>j. j \<in> set (jobs db) \<Longrightarrow> P j \<Longrightarrow> j_id (f j) = j_id j \<and> j_order (f j) = j_order j
      \<and> quiet (j_state j) (j_state (f j)) \<and> (HoldsLease (j_state j) \<longrightarrow> HoldsLease (j_state (f j)))"
  shows "quiet_step db (update_jobs P f db)"
  by (rule quiet_step_update [where P = P and f = f])
     (use assms in \<open>auto simp: row_moved_def attempts_view_def\<close>)

lemma dispatchAfterSettlement_quiet: "quiet_step db (snd (dispatchAfterSettlement jobID now db))"
  by (auto simp: dispatchAfterSettlement_def quiet_def split: option.splits intro!: quiet_update_jobs)

lemma MarkDispatched_jobs_quiet:
  "quiet_step db (update_jobs (\<lambda>j. j_id j = jobID \<and> j_state j = StateLeased)
     (\<lambda>j. j\<lparr>j_state := StateDispatched, j_updated_at := now\<rparr>) db)"
  by (rule quiet_update_jobs) (use quiet_table(5) in auto)

lemma no_leased_update:
  "\<not> list_ex (\<lambda>j. j_id j = jobID \<and> j_state j = StateLeased) (jobs db) \<Longrightarrow>
   update_jobs (\<lambda>j. j_id j = jobID \<and> j_state j = StateLeased) f db = db"
proof -
  assume "\<not> list_ex (\<lambda>j. j_id j = jobID \<and> j_state j = StateLeased) (jobs db)"
  then have "sql_update (\<lambda>j. j_id j = jobID \<and> j_state j = StateLeased) f (jobs db) = jobs db"
    unfolding sql_update_def by (intro map_idI) (auto simp: list_ex_iff)
  then show ?thesis
    by (simp add: update_jobs_def)
qed

lemma MarkDispatchedWithLease_quiet:
  assumes "MarkDispatchedWithLease jobID attemptID fence lease now db = (r, db')"
  shows "quiet_step db db'"
proof -
  let ?leased = "\<lambda>j. j_id j = jobID \<and> j_state j = StateLeased"
  let ?db1 = "update_jobs ?leased (\<lambda>j. j\<lparr>j_state := StateDispatched, j_updated_at := now\<rparr>) db"
  let ?after = "if list_ex ?leased (jobs db) then (None, ?db1) else dispatchAfterSettlement jobID now ?db1"
  have q: "quiet_step db (snd ?after)"
    using MarkDispatched_jobs_quiet dispatchAfterSettlement_quiet by (simp add: no_leased_update)
  obtain e db2 where after: "?after = (e, db2)"
    by (rule prod.exhaust)
  let ?sent = "update_attempts (\<lambda>a. at_id a = attemptID) (sent_attempt fence lease now) db2"
  have q2: "quiet_step db db2"
    using q unfolding after by simp
  have st: "still db2 ?sent"
    by (rule still_update_attempts) (simp add: sent_attempt_def)
  have "db' = db \<or> db' = db2 \<or> db' = ?sent"
    using assms unfolding MarkDispatchedWithLease_def Let_def after
    by (cases e; cases "the e") (auto split: if_splits)
  then show ?thesis
    using q2 quiet_step_before_still [OF q2 st] by (elim disjE) simp_all
qed

lemma requestCancel_all_None:
  assumes "requestCancel_all ids actor reason now db = (None, db')" and "distinct ids"
  shows "jobs db' = sql_update (\<lambda>j. j_id j \<in> set ids) (request_row actor reason now) (jobs db)
    \<and> attempts db' = attempts db \<and> approvals db' = approvals db \<and> budget db' = budget db
    \<and> owners db' = owners db"
  using assms
proof (induction ids arbitrary: db)
  case Nil
  then show ?case by (simp add: sql_update_def)
next
  case (Cons jobID ids)
  then obtain db1 where one: "requestCancel jobID actor reason now db = (None, db1)"
    and rest: "requestCancel_all ids actor reason now db1 = (None, db')"
    by (auto split: prod.splits option.splits)
  have "jobs db' = sql_update (\<lambda>j. j_id j \<in> set ids) (request_row actor reason now)
      (sql_update (\<lambda>j. j_id j = jobID) (request_row actor reason now) (jobs db))"
    using Cons.IH [OF rest] Cons.prems(2) requestCancel_None [OF one] by simp
  also have "\<dots> = sql_update (\<lambda>j. j_id j = jobID \<or> j_id j \<in> set ids) (request_row actor reason now) (jobs db)"
    using Cons.prems(2) by (intro sql_update_twice) auto
  finally show ?case
    using Cons.IH [OF rest] Cons.prems(2) requestCancel_None [OF one] by simp
qed

lemma requestCancel_all_quiet:
  assumes "requestCancel_all ids actor reason now db = (None, db')" and "distinct ids"
    and "\<And>j. j \<in> set (jobs db) \<Longrightarrow> j_id j \<in> set ids \<Longrightarrow> j_state j \<in> set [StateDispatched, StateRunning]"
  shows "quiet_step db db'"
  using requestCancel_all_None [OF assms(1,2)] assms(3) quiet_table(3)
  by (intro quiet_step_update [where P = "\<lambda>j. j_id j \<in> set ids" and f = "request_row actor reason now"])
     (auto simp: row_moved_def attempts_view_def)

lemma distinct_ids_sorted: "keyed db \<Longrightarrow> distinct (map j_id (sort_key j_created_at (filter P (jobs db))))"
  by (simp add: keyed_def distinct_map inj_on_def)

lemma RequestCancelOf_quiet:
  assumes "keyed db" and "RequestCancelOf campaignID actor reason keep now db = (r, db')"
  shows "quiet_step db db'"
proof -
  let ?held = "\<lambda>j. campaignID \<noteq> [] \<and> o_campaign (j_order j) = campaignID
      \<and> j_state j \<in> set [StateDispatched, StateRunning] \<and> j_id j \<notin> set keep"
  let ?ids = "map j_id (sort_key j_created_at (filter ?held (jobs db)))"
  obtain e db1 where all: "requestCancel_all ?ids actor reason now db = (e, db1)"
    by (rule prod.exhaust)
  show ?thesis
  proof (cases e)
    case None
    then have db': "db' = db1"
      using assms(2) all by (simp add: RequestCancelOf_def Let_def)
    have state: "j_state j \<in> set [StateDispatched, StateRunning]"
      if "j \<in> set (jobs db)" "j_id j \<in> set ?ids" for j
      using that keyed_row_unique [OF assms(1), of j] by auto
    show ?thesis
      unfolding db' by (rule requestCancel_all_quiet [OF all [unfolded None]
            distinct_ids_sorted [OF assms(1)] state])
  qed (use assms(2) all in \<open>simp add: RequestCancelOf_def Let_def\<close>)
qed

lemma acknowledged_view [simp]: "job_view (acknowledged outcome phase now j) = job_view j"
  by (simp add: acknowledged_def job_view_def)

lemma acknowledged_simps [simp]:
  "j_id (acknowledged outcome phase now j) = j_id j"
  "j_order (acknowledged outcome phase now j) = j_order j"
  "j_state (acknowledged outcome phase now j) = j_state j"
  by (simp_all add: acknowledged_def)

lemma cancel_settled_simps [simp]:
  "j_id (cancel_settled outcome phase now j) = j_id j"
  "j_order (cancel_settled outcome phase now j) = j_order j"
  "j_state (cancel_settled outcome phase now j) = StateCanceled"
  by (simp_all add: cancel_settled_def)

lemma RecordCancelAck_quiet:
  assumes "keyed db" and "RecordCancelAck jobID revision outcome phase fence now db = (r, db')"
  shows "quiet_step db db'"
proof (cases "find (\<lambda>j. j_id j = jobID \<and> j_cancel_revision j = sint revision) (jobs db)")
  case None
  then show ?thesis
    using assms(2) by (auto simp: RecordCancelAck_def split: if_splits)
next
  case (Some j)
  let ?db1 = "update_jobs (\<lambda>j. j_id j = jobID \<and> j_cancel_revision j = sint revision)
      (acknowledged outcome phase now) db"
  have st: "still db ?db1"
    by (rule still_update_jobs) simp
  have j: "j \<in> set (jobs db)" "j_id j = jobID"
    using Some by (auto simp: find_Some_iff)
  have state: "j_state i = j_state j" if "i \<in> set (jobs ?db1)" "j_id i = jobID" for i
    using that(1) unfolding update_jobs_simps(1)
  proof (cases rule: in_sql_updateE)
    case 1
    then show ?thesis using keyed_row_unique [OF assms(1) _ j(1)] j(2) that(2) by blast
  next
    case (2 i0)
    then show ?thesis using keyed_row_unique [OF assms(1) _ j(1), of i0] j(2) by simp
  qed
  have canceled: "quiet_step ?db1 (releaseBudgets [jobID]
      (update_jobs (\<lambda>j. j_id j = jobID) (cancel_settled outcome phase now) ?db1))"
    if "j_state j = StateCancelRequested"
    by (rule quiet_release_one) (simp add: state that quiet_table(7) del: update_jobs_simps(1))
  have running: "quiet_step ?db1 (update_jobs (\<lambda>j. j_id j = jobID)
      (\<lambda>j. j\<lparr>j_state := StateRunning, j_updated_at := now\<rparr>) ?db1)"
    if "j_state j = StateCancelRequested"
    by (rule quiet_update_jobs) (simp add: state that quiet_table(6) del: update_jobs_simps(1))
  consider "db' = db" | "db' = ?db1"
    | "j_state j = StateCancelRequested" "db' = releaseBudgets [jobID]
        (update_jobs (\<lambda>j. j_id j = jobID) (cancel_settled outcome phase now) ?db1)"
    | "j_state j = StateCancelRequested"
      "db' = update_jobs (\<lambda>j. j_id j = jobID) (\<lambda>j. j\<lparr>j_state := StateRunning, j_updated_at := now\<rparr>) ?db1"
    using assms(2) Some unfolding RecordCancelAck_def Let_def by (simp split: if_splits)
  then show ?thesis
  proof cases
    case 1
    show ?thesis unfolding 1 by (rule quiet_step_refl)
  next
    case 2
    show ?thesis unfolding 2 by (rule quiet_step_before_still [OF quiet_step_refl st])
  next
    case 3
    show ?thesis unfolding 3(2) by (rule quiet_step_after_still [OF st canceled [OF 3(1)]])
  next
    case 4
    show ?thesis unfolding 4(2) by (rule quiet_step_after_still [OF st running [OF 4(1)]])
  qed
qed

end
