(* ===== verification/Job_Runs.thy ===== *)
theory Job_Runs
  imports Job_Safety
begin

text \<open>
  The operations that open and close attempts, the step relation of the job store, and the
  invariant of its tables.
\<close>

section \<open>The invariant\<close>

definition opens :: "job_db \<Rightarrow> string \<Rightarrow> nat" where
  "opens db jobID = length (filter (\<lambda>a. at_job a = jobID \<and> open_attempt a) (attempts db))"

text \<open>
  A job that holds a lease is carried by exactly one open attempt, a job still in the panel by
  none. The attempt of a job canceled between the lease and the delivery stays open.
\<close>

definition ok_opens :: "State \<Rightarrow> nat \<Rightarrow> bool" where
  "ok_opens s n = (if HoldsLease s then n = 1 else if Terminal s then n \<le> 1 else n = 0)"

definition ungated :: "State \<Rightarrow> bool" where
  "ungated s = (s \<in> set [StatePlanned, StateAwaitingApproval, StateCanceled, StateExpired])"

definition approved_enough :: "job_db \<Rightarrow> job \<Rightarrow> bool" where
  "approved_enough db j =
     (o_requires_approval (j_order j) \<and> \<not> ungated (j_state j) \<longrightarrow>
        o_required (j_order j) \<le> int (length (approvals_of db (j_id j))))"

definition store_inv :: "job_db \<Rightarrow> bool" where
  "store_inv db =
     (keyed db
      \<and> (\<forall>j \<in> set (jobs db). ok_opens (j_state j) (opens db (j_id j)) \<and> approved_enough db j)
      \<and> (\<forall>a \<in> set (attempts db). \<exists>j \<in> set (jobs db). j_id j = at_job a
            \<and> j_state j \<notin> set [StatePlanned, StateAwaitingApproval])
      \<and> distinct (map (\<lambda>a. (ap_job a, ap_approver a)) (approvals db)))"

section \<open>What a step may do\<close>

definition step_move :: "State \<Rightarrow> State \<Rightarrow> bool" where
  "step_move s t = (CanTransition s t \<or> s = StateLeased \<and> t = StateRunning)"

definition given_up :: "job_db \<Rightarrow> string \<Rightarrow> bool" where
  "given_up db jobID =
     list_ex (\<lambda>a. at_job a = jobID \<and> at_status a = AttemptStatusLeaseExpired) (attempts db)"

definition moved_ok :: "job_db \<Rightarrow> job \<Rightarrow> State \<Rightarrow> bool" where
  "moved_ok db j t =
     (t = j_state j \<or> step_move (j_state j) t
      \<or> given_up db (j_id j) \<and> \<not> Terminal (j_state j) \<and> Terminal t)"

definition good_row :: "job_db \<Rightarrow> job_db \<Rightarrow> job \<Rightarrow> job \<Rightarrow> bool" where
  "good_row db db' j j' =
     (j_id j' = j_id j \<and> j_order j' = j_order j \<and> moved_ok db j (j_state j')
      \<and> (HoldsLease (j_state j) \<and> \<not> HoldsLease (j_state j') \<longrightarrow> \<not> job_holds db' (j_id j))
      \<and> ok_opens (j_state j') (opens db' (j_id j))
      \<and> (j_state j' \<in> set [StatePlanned, StateAwaitingApproval] \<longrightarrow> j_state j' = j_state j)
      \<and> approved_enough db' j')"

definition fresh_row :: "job_db \<Rightarrow> job_db \<Rightarrow> job \<Rightarrow> bool" where
  "fresh_row db db' j =
     (j_id j \<notin> j_id ` set (jobs db) \<and> opens db' (j_id j) = 0
      \<and> j_state j = (if o_requires_approval (j_order j) then StateAwaitingApproval else StateQueued))"

definition good_step :: "job_db \<Rightarrow> job_db \<Rightarrow> bool" where
  "good_step db db' =
     ((\<exists>xs ys. jobs db' = xs @ ys \<and> list_all2 (good_row db db') (jobs db) xs
         \<and> (\<forall>j \<in> set ys. fresh_row db db' j))
      \<and> keyed db'
      \<and> (\<forall>a \<in> set (attempts db'). (\<exists>a0 \<in> set (attempts db). at_job a0 = at_job a)
            \<or> (\<exists>j \<in> set (jobs db'). j_id j = at_job a \<and> HoldsLease (j_state j)))
      \<and> distinct (map (\<lambda>a. (ap_job a, ap_approver a)) (approvals db'))
      \<and> owners db' = owners db)"

lemma good_row_rel:
  assumes "list_all2 (good_row db db') (jobs db) xs" and "j \<in> set (jobs db)"
  obtains j' where "j' \<in> set xs" and "good_row db db' j j'"
  using assms by (metis list_all2_conv_all_nth in_set_conv_nth)

lemma good_row_rel2:
  assumes "list_all2 (good_row db db') (jobs db) xs" and "j' \<in> set xs"
  obtains j where "j \<in> set (jobs db)" and "good_row db db' j j'"
  using assms by (metis list_all2_conv_all_nth in_set_conv_nth)

lemma store_inv_good_step:
  assumes inv: "store_inv db" and good: "good_step db db'"
  shows "store_inv db'"
proof -
  obtain xs ys where js: "jobs db' = xs @ ys" and rel: "list_all2 (good_row db db') (jobs db) xs"
    and fresh: "\<forall>j \<in> set ys. fresh_row db db' j" and key: "keyed db'"
    and ats: "\<forall>a \<in> set (attempts db'). (\<exists>a0 \<in> set (attempts db). at_job a0 = at_job a)
            \<or> (\<exists>j \<in> set (jobs db'). j_id j = at_job a \<and> HoldsLease (j_state j))"
    and ap: "distinct (map (\<lambda>a. (ap_job a, ap_approver a)) (approvals db'))"
    using good by (auto simp: good_step_def)
  have "ok_opens (j_state j) (opens db' (j_id j)) \<and> approved_enough db' j" if "j \<in> set (jobs db')" for j
  proof (cases "j \<in> set xs")
    case True
    then obtain j0 where "good_row db db' j0 j" by (rule good_row_rel2 [OF rel])
    then show ?thesis by (simp add: good_row_def)
  next
    case False
    then have "fresh_row db db' j" using that js fresh by simp
    then show ?thesis
      by (simp add: fresh_row_def ok_opens_def approved_enough_def ungated_def)
  qed
  moreover have "\<exists>j \<in> set (jobs db'). j_id j = at_job a
      \<and> j_state j \<notin> set [StatePlanned, StateAwaitingApproval]"
    if a: "a \<in> set (attempts db')" for a
  proof (cases "\<exists>j \<in> set (jobs db'). j_id j = at_job a \<and> HoldsLease (j_state j)")
    case True
    then show ?thesis by (auto simp: HoldsLease_iff)
  next
    case False
    then obtain a0 where "a0 \<in> set (attempts db)" and job: "at_job a0 = at_job a"
      using a ats by blast
    then obtain j where j: "j \<in> set (jobs db)" "j_id j = at_job a"
      and st: "j_state j \<notin> set [StatePlanned, StateAwaitingApproval]"
      using inv unfolding store_inv_def by metis
    obtain j' where "j' \<in> set xs" and row: "good_row db db' j j'"
      by (rule good_row_rel [OF rel j(1)])
    then show ?thesis
      using js j(2) st by (intro bexI [of _ j']) (auto simp: good_row_def)
  qed
  ultimately show ?thesis
    using key ap by (simp add: store_inv_def)
qed

section \<open>Quiet steps are good\<close>

lemma opens_view: "opens db jobID = length (filter (\<lambda>(i, job, op). job = jobID \<and> op) (attempts_view db))"
  by (simp add: opens_def attempts_view_def filter_map comp_def)

lemma keyed_view:
  "keyed db \<longleftrightarrow> distinct (map j_id (jobs db)) \<and> distinct (map fst (attempts_view db))"
  by (simp add: keyed_def attempts_view_def comp_def)

lemma row_moved_ids: "list_all2 (row_moved R db') xs ys \<Longrightarrow> map j_id ys = map j_id xs"
  by (induction rule: list_all2_induct) (auto simp: row_moved_def)

lemma attempts_view_jobs:
  assumes "attempts_view db' = attempts_view db" and "a \<in> set (attempts db')"
  shows "\<exists>a0 \<in> set (attempts db). at_job a0 = at_job a"
proof -
  have "(at_id a, at_job a, open_attempt a) \<in> set (attempts_view db)"
    using assms(2) unfolding assms(1) [symmetric] by (auto simp: attempts_view_def)
  then show ?thesis by (auto simp: attempts_view_def)
qed

lemma quiet_ok_opens: "quiet s t \<Longrightarrow> ok_opens s n \<Longrightarrow> ok_opens t n"
  by (cases s; cases t) (simp_all add: quiet_def ok_opens_def CanTransition_iff)

lemma quiet_gate: "quiet s t \<Longrightarrow> ungated s \<Longrightarrow> ungated t"
  by (cases s; cases t) (simp_all add: quiet_def ungated_def CanTransition_iff)

lemma quiet_early: "quiet s t \<Longrightarrow> t \<in> set [StatePlanned, StateAwaitingApproval] \<Longrightarrow> t = s"
  by (cases s; cases t) (simp_all add: quiet_def CanTransition_iff)

lemma quiet_good_row:
  assumes "store_inv db" and "quiet_step db db'" and "j \<in> set (jobs db)"
    and "row_moved quiet db' j j'"
  shows "good_row db db' j j'"
proof -
  have q: "quiet (j_state j) (j_state j')"
    using assms(4) by (auto simp: row_moved_def quiet_def)
  have "opens db' = opens db" and ap: "approvals_of db' = approvals_of db"
    using assms(2) by (auto simp: quiet_step_def opens_view approvals_of_def)
  then have "ok_opens (j_state j') (opens db' (j_id j))"
    using assms(1,3) quiet_ok_opens [OF q] by (simp add: store_inv_def)
  moreover have "approved_enough db' j'"
    using assms(1,3,4) quiet_gate [OF q]
    by (auto simp: store_inv_def approved_enough_def row_moved_def ap)
  ultimately show ?thesis
    using assms(4) q quiet_early [OF q]
    by (auto simp: good_row_def row_moved_def moved_ok_def step_move_def quiet_def)
qed

lemma list_all2_mono_in:
  assumes "list_all2 R xs ys" and "\<And>x y. x \<in> set xs \<Longrightarrow> R x y \<Longrightarrow> S x y"
  shows "list_all2 S xs ys"
  using assms by (induction rule: list_all2_induct) auto

lemma good_step_quiet:
  assumes "store_inv db" and "quiet_step db db'"
  shows "good_step db db'"
proof -
  have rel: "list_all2 (row_moved quiet db') (jobs db) (jobs db')"
    and view: "attempts_view db' = attempts_view db" and ap: "approvals db' = approvals db"
    using assms(2) by (auto simp: quiet_step_def)
  have "list_all2 (good_row db db') (jobs db) (jobs db')"
    using rel by (rule list_all2_mono_in) (rule quiet_good_row [OF assms])
  moreover have "keyed db'"
    using assms(1) row_moved_ids [OF rel] by (simp add: store_inv_def keyed_view view)
  ultimately show ?thesis
    using attempts_view_jobs [OF view] assms unfolding good_step_def quiet_step_def
    by (intro conjI exI [of _ "jobs db'"] exI [of _ "[]"]) (auto simp: store_inv_def ap)
qed

section \<open>Creating, approving, leasing\<close>

definition attempt_keys :: "job_db \<Rightarrow> (string \<times> string) list" where
  "attempt_keys db = map (\<lambda>a. (at_id a, at_job a)) (attempts db)"

lemma keyed_keys:
  "keyed db \<longleftrightarrow> distinct (map j_id (jobs db)) \<and> distinct (map fst (attempt_keys db))"
  by (simp add: keyed_def attempt_keys_def comp_def)

lemma attempt_keys_jobs:
  assumes "attempt_keys db' = attempt_keys db" and "a \<in> set (attempts db')"
  shows "\<exists>a0 \<in> set (attempts db). at_job a0 = at_job a"
proof -
  have "(at_id a, at_job a) \<in> set (attempt_keys db)"
    using assms(2) unfolding assms(1) [symmetric] by (auto simp: attempt_keys_def)
  then show ?thesis by (auto simp: attempt_keys_def)
qed

lemma good_row_same:
  assumes "store_inv db" and "j \<in> set (jobs db)" and "ok_opens (j_state j) (opens db' (j_id j))"
    and "length (approvals_of db (j_id j)) \<le> length (approvals_of db' (j_id j))"
  shows "good_row db db' j j"
  using assms by (auto simp: good_row_def moved_ok_def store_inv_def approved_enough_def)

lemma good_step_update:
  assumes inv: "store_inv db" and js: "jobs db' = sql_update P f (jobs db)"
    and keys: "attempt_keys db' = attempt_keys db"
    and ap: "distinct (map (\<lambda>a. (ap_job a, ap_approver a)) (approvals db'))"
    and hit: "\<And>j. j \<in> set (jobs db) \<Longrightarrow> P j \<Longrightarrow> good_row db db' j (f j)"
    and rest: "\<And>j. j \<in> set (jobs db) \<Longrightarrow> \<not> P j \<Longrightarrow> good_row db db' j j"
    and ow: "owners db' = owners db"
  shows "good_step db db'"
proof -
  have rel: "list_all2 (good_row db db') (jobs db) (jobs db')"
    unfolding js sql_update_def using hit rest by (simp add: list_all2_map2 list.rel_refl_strong)
  have "map j_id (jobs db') = map j_id (jobs db)"
    using rel by (induction rule: list_all2_induct) (auto simp: good_row_def)
  then have "keyed db'"
    using inv keys by (simp add: store_inv_def keyed_keys)
  then show ?thesis
    using attempt_keys_jobs [OF keys] ap rel ow unfolding good_step_def
    by (intro conjI exI [of _ "jobs db'"] exI [of _ "[]"]) auto
qed

lemma Create_db:
  "snd (Create reg validate planBinding payloadHash jobID newKey spec now db) = db
   \<or> get_job db jobID = None
     \<and> (\<exists>order. snd (Create reg validate planBinding payloadHash jobID newKey spec now db)
           = db\<lparr>jobs := jobs db @ [new_job jobID order now]\<rparr>)"
proof (cases "validate (s_Action spec) (s_Payload spec) = None
    \<and> planBinding (s_Action spec) (s_Payload spec) = None")
  case True
  show ?thesis
  proof (cases "payloadHash (s_Action spec) (s_Payload spec)")
    case None
    then show ?thesis using True by (simp add: Create_def)
  next
    case (Some hash)
    define key where "key = (if s_IdempotencyKey spec = [] then newKey else s_IdempotencyKey spec)"
    let ?order = "new_order reg hash key now spec"
    show ?thesis
    proof (cases "o_required ?order < 1 \<or> 3 < o_required ?order \<or> o_timeout ?order \<le> 0
        \<or> find (\<lambda>j. o_host (j_order j) = s_HostID spec \<and> o_key (j_order j) = key) (jobs db) \<noteq> None
        \<or> get_job db jobID \<noteq> None")
      case bad: True
      then have "snd (Create reg validate planBinding payloadHash jobID newKey spec now db) = db"
        using True Some unfolding Create_def Let_def key_def [symmetric] by (auto split: option.splits)
      then show ?thesis ..
    next
      case False
      then have "snd (Create reg validate planBinding payloadHash jobID newKey spec now db)
          = db\<lparr>jobs := jobs db @ [new_job jobID ?order now]\<rparr>"
        using True Some unfolding Create_def Let_def key_def [symmetric] by simp
      with False show ?thesis by blast
    qed
  qed
qed (auto simp: Create_def split: option.splits)

lemma Create_good:
  assumes inv: "store_inv db"
    and cr: "Create reg validate planBinding payloadHash jobID newKey spec now db = (r, db')"
  shows "good_step db db'"
proof -
  consider "db' = db"
    | order where "get_job db jobID = None" "db' = db\<lparr>jobs := jobs db @ [new_job jobID order now]\<rparr>"
    using Create_db [of reg validate planBinding payloadHash jobID newKey spec now db]
    unfolding cr by auto
  then show ?thesis
  proof cases
    case 1
    then show ?thesis using good_step_quiet [OF inv] by simp
  next
    case (2 order)
    have new: "jobID \<notin> j_id ` set (jobs db)"
      using 2(1) by (simp add: get_job_def sql_get_None_iff)
    have op: "opens db' = opens db" and ap: "approvals_of db' = approvals_of db"
      by (simp_all add: 2(2) opens_def fun_eq_iff approvals_of_def)
    have none: "filter (\<lambda>a. at_job a = jobID \<and> open_attempt a) (attempts db) = []"
      using inv new by (force simp: store_inv_def filter_empty_conv)
    have "list_all2 (good_row db db') (jobs db) (jobs db)"
      using inv by (intro list.rel_refl_strong good_row_same) (auto simp: op ap store_inv_def)
    moreover have "fresh_row db db' (new_job jobID order now)"
      using new none by (simp add: fresh_row_def op opens_def new_job_def)
    moreover have "keyed db'"
      using inv new by (auto simp: 2(2) store_inv_def keyed_def new_job_def)
    ultimately show ?thesis
      using inv unfolding good_step_def
      by (intro conjI exI [of _ "jobs db"] exI [of _ "[new_job jobID order now]"])
         (auto simp: 2(2) store_inv_def)
  qed
qed

lemma recordApproval_simps [simp]:
  "jobs (recordApproval jobID actor reason now db) = jobs db"
  "attempts (recordApproval jobID actor reason now db) = attempts db"
  "owners (recordApproval jobID actor reason now db) = owners db"
  by (simp_all add: recordApproval_def)

lemma recordApproval_distinct:
  "distinct (map (\<lambda>a. (ap_job a, ap_approver a)) (approvals db)) \<Longrightarrow>
   distinct (map (\<lambda>a. (ap_job a, ap_approver a)) (approvals (recordApproval jobID actor reason now db)))"
  unfolding recordApproval_def by simp (rule distinct_sql_upsert, simp_all)

lemma recordApproval_grows:
  "length (approvals_of db i) \<le> length (approvals_of (recordApproval jobID actor reason now db) i)"
  by (simp add: recordApproval_def approvals_of_def sql_upsert_def sql_update_def)

definition approved_row :: "string \<Rightarrow> moment \<Rightarrow> job \<Rightarrow> job" where
  "approved_row actor now j =
     j\<lparr>j_state := StateQueued, j_approved_by := actor, j_approved_at := Some now, j_updated_at := now\<rparr>"

lemma Approve_good:
  assumes inv: "store_inv db" and ap: "Approve jobID actor reason now db = (r, db')"
  shows "good_step db db'"
proof (cases "get_job db jobID")
  case None
  then show ?thesis using ap good_step_quiet [OF inv] by (simp add: Approve_def)
next
  case (Some task)
  let ?db1 = "recordApproval jobID actor reason now db"
  have task: "task \<in> set (jobs db)" "j_id task = jobID"
    using get_job_SomeD [OF Some] by auto
  have only: "j = task" if "j \<in> set (jobs db)" "j_id j = jobID" for j
    using that task inv keyed_row_unique [of db j task] by (simp add: store_inv_def)
  have ok: "ok_opens (j_state j) (opens db (j_id j))" if "j \<in> set (jobs db)" for j
    using inv that by (simp add: store_inv_def)
  have dist: "distinct (map (\<lambda>a. (ap_job a, ap_approver a)) (approvals ?db1))"
    using inv by (intro recordApproval_distinct) (simp add: store_inv_def)
  let ?db2 = "update_jobs (\<lambda>j. j_id j = jobID) (approved_row actor now) ?db1"
  have op: "opens ?db1 = opens db" "opens ?db2 = opens db" "approvals_of ?db2 = approvals_of ?db1"
    by (simp_all add: fun_eq_iff opens_def approvals_of_def)
  consider (none) "db' = db" | (waits) "db' = ?db1"
    | (through) "db' = ?db2" "j_state task = StateAwaitingApproval"
        "o_required (j_order task) \<le> int (length (approvals_of ?db1 jobID))"
    using ap Some unfolding Approve_def Let_def approved_row_def [abs_def] by (auto split: if_splits)
  then show ?thesis
  proof cases
    case none
    then show ?thesis using good_step_quiet [OF inv] by simp
  next
    case waits
    show ?thesis
      unfolding waits
      by (rule good_step_update [OF inv, where P = "\<lambda>_. False" and f = id])
         (use inv dist ok recordApproval_grows in
           \<open>auto simp: attempt_keys_def op sql_update_def intro!: good_row_same\<close>)
  next
    case through
    have "good_row db ?db2 task (approved_row actor now task)"
      using through(2,3) task ok [OF task(1)]
      by (simp add: good_row_def approved_row_def moved_ok_def step_move_def CanTransition_iff op
          ok_opens_def approved_enough_def)
    then show ?thesis
      unfolding through(1)
      by (intro good_step_update [OF inv, where P = "\<lambda>j. j_id j = jobID" and f = "approved_row actor now"])
         (use inv dist ok only recordApproval_grows in
           \<open>auto simp: attempt_keys_def op intro!: good_row_same\<close>)
  qed
qed

definition leased_row :: "moment \<Rightarrow> job \<Rightarrow> job" where
  "leased_row now j = j\<lparr>j_state := StateLeased, j_wait_reason := [], j_updated_at := now\<rparr>"

lemma lease_one_simps:
  "jobs (lease_one gatewayID newID lease now jobID db)
     = sql_update (\<lambda>j. j_id j = jobID) (leased_row now) (jobs db)"
  "attempts_view (lease_one gatewayID newID lease now jobID db)
     = attempts_view db @ [(newID jobID, jobID, True)]"
  "approvals (lease_one gatewayID newID lease now jobID db) = approvals db"
  "budget (lease_one gatewayID newID lease now jobID db) = budget db"
  "owners (lease_one gatewayID newID lease now jobID db) = owners db"
  by (simp_all add: lease_one_def leased_row_def [abs_def] Let_def attempts_view_def new_attempt_def
      open_attempt_def)

lemma fold_lease_one:
  assumes "distinct ids"
  shows "jobs (fold (lease_one gatewayID newID lease now) ids db)
           = sql_update (\<lambda>j. j_id j \<in> set ids) (leased_row now) (jobs db)
    \<and> attempts_view (fold (lease_one gatewayID newID lease now) ids db)
           = attempts_view db @ map (\<lambda>i. (newID i, i, True)) ids
    \<and> approvals (fold (lease_one gatewayID newID lease now) ids db) = approvals db
    \<and> owners (fold (lease_one gatewayID newID lease now) ids db) = owners db"
  using assms
proof (induction ids arbitrary: db)
  case Nil
  then show ?case by (simp add: sql_update_def)
next
  case (Cons i ids)
  have "sql_update (\<lambda>j. j_id j \<in> set ids) (leased_row now)
      (sql_update (\<lambda>j. j_id j = i) (leased_row now) (jobs db))
    = sql_update (\<lambda>j. j_id j = i \<or> j_id j \<in> set ids) (leased_row now) (jobs db)"
    using Cons.prems by (intro sql_update_twice) (auto simp: leased_row_def)
  then show ?case
    using Cons.IH [of "lease_one gatewayID newID lease now i db"] Cons.prems
    by (simp add: lease_one_simps)
qed

lemma LeaseJobs_good:
  assumes inv: "store_inv db"
    and lease: "LeaseJobs gatewayID jobIDs locked newID leaseDuration now db = (r, db')"
  shows "good_step db db'"
proof -
  define take where "take j \<longleftrightarrow> queued_ready now j \<and> j_id j \<in> set jobIDs \<and> j_id j \<notin> set locked" for j
  define ids where "ids = map j_id (sort_key j_created_at (filter take (jobs db)))"
  have eq: "LeaseJobs gatewayID jobIDs locked newID leaseDuration now db =
      (if \<not> distinct (map newID ids @ map at_id (attempts db)) then (Inl ErrQuery, db)
       else (Inr ids, fold (lease_one gatewayID newID leaseDuration now) ids db))"
    unfolding LeaseJobs_def Let_def ids_def take_def [abs_def] by (rule refl)
  have key: "keyed db" using inv by (simp add: store_inv_def)
  have dist: "distinct ids" unfolding ids_def by (rule distinct_ids_sorted [OF key])
  show ?thesis
  proof (cases "distinct (map newID ids @ map at_id (attempts db))")
    case False
    then show ?thesis
      using lease good_step_quiet [OF inv quiet_step_refl] unfolding eq if_P [OF False] by simp
  next
    case True
    let ?f = "fold (lease_one gatewayID newID leaseDuration now) ids db"
    have db': "db' = ?f"
      using lease True unfolding eq by simp
    have js: "jobs db' = sql_update (\<lambda>j. j_id j \<in> set ids) (leased_row now) (jobs db)"
      and av: "attempts_view db' = attempts_view db @ map (\<lambda>i. (newID i, i, True)) ids"
      and ap: "approvals db' = approvals db" and ow: "owners db' = owners db"
      using fold_lease_one [OF dist] by (simp_all add: db')
    have in_ids: "j_id j \<in> set ids \<longleftrightarrow> take j" if "j \<in> set (jobs db)" for j
      using that keyed_row_unique [OF key that] by (auto simp: ids_def)
    have count: "length (filter (\<lambda>x. x = i) ids) = (if i \<in> set ids then 1 else 0)" for i
      using dist by (induction ids) (auto simp: filter_empty_conv)
    have op: "opens db' i = opens db i + (if i \<in> set ids then 1 else 0)" for i
      by (simp add: opens_view av filter_map comp_def count)
    have ok: "ok_opens (j_state j) (opens db (j_id j))" if "j \<in> set (jobs db)" for j
      using inv that by (simp add: store_inv_def)
    have row: "good_row db db' j (leased_row now j)" if "j \<in> set (jobs db)" "j_id j \<in> set ids" for j
    proof -
      have q: "j_state j = StateQueued"
        using that in_ids by (simp add: take_def queued_ready_def)
      have "approved_enough db j" using inv that(1) by (simp add: store_inv_def)
      then show ?thesis
        using q ok [OF that(1)] that(2)
        by (simp add: good_row_def leased_row_def moved_ok_def step_move_def CanTransition_iff
            op ok_opens_def approved_enough_def ungated_def approvals_of_def ap)
    qed
    have rest: "good_row db db' j j" if "j \<in> set (jobs db)" "j_id j \<notin> set ids" for j
      using that ok inv by (intro good_row_same) (auto simp: op approvals_of_def ap)
    have rel: "list_all2 (good_row db db') (jobs db) (jobs db')"
      unfolding js sql_update_def using row rest by (simp add: list_all2_map2 list.rel_refl_strong)
    have "map j_id (jobs db') = map j_id (jobs db)"
      unfolding js by (rule map_sql_update) (simp add: leased_row_def)
    moreover have "map fst (attempts_view db') = map at_id (attempts db) @ map newID ids"
      unfolding av by (simp add: comp_def) (simp add: attempts_view_def)
    then have "distinct (map fst (attempts_view db'))"
      using True by (simp only: distinct_append) blast
    ultimately have "keyed db'"
      using key by (simp add: keyed_view)
    moreover have "(\<exists>a0 \<in> set (attempts db). at_job a0 = at_job a)
        \<or> (\<exists>j \<in> set (jobs db'). j_id j = at_job a \<and> HoldsLease (j_state j))"
      if "a \<in> set (attempts db')" for a
    proof -
      have "(at_id a, at_job a, open_attempt a) \<in> set (attempts_view db')"
        using that by (auto simp: attempts_view_def)
      then have "(at_id a, at_job a, open_attempt a) \<in> set (attempts_view db) \<or> at_job a \<in> set ids"
        by (auto simp: av)
      then have "(\<exists>a0 \<in> set (attempts db). at_job a0 = at_job a) \<or> at_job a \<in> set ids"
        by (auto simp: attempts_view_def)
      then consider "\<exists>a0 \<in> set (attempts db). at_job a0 = at_job a" | "at_job a \<in> set ids"
        by blast
      then show ?thesis
      proof cases
        case 2
        then obtain j where "j \<in> set (jobs db)" "j_id j = at_job a"
          by (auto simp: ids_def)
        then have "leased_row now j \<in> set (jobs db')"
          using 2 by (auto simp: js set_sql_update)
        then show ?thesis
          using \<open>j_id j = at_job a\<close> by (intro disjI2 bexI [of _ "leased_row now j"]) (simp_all add: leased_row_def)
      qed simp
    qed
    ultimately show ?thesis
      using rel inv unfolding good_step_def
      by (intro conjI exI [of _ "jobs db'"] exI [of _ "[]"]) (auto simp: store_inv_def ap ow)
  qed
qed

section \<open>Operations that close attempts\<close>

definition closed_by :: "(attempt \<Rightarrow> bool) \<Rightarrow> job_db \<Rightarrow> job_db \<Rightarrow> bool" where
  "closed_by A db db' \<longleftrightarrow>
     attempts_view db' = map (\<lambda>a. (at_id a, at_job a, open_attempt a \<and> \<not> A a)) (attempts db)"

definition closing :: "(attempt \<Rightarrow> attempt) \<Rightarrow> bool" where
  "closing g \<longleftrightarrow> (\<forall>a. at_id (g a) = at_id a \<and> at_job (g a) = at_job a \<and> \<not> open_attempt (g a))"

lemma closed_by_none: "attempts db' = attempts db \<Longrightarrow> closed_by (\<lambda>_. False) db db'"
  by (simp add: closed_by_def attempts_view_def)

lemma closed_by_update:
  "attempts db' = sql_update A g (attempts db) \<Longrightarrow> closing g \<Longrightarrow> closed_by A db db'"
  by (simp add: closed_by_def attempts_view_def sql_update_def closing_def)

lemma closed_by_update2:
  assumes "attempts db' = sql_update B h (sql_update A g (attempts db))" and "closing g" and "closing h"
    and "\<And>a. A a \<Longrightarrow> \<not> B (g a)"
  shows "closed_by (\<lambda>a. A a \<or> B a) db db'"
  using assms by (auto simp: closed_by_def attempts_view_def sql_update_def closing_def)

lemma closed_by_keys: "closed_by A db db' \<Longrightarrow> attempt_keys db' = attempt_keys db"
proof -
  assume "closed_by A db db'"
  then have "map (\<lambda>(i, j, _). (i, j)) (attempts_view db') = map (\<lambda>a. (at_id a, at_job a)) (attempts db)"
    by (simp add: closed_by_def)
  then show ?thesis
    by (simp add: attempts_view_def attempt_keys_def comp_def)
qed

lemma opens_closed:
  "closed_by A db db' \<Longrightarrow>
   opens db' i = length (filter (\<lambda>a. at_job a = i \<and> open_attempt a \<and> \<not> A a) (attempts db))"
  by (simp add: opens_view closed_by_def filter_map comp_def)

lemma opens_closed_le: "closed_by A db db' \<Longrightarrow> opens db' i \<le> opens db i"
proof -
  have "length (filter (\<lambda>a. at_job a = i \<and> open_attempt a \<and> \<not> A a) as)
      \<le> length (filter (\<lambda>a. at_job a = i \<and> open_attempt a) as)" for as :: "attempt list"
    by (induction as) auto
  then show "closed_by A db db' \<Longrightarrow> opens db' i \<le> opens db i"
    by (simp add: opens_closed) (simp add: opens_def)
qed

lemma opens_closed_other:
  assumes "closed_by A db db'"
    and "\<And>a. a \<in> set (attempts db) \<Longrightarrow> A a \<Longrightarrow> open_attempt a \<Longrightarrow> at_job a \<noteq> i"
  shows "opens db' i = opens db i"
proof -
  have "filter (\<lambda>a. at_job a = i \<and> open_attempt a \<and> \<not> A a) (attempts db)
      = filter (\<lambda>a. at_job a = i \<and> open_attempt a) (attempts db)"
    using assms(2) by (intro filter_cong) auto
  then show ?thesis
    by (simp add: opens_closed [OF assms(1)]) (simp add: opens_def)
qed

lemma opens_closed_last:
  assumes "closed_by A db db'" and "opens db i \<le> 1"
    and a: "a \<in> set (attempts db)" "A a" "open_attempt a" "at_job a = i"
  shows "opens db' i = 0"
proof -
  let ?open = "filter (\<lambda>a. at_job a = i \<and> open_attempt a) (attempts db)"
  have "a \<in> set ?open" and "length ?open \<le> 1"
    using a assms(2) by (auto simp: opens_def)
  then have "?open = [a]"
    by (cases ?open) auto
  then have "filter (\<lambda>b. \<not> A b) ?open = []"
    using a(2) by simp
  then show ?thesis
    by (simp add: opens_closed [OF assms(1)])
qed

lemma ok_opens_le: "ok_opens s n \<Longrightarrow> n \<le> 1"
  by (auto simp: ok_opens_def split: if_splits)

text \<open>The row a settling or a requeueing operation leaves behind.\<close>

definition ended_row :: "job_db \<Rightarrow> job_db \<Rightarrow> job \<Rightarrow> job \<Rightarrow> bool" where
  "ended_row db db' j j' =
     (j_id j' = j_id j \<and> j_order j' = j_order j \<and> moved_ok db j (j_state j')
      \<and> \<not> ungated (j_state j) \<and> \<not> job_holds db' (j_id j)
      \<and> (Terminal (j_state j') \<or> j_state j' = StateQueued \<and> opens db' (j_id j) = 0))"

lemma closing_good:
  assumes inv: "store_inv db" and js: "jobs db' = sql_update P f (jobs db)"
    and cl: "closed_by A db db'" and ap: "approvals db' = approvals db"
    and ow: "owners db' = owners db"
    and hit: "\<And>j. j \<in> set (jobs db) \<Longrightarrow> P j \<Longrightarrow> ended_row db db' j (f j)"
    and rest: "\<And>j a. j \<in> set (jobs db) \<Longrightarrow> \<not> P j \<Longrightarrow> a \<in> set (attempts db) \<Longrightarrow> A a \<Longrightarrow>
        open_attempt a \<Longrightarrow> at_job a = j_id j \<Longrightarrow> Terminal (j_state j)"
  shows "good_step db db'"
proof (rule good_step_update [OF inv js closed_by_keys [OF cl]])
  show "distinct (map (\<lambda>a. (ap_job a, ap_approver a)) (approvals db'))"
    using inv by (simp add: ap store_inv_def)
next
  fix j assume j: "j \<in> set (jobs db)" and "P j"
  then have e: "ended_row db db' j (f j)" by (rule hit)
  have inv_j: "ok_opens (j_state j) (opens db (j_id j))" "approved_enough db j"
    using inv j by (simp_all add: store_inv_def)
  have "opens db' (j_id j) \<le> 1"
    using opens_closed_le [OF cl] ok_opens_le [OF inv_j(1)] by (meson le_trans)
  then have "ok_opens (j_state (f j)) (opens db' (j_id j))"
    using e Terminal_not_HoldsLease [of "j_state (f j)"] by (auto simp: ended_row_def ok_opens_def)
  moreover have "approved_enough db' (f j)"
    using e inv_j(2) by (simp add: ended_row_def approved_enough_def approvals_of_def ap)
  ultimately show "good_row db db' j (f j)"
    using e by (auto simp: good_row_def ended_row_def)
next
  fix j assume j: "j \<in> set (jobs db)" and P: "\<not> P j"
  have ok: "ok_opens (j_state j) (opens db (j_id j))"
    using inv j by (simp add: store_inv_def)
  have "ok_opens (j_state j) (opens db' (j_id j))"
  proof (cases "Terminal (j_state j)")
    case True
    then show ?thesis
      using ok opens_closed_le [OF cl, of "j_id j"] Terminal_not_HoldsLease [OF True]
      by (simp add: ok_opens_def)
  next
    case False
    then have "opens db' (j_id j) = opens db (j_id j)"
      using rest [OF j P] by (intro opens_closed_other [OF cl]) blast
    then show ?thesis using ok by simp
  qed
  then show "good_row db db' j j"
    by (rule good_row_same [OF inv j]) (simp add: approvals_of_def ap)
qed (rule ow)

lemma failed_row_simps [simp]:
  "j_id (failed_row st c m now j) = j_id j" "j_order (failed_row st c m now j) = j_order j"
  "j_state (failed_row st c m now j) = StateFailed"
  by (simp_all add: failed_row_def)

lemma result_row_simps [simp]:
  "j_id (result_row r st now j) = j_id j" "j_order (result_row r st now j) = j_order j"
  "j_state (result_row r st now j) = st"
  by (simp_all add: result_row_def)

lemma closing_attempts [simp]:
  "closing (close_attempt st c m now)" "closing (released_attempt reason now)"
  "closing (settled_attempt result maxOutput now)" "closing (late_attempt result now)"
  "closing (superseded_attempt now)" "closing (expired_attempt now)"
  by (simp_all add: closing_def open_attempt_def close_attempt_def released_attempt_def
      settled_attempt_def late_attempt_def superseded_attempt_def expired_attempt_def split_beta)

lemma inv_job_unique:
  "store_inv db \<Longrightarrow> i \<in> set (jobs db) \<Longrightarrow> j \<in> set (jobs db) \<Longrightarrow> j_id i = j_id j \<Longrightarrow> i = j"
  unfolding store_inv_def using keyed_row_unique by blast

lemma inv_opens: "store_inv db \<Longrightarrow> j \<in> set (jobs db) \<Longrightarrow> ok_opens (j_state j) (opens db (j_id j))"
  by (simp add: store_inv_def)

definition attempt_of :: "job_db \<Rightarrow> string \<Rightarrow> string \<Rightarrow> bool" where
  "attempt_of db attemptID jobID =
     list_all (\<lambda>a. at_id a = attemptID \<longrightarrow> at_job a = jobID) (attempts db)"

definition current_attempt :: "job_db \<Rightarrow> string \<Rightarrow> string \<Rightarrow> bool" where
  "current_attempt db attemptID jobID =
     (attempt_of db attemptID jobID
      \<and> list_ex (\<lambda>a. at_id a = attemptID \<and> open_attempt a) (attempts db))"

lemma FailUndelivered_good:
  assumes inv: "store_inv db" and "attempt_of db attemptID jobID"
  shows "good_step db (FailUndelivered jobID attemptID errCode message now db)"
proof -
  let ?hit = "\<lambda>j. j_id j = jobID \<and> j_state j \<in> set [StateLeased, StateDispatched]"
  show ?thesis
  proof (cases "list_ex ?hit (jobs db)")
    case False
    then show ?thesis
      using good_step_quiet [OF inv quiet_step_refl] unfolding FailUndelivered_def Let_def by simp
  next
    case True
    then obtain j0 where j0: "j0 \<in> set (jobs db)" "?hit j0"
      by (auto simp: list_ex_iff)
    let ?db' = "releaseBudgets [jobID] (update_attempts (\<lambda>a. at_id a = attemptID)
        (close_attempt ''failed'' errCode message now)
        (update_jobs ?hit (failed_row ''failed'' errCode message now) db))"
    have "good_step db ?db'"
    proof (rule closing_good [OF inv, where P = ?hit and f = "failed_row ''failed'' errCode message now"
          and A = "\<lambda>a. at_id a = attemptID"])
      show "closed_by (\<lambda>a. at_id a = attemptID) db ?db'"
        by (rule closed_by_update) (simp, simp only: closing_attempts)
    next
      fix j assume "j \<in> set (jobs db)" and "?hit j"
      then show "ended_row db ?db' j (failed_row ''failed'' errCode message now j)"
        by (auto simp: ended_row_def moved_ok_def step_move_def CanTransition_iff ungated_def)
    next
      fix j a assume "j \<in> set (jobs db)" "\<not> ?hit j" "a \<in> set (attempts db)" "at_id a = attemptID"
        "at_job a = j_id j"
      then show "Terminal (j_state j)"
        using assms(2) inv_job_unique [OF inv j0(1), of j] j0(2)
        by (auto simp: attempt_of_def list_all_iff)
    qed simp_all
    then show ?thesis
      using True unfolding FailUndelivered_def Let_def by simp
  qed
qed

lemma ReleaseLease_good:
  assumes inv: "store_inv db" and cur: "current_attempt db attemptID jobID"
  shows "good_step db (ReleaseLease jobID attemptID reason now db)"
proof -
  let ?hit = "\<lambda>j. j_id j = jobID \<and> j_state j \<in> set [StateLeased, StateDispatched]"
  let ?queue = "\<lambda>j. j\<lparr>j_state := StateQueued, j_updated_at := now\<rparr>"
  show ?thesis
  proof (cases "list_ex ?hit (jobs db)")
    case False
    then show ?thesis
      using good_step_quiet [OF inv quiet_step_refl] unfolding ReleaseLease_def Let_def by simp
  next
    case True
    then obtain j0 where j0: "j0 \<in> set (jobs db)" "?hit j0"
      by (auto simp: list_ex_iff)
    obtain a0 where a0: "a0 \<in> set (attempts db)" "at_id a0 = attemptID" "open_attempt a0" "at_job a0 = jobID"
      using cur by (auto simp: current_attempt_def attempt_of_def list_ex_iff list_all_iff)
    let ?db' = "releaseBudgets [jobID] (update_attempts (\<lambda>a. at_id a = attemptID)
        (released_attempt reason now) (update_jobs ?hit ?queue db))"
    have cl: "closed_by (\<lambda>a. at_id a = attemptID) db ?db'"
      by (rule closed_by_update) (simp, simp only: closing_attempts)
    have "good_step db ?db'"
    proof (rule closing_good [OF inv, where P = ?hit and f = ?queue, OF _ cl])
      fix j assume j: "j \<in> set (jobs db)" and hit: "?hit j"
      have "opens ?db' jobID = 0"
        using a0 ok_opens_le [OF inv_opens [OF inv j]] hit by (intro opens_closed_last [OF cl]) auto
      then show "ended_row db ?db' j (?queue j)"
        using hit by (auto simp: ended_row_def moved_ok_def step_move_def CanTransition_iff ungated_def)
    next
      fix j a assume "j \<in> set (jobs db)" "\<not> ?hit j" "a \<in> set (attempts db)" "at_id a = attemptID"
        "at_job a = j_id j"
      then show "Terminal (j_state j)"
        using cur inv_job_unique [OF inv j0(1), of j] j0(2)
        by (auto simp: current_attempt_def attempt_of_def list_all_iff)
    qed simp_all
    then show ?thesis
      using True unfolding ReleaseLease_def Let_def by simp
  qed
qed

lemma SettleCancelTimeouts_good:
  assumes inv: "store_inv db" and "SettleCancelTimeouts locked now db = (ids, db')"
  shows "good_step db db'"
proof -
  define overdue where "overdue j \<longleftrightarrow> j_state j = StateCancelRequested \<and> j_id j \<notin> set locked
      \<and> (case j_cancel_requested_at j of None \<Rightarrow> False
         | Some t \<Rightarrow> t + o_timeout (j_order j) * Second < now)" for j :: job
  let ?A = "\<lambda>a. at_job a \<in> set (map j_id (filter overdue (jobs db))) \<and> open_attempt a"
  obtain f g where db': "db' = releaseBudgets (map j_id (filter overdue (jobs db)))
      (update_jobs overdue f (update_attempts ?A g db))"
    and f: "\<And>j. j_id (f j) = j_id j \<and> j_order (f j) = j_order j \<and> j_state (f j) = StateFailed"
    and g: "closing g"
    using assms(2) unfolding SettleCancelTimeouts_def Let_def overdue_def [abs_def]
    by (auto simp del: set_map)
  show ?thesis
  proof (rule closing_good [OF inv, where P = overdue and f = f and A = ?A])
    show "closed_by ?A db db'"
      by (rule closed_by_update [OF _ g]) (simp add: db')
  next
    fix j assume "j \<in> set (jobs db)" and "overdue j"
    then show "ended_row db db' j (f j)"
      using f by (auto simp: db' ended_row_def moved_ok_def step_move_def CanTransition_iff
          ungated_def overdue_def)
  next
    fix j a assume "j \<in> set (jobs db)" "\<not> overdue j" "?A a" "at_job a = j_id j"
    then show "Terminal (j_state j)"
      using inv_job_unique [OF inv, of j] by auto
  qed (simp_all add: db')
qed

lemma reclaimed_row_simps [simp]:
  "j_id (reclaimed_row now j) = j_id j" "j_order (reclaimed_row now j) = j_order j"
  by (simp_all add: reclaimed_row_def)

lemma reclaimed_row_state:
  "j_state (reclaimed_row now j) = StateFailed \<or>
   j_state (reclaimed_row now j) = StateQueued \<and> j_state j \<noteq> StateCancelRequested"
  by (simp add: reclaimed_row_def)

lemma reclaimed_move:
  assumes "HoldsLease (j_state j)"
  shows "moved_ok db j (j_state (reclaimed_row now j))"
proof -
  have "CanTransition s StateFailed \<and> (s \<noteq> StateCancelRequested \<longrightarrow> CanTransition s StateQueued)"
    if "HoldsLease s" for s
    using that by (cases s) (simp_all add: CanTransition_iff)
  with assms reclaimed_row_state [of now j] show ?thesis
    by (auto simp: moved_ok_def step_move_def)
qed

lemma ReclaimExpiredLeases_good:
  assumes inv: "store_inv db" and "ReclaimExpiredLeases locked lockedJobs now db = (n, db')"
  shows "good_step db db'"
proof -
  define expired where "expired a \<longleftrightarrow> lease_ran_out db now a \<and> at_id a \<notin> set locked" for a
  define reclaimed where "reclaimed j \<longleftrightarrow> list_ex (\<lambda>a. expired a \<and> at_job a = j_id j) (attempts db)
      \<or> stranded db j \<and> j_id j \<notin> set lockedJobs" for j
  have db': "db' = releaseBudgets (map j_id (filter reclaimed (jobs db)))
      (update_jobs reclaimed (reclaimed_row now) (update_attempts expired (expired_attempt now) db))"
    using assms(2) unfolding ReclaimExpiredLeases_def Let_def reclaimed_def [abs_def] expired_def [abs_def]
    by simp
  have cl: "closed_by expired db db'"
    by (rule closed_by_update [where g = "expired_attempt now"]) (simp_all add: db')
  have carried: "\<not> stranded db j" if "j \<in> set (jobs db)" for j
  proof
    assume "stranded db j"
    then have "HoldsLease (j_state j)" and "opens db (j_id j) = 0"
      by (auto simp: stranded_def opens_def filter_empty_conv list_ex_iff)
    then show False using inv_opens [OF inv that] by (simp add: ok_opens_def)
  qed
  show ?thesis
  proof (rule closing_good [OF inv, where P = reclaimed and f = "reclaimed_row now", OF _ cl])
    fix j assume j: "j \<in> set (jobs db)" and "reclaimed j"
    then obtain a where a: "a \<in> set (attempts db)" "expired a" "at_job a = j_id j"
      using carried by (auto simp: reclaimed_def list_ex_iff)
    then obtain i where "i \<in> set (jobs db)" "j_id i = j_id j" "HoldsLease (j_state i)" and op: "open_attempt a"
      by (auto simp: expired_def lease_ran_out_def list_ex_iff)
    then have holds: "HoldsLease (j_state j)"
      using inv_job_unique [OF inv j, of i] by simp
    have "opens db' (j_id j) = 0"
      using a op ok_opens_le [OF inv_opens [OF inv j]] by (intro opens_closed_last [OF cl]) auto
    then show "ended_row db db' j (reclaimed_row now j)"
      using holds reclaimed_move [OF holds] reclaimed_row_state [of now j] j \<open>reclaimed j\<close>
      by (auto simp: db' ended_row_def ungated_def)
  next
    fix j a assume "\<not> reclaimed j" "a \<in> set (attempts db)" "expired a" "at_job a = j_id j"
    then show "Terminal (j_state j)"
      by (auto simp: reclaimed_def list_ex_iff)
  qed (simp_all add: db')
qed

section \<open>Results\<close>

lemma lateResultDisposition_cases:
  "lateResultDisposition st = (st \<noteq> AttemptStatusSuperseded, st = AttemptStatusLeaseExpired)"
  by (simp add: lateResultDisposition_def AttemptStatusSuperseded_def AttemptStatusLeaseExpired_def)

definition settled_db ::
  "string \<Rightarrow> string \<Rightarrow> Result \<Rightarrow> State \<Rightarrow> int \<Rightarrow> bool \<Rightarrow> moment \<Rightarrow> job_db \<Rightarrow> job_db" where
  "settled_db jobID attemptID result jobState maxOutput supersedes now db =
     (let db1 = update_attempts (\<lambda>a. at_id a = attemptID) (settled_attempt result maxOutput now) db;
          db2 = (if supersedes
                 then update_attempts (\<lambda>a. at_job a = jobID \<and> at_id a \<noteq> attemptID \<and> open_attempt a)
                        (superseded_attempt now) db1
                 else db1);
          db3 = update_jobs (\<lambda>j. j_id j = jobID) (result_row result jobState now) db2
      in if Terminal jobState then releaseBudgets [jobID] db3 else db3)"

lemma RecordResult_cases:
  assumes "RecordResult jobID attemptID result jobState fence trail now db = (r, db')"
  obtains (unchanged) "db' = db" "r \<noteq> Inr True"
  | (late) j where "get_job db jobID = Some j" "Terminal (j_state j)" "r = Inr False"
      "db' = update_attempts (\<lambda>a. at_id a = attemptID \<and> open_attempt a) (late_attempt result now) db"
  | (settled) j a where "get_job db jobID = Some j" "get_attempt db attemptID = Some a"
      "r = Inr True" "fenceHolds db jobID fence now" "at_status a \<noteq> AttemptStatusSuperseded"
      "fateOfResult (j_state j) jobState (at_status a = AttemptStatusLeaseExpired) = fateSettles"
      "db' = settled_db jobID attemptID result jobState (o_max_output (j_order j))
               (at_status a = AttemptStatusLeaseExpired) now db"
proof (cases "get_job db jobID")
  case None
  with assms unchanged show thesis by (auto simp: RecordResult_def)
next
  case (Some j)
  note job = Some
  show thesis
  proof (cases "get_attempt db attemptID")
    case None
    with assms job unchanged show thesis by (auto simp: RecordResult_def)
  next
    case (Some a)
    let ?late = "at_status a = AttemptStatusLeaseExpired"
    let ?fate = "fateOfResult (j_state j) jobState ?late"
    show thesis
    proof (cases "at_status a \<noteq> AttemptStatusSuperseded \<and> ?fate = fateSettles")
      case True
      show thesis
      proof (cases "fenceHolds db jobID fence now \<and> trail = None")
        case ok: True
        then have "r = Inr True" "db' = settled_db jobID attemptID result jobState
            (o_max_output (j_order j)) ?late now db"
          using assms job Some True
          by (simp_all add: RecordResult_def lateResultDisposition_cases settled_db_def Let_def)
        with settled [OF job Some] ok True show thesis by blast
      next
        case False
        with assms job Some True unchanged show thesis
          by (auto simp: RecordResult_def lateResultDisposition_cases Let_def split: if_splits option.splits)
      qed
    next
      case False
      with assms job Some unchanged late [OF job] show thesis
        by (auto simp: RecordResult_def lateResultDisposition_cases Let_def closesTheAttempt_def
            split: if_splits)
    qed
  qed
qed

lemma settled_db_simps [simp]:
  "jobs (settled_db jobID attemptID result jobState m late now db)
     = sql_update (\<lambda>j. j_id j = jobID) (result_row result jobState now) (jobs db)"
  "approvals (settled_db jobID attemptID result jobState m late now db) = approvals db"
  "owners (settled_db jobID attemptID result jobState m late now db) = owners db"
  by (simp_all add: settled_db_def Let_def)

lemma settled_db_closed:
  "\<exists>A. closed_by A db (settled_db jobID attemptID result jobState m late now db)
    \<and> (\<forall>a. A a \<longrightarrow> at_id a = attemptID \<or> at_job a = jobID)"
proof (cases late)
  case True
  then have "attempts (settled_db jobID attemptID result jobState m late now db)
      = sql_update (\<lambda>a. at_job a = jobID \<and> at_id a \<noteq> attemptID \<and> open_attempt a) (superseded_attempt now)
          (sql_update (\<lambda>a. at_id a = attemptID) (settled_attempt result m now) (attempts db))"
    by (simp add: settled_db_def Let_def)
  from closed_by_update2 [OF this closing_attempts(3,5)] show ?thesis
    using closing_attempts(3) [of result m now] unfolding closing_def
    by (intro exI conjI) (assumption | simp)+
next
  case False
  then have "attempts (settled_db jobID attemptID result jobState m late now db)
      = sql_update (\<lambda>a. at_id a = attemptID) (settled_attempt result m now) (attempts db)"
    by (simp add: settled_db_def Let_def)
  from closed_by_update [OF this closing_attempts(3)] show ?thesis by blast
qed

lemma RecordResult_good:
  assumes inv: "store_inv db" and own: "attempt_of db attemptID jobID" and fin: "Terminal jobState"
    and rec: "RecordResult jobID attemptID result jobState fence trail now db = (r, db')"
  shows "good_step db db'"
  using rec
proof (cases rule: RecordResult_cases)
  case unchanged
  then show ?thesis using good_step_quiet [OF inv quiet_step_refl] by simp
next
  case (late j)
  let ?A = "\<lambda>a. at_id a = attemptID \<and> open_attempt a"
  have cl: "closed_by ?A db db'"
    by (rule closed_by_update [where g = "late_attempt result now"]) (simp_all add: late(4))
  show ?thesis
  proof (rule closing_good [OF inv, where P = "\<lambda>_. False" and f = id, OF _ cl])
    fix i a assume "i \<in> set (jobs db)" "a \<in> set (attempts db)" "?A a" "at_job a = j_id i"
    then have "j_id i = jobID"
      using own by (auto simp: attempt_of_def list_all_iff)
    then have "i = j"
      using get_job_SomeD [OF late(1)] inv_job_unique [OF inv \<open>i \<in> set (jobs db)\<close>, of j] by simp
    then show "Terminal (j_state i)" using late(2) by simp
  qed (simp_all add: late(4) sql_update_def)
next
  case (settled j a)
  obtain A where cl: "closed_by A db db'"
    and A: "\<forall>a. A a \<longrightarrow> at_id a = attemptID \<or> at_job a = jobID"
    using settled_db_closed [of db jobID attemptID result jobState "o_max_output (j_order j)"
        "at_status a = AttemptStatusLeaseExpired" now] unfolding settled(7) by blast
  have j: "j \<in> set (jobs db)" "j_id j = jobID" using get_job_SomeD [OF settled(1)] by auto
  have a: "a \<in> set (attempts db)" "at_id a = attemptID"
    using settled(2) by (auto simp: get_attempt_def dest: sql_get_SomeD)
  then have job: "at_job a = jobID" using own by (simp add: attempt_of_def list_all_iff)
  have only: "i = j" if "i \<in> set (jobs db)" "j_id i = jobID" for i
    using inv_job_unique [OF inv that(1) j(1)] that(2) j(2) by simp
  have nt: "\<not> Terminal (j_state j)" using settled(6) by (simp add: fateOfResult_settles)
  obtain i where "i \<in> set (jobs db)" "j_id i = jobID" "j_state i \<notin> set [StatePlanned, StateAwaitingApproval]"
    using inv a(1) job unfolding store_inv_def by metis
  then have ung: "\<not> ungated (j_state j)"
    using only nt by (auto simp: ungated_def)
  have "moved_ok db j jobState"
    using settled(6) nt fin a job j(2)
    by (auto simp: fateOfResult_settles moved_ok_def step_move_def given_up_def list_ex_iff)
  then have row: "ended_row db db' j (result_row result jobState now j)"
    using ung fin j(2) by (simp add: ended_row_def settled(7) settled_db_def Let_def)
  show ?thesis
  proof (rule closing_good [OF inv, where P = "\<lambda>j. j_id j = jobID" and f = "result_row result jobState now", OF _ cl])
    fix i b assume "i \<in> set (jobs db)" "j_id i \<noteq> jobID" "b \<in> set (attempts db)" "A b" "at_job b = j_id i"
    then show "Terminal (j_state i)"
      using A own by (auto simp: attempt_of_def list_all_iff)
  qed (use only row in \<open>auto simp: settled(7)\<close>)
qed

end
