(* ===== verification/Job_Properties.thy ===== *)
theory Job_Properties
  imports Job_Runs
begin

text \<open>
  The step relation of the job store and the properties of its runs, with a concrete run that
  shows each hypothesis can hold.
\<close>

section \<open>Steps\<close>

text \<open>
  One rule for each operation that writes. A result names an attempt of its job and a final
  state, as its callers do. The rule for \<open>ReleaseLease\<close> assumes something its code does not
  check: that a gateway takes a task back over the attempt that still carries it
  (\<open>current_attempt\<close>), not over one that was closed meanwhile; the theory \<open>Job_Outcomes\<close> shows what
  happens otherwise. The last two rules are the writes of other components: the sessions of
  the agents, and the grants and renewals of capacity.
\<close>

inductive job_step :: "job_db \<Rightarrow> job_db \<Rightarrow> bool" where
  js_create: "Create reg validate planBinding payloadHash jobID newKey spec now db = (r, db') \<Longrightarrow>
    job_step db db'"
| js_approve: "Approve jobID actor reason now db = (r, db') \<Longrightarrow> job_step db db'"
| js_cancel: "Cancel jobID actor reason now db = (r, db') \<Longrightarrow> job_step db db'"
| js_cancel_undelivered: "CancelUndelivered hostID actor reason now db = (n, db') \<Longrightarrow> job_step db db'"
| js_cancel_queued: "CancelQueuedOf campaignID actor reason keep now db = (ids, db') \<Longrightarrow> job_step db db'"
| js_request_cancel: "RequestCancelOf campaignID actor reason keep now db = (r, db') \<Longrightarrow> job_step db db'"
| js_lease: "LeaseJobs gatewayID jobIDs locked newID leaseDuration now db = (r, db') \<Longrightarrow> job_step db db'"
| js_wait_reason: "job_step db (SetWaitReason jobID reason now db)"
| js_dispatched: "MarkDispatchedWithLease jobID attemptID fence lease now db = (r, db') \<Longrightarrow> job_step db db'"
| js_handover: "job_step db (RecordHandover jobID attemptID sessionID now db)"
| js_accept: "AcceptAttempt attemptID hostID lease now db = (b, db') \<Longrightarrow> job_step db db'"
| js_lock_wait: "job_step db (SetLockWait attemptID hostID blocker now db)"
| js_running: "MarkRunning attemptID hostID now db = (r, db') \<Longrightarrow> job_step db db'"
| js_fail: "attempt_of db attemptID jobID \<Longrightarrow>
    job_step db (FailUndelivered jobID attemptID errCode message now db)"
| js_release: "current_attempt db attemptID jobID \<Longrightarrow>
    job_step db (ReleaseLease jobID attemptID reason now db)"
| js_renew: "RenewAttemptLease attemptID hostID extension now db = (b, db') \<Longrightarrow> job_step db db'"
| js_result: "attempt_of db attemptID jobID \<Longrightarrow> Terminal jobState \<Longrightarrow>
    RecordResult jobID attemptID result jobState fence trail now db = (r, db') \<Longrightarrow> job_step db db'"
| js_reclaim: "ReclaimExpiredLeases locked lockedJobs now db = (n, db') \<Longrightarrow> job_step db db'"
| js_expire: "ExpireOverdue now db = (n, db') \<Longrightarrow> job_step db db'"
| js_cancel_ack: "RecordCancelAck jobID revision outcome phase fence now db = (r, db') \<Longrightarrow> job_step db db'"
| js_cancel_timeouts: "SettleCancelTimeouts locked now db = (ids, db') \<Longrightarrow> job_step db db'"
| js_claim: "ClaimSession hostID sessionID instanceID ttl now db = (r, db') \<Longrightarrow> job_step db db'"
| js_renew_owner: "RenewOwnership hostID sessionID instanceID token ttl now db = (r, db') \<Longrightarrow> job_step db db'"
| js_release_owner: "ReleaseOwnership hostID sessionID token db = (r, db') \<Longrightarrow> job_step db db'"
| js_sweep_owners: "job_step db (SweepExpiredOwners now db)"
| js_sessions: "job_step db (db\<lparr>sessions := ss\<rparr>)"
| js_budget: "job_step db (db\<lparr>budget := b\<rparr>)"

section \<open>Ownership\<close>

definition token_of :: "job_db \<Rightarrow> string \<Rightarrow> int" where
  "token_of db hostID = (case sql_get ow_host hostID (owners db) of None \<Rightarrow> 0 | Some ow \<Rightarrow> ow_token ow)"

definition owners_inv :: "job_db \<Rightarrow> bool" where
  "owners_inv db = (distinct (map ow_host (owners db)) \<and> (\<forall>ow \<in> set (owners db). 0 < ow_token ow))"

text \<open>An ownership operation leaves the jobs alone, and no token goes back.\<close>

definition owner_step :: "job_db \<Rightarrow> job_db \<Rightarrow> bool" where
  "owner_step db db' =
     (jobs db' = jobs db \<and> attempts db' = attempts db \<and> approvals db' = approvals db
      \<and> (owners_inv db \<longrightarrow> owners_inv db' \<and> (\<forall>h. token_of db h \<le> token_of db' h)))"

lemma owner_step_update:
  assumes "\<And>ow. ow_host (f ow) = ow_host ow \<and> ow_token (f ow) = ow_token ow"
  shows "owner_step db (db\<lparr>owners := sql_update P f (owners db)\<rparr>)"
proof -
  have "token_of (db\<lparr>owners := sql_update P f (owners db)\<rparr>) h = token_of db h" for h
    using assms by (auto simp: token_of_def sql_get_update split: option.splits)
  moreover have "map ow_host (sql_update P f (owners db)) = map ow_host (owners db)"
    using assms by (intro map_sql_update) simp
  ultimately show ?thesis
    using assms by (auto simp: owner_step_def owners_inv_def set_sql_update)
qed

definition claimed_row :: "string \<Rightarrow> string \<Rightarrow> moment \<Rightarrow> moment \<Rightarrow> owner_row \<Rightarrow> owner_row" where
  "claimed_row sessionID instanceID until now ow =
     ow\<lparr>ow_token := ow_token ow + 1, ow_session := sessionID, ow_instance := instanceID,
        ow_lease_until := Some until, ow_connected_at := now, ow_revision := ow_revision ow + 1\<rparr>"

lemma ClaimSession_cases:
  assumes "ClaimSession hostID sessionID instanceID ttl now db = (r, db')"
  obtains "db' = db" "\<forall>t. r \<noteq> Inr t"
  | r0 where "hostID \<noteq> []" "sessionID \<noteq> []" "r = Inr (word_of_int (token_of db hostID + 1))"
      "token_of db hostID + 1 < 2 ^ 63"
      "ow_host r0 = hostID" "ow_token r0 = 1" "ow_session r0 = sessionID" "ow_lease_until r0 = Some (now + ttl)"
      "db' = db\<lparr>owners := sql_upsert ow_host (claimed_row sessionID instanceID (now + ttl) now) r0 (owners db)\<rparr>"
proof (cases "hostID = [] \<or> sessionID = [] \<or> instanceID = [] \<or> 2 ^ 63 \<le> token_of db hostID + 1")
  case True
  with assms that(1) show thesis
    by (auto simp: ClaimSession_def Let_def token_of_def split: if_splits option.splits)
next
  case False
  let ?r0 = "\<lparr>ow_host = hostID, ow_token = 1, ow_session = sessionID, ow_instance = instanceID,
      ow_lease_until = Some (now + ttl), ow_connected_at = now, ow_revision = 1\<rparr>"
  have tok: "(case sql_get ow_host hostID (owners db) of None \<Rightarrow> 1 | Some ow \<Rightarrow> ow_token ow + 1)
      = token_of db hostID + 1"
    by (simp add: token_of_def split: option.splits)
  have "r = Inr (word_of_int (token_of db hostID + 1))
    \<and> db' = db\<lparr>owners := sql_upsert ow_host (claimed_row sessionID instanceID (now + ttl) now) ?r0 (owners db)\<rparr>"
    using assms False unfolding ClaimSession_def tok Let_def claimed_row_def [abs_def] by simp
  with False that(2) [of ?r0] show thesis by simp
qed

lemma claimed_row_host [simp]: "ow_host (claimed_row s i u n ow) = ow_host ow"
  by (simp add: claimed_row_def)

lemma ClaimSession_token:
  assumes "ClaimSession hostID sessionID instanceID ttl now db = (Inr t, db')"
  shows "token_of db' h = token_of db h + (if h = hostID then 1 else 0)"
  using assms
proof (cases rule: ClaimSession_cases)
  case (2 r0)
  then show ?thesis
    by (auto simp: token_of_def sql_get_upsert claimed_row_def split: option.splits)
qed simp

lemma ClaimSession_owner_step:
  assumes "ClaimSession hostID sessionID instanceID ttl now db = (r, db')"
  shows "owner_step db db'"
  using assms
proof (cases rule: ClaimSession_cases)
  case (2 r0)
  have "token_of db h \<le> token_of db' h" for h
    using ClaimSession_token [OF assms [unfolded 2(3)]] by simp
  moreover have "owners_inv db'" if "owners_inv db"
    using that 2(5,6) unfolding owners_inv_def 2(9)
    by (auto intro!: distinct_sql_upsert) (auto simp: sql_upsert_def set_sql_update claimed_row_def split: if_splits)
  ultimately show ?thesis
    by (simp add: owner_step_def 2(9))
qed (simp add: owner_step_def)

lemma owner_step_refl: "owner_step db db"
  by (simp add: owner_step_def)

lemma RenewOwnership_owner_step:
  "RenewOwnership hostID sessionID instanceID token ttl now db = (r, db') \<Longrightarrow> owner_step db db'"
  unfolding RenewOwnership_def Let_def
  by (auto split: if_splits intro!: owner_step_update owner_step_refl)

lemma ReleaseOwnership_owner_step:
  "ReleaseOwnership hostID sessionID token db = (r, db') \<Longrightarrow> owner_step db db'"
  unfolding ReleaseOwnership_def Let_def
  by (auto simp: ownerless_def split: if_splits intro!: owner_step_update owner_step_refl)

lemma SweepExpiredOwners_owner_step: "owner_step db (SweepExpiredOwners now db)"
  unfolding SweepExpiredOwners_def by (rule owner_step_update) (simp add: ownerless_def)

section \<open>Every step is good or about ownership\<close>

lemmas good_ops = Create_good Approve_good LeaseJobs_good FailUndelivered_good ReleaseLease_good
  RecordResult_good ReclaimExpiredLeases_good SettleCancelTimeouts_good

lemmas quiet_ops = CancelUndelivered_quiet CancelQueuedOf_quiet SetWaitReason_quiet
  MarkDispatchedWithLease_quiet RecordHandover_quiet AcceptAttempt_quiet SetLockWait_quiet
  RenewAttemptLease_quiet ExpireOverdue_quiet

lemmas keyed_quiet_ops = Cancel_quiet RequestCancelOf_quiet MarkRunning_quiet RecordCancelAck_quiet

lemmas owner_ops = ClaimSession_owner_step RenewOwnership_owner_step ReleaseOwnership_owner_step
  SweepExpiredOwners_owner_step

lemma store_inv_keyed: "store_inv db \<Longrightarrow> keyed db"
  by (simp add: store_inv_def)

lemma job_step_good:
  assumes "job_step db db'" and inv: "store_inv db"
  shows "good_step db db' \<or> owner_step db db'"
  using assms
proof (induction rule: job_step.induct)
  case (js_sessions db ss)
  have "quiet_step db (db\<lparr>sessions := ss\<rparr>)"
    by (rule quiet_step_same) (simp_all add: attempts_view_def)
  then show ?case using good_step_quiet [OF js_sessions] by blast
next
  case (js_budget db b)
  have "quiet_step db (db\<lparr>budget := b\<rparr>)"
    by (rule quiet_step_same) (simp_all add: attempts_view_def)
  then show ?case using good_step_quiet [OF js_budget] by blast
qed (blast intro: good_ops good_step_quiet quiet_ops keyed_quiet_ops store_inv_keyed owner_ops)+

lemma store_inv_owner_step:
  "store_inv db \<Longrightarrow> owner_step db db' \<Longrightarrow> store_inv db'"
  by (simp add: owner_step_def store_inv_def keyed_def opens_def approved_enough_def approvals_of_def)

lemma owners_inv_step:
  assumes "job_step db db'" and "store_inv db" and "owners_inv db"
  shows "owners_inv db' \<and> token_of db h \<le> token_of db' h"
  using job_step_good [OF assms(1,2)] assms(3)
  by (auto simp: good_step_def owner_step_def owners_inv_def token_of_def)

definition no_jobs :: "job_db \<Rightarrow> bool" where
  "no_jobs db = (jobs db = [] \<and> attempts db = [] \<and> approvals db = [] \<and> owners db = [])"

definition runs_inv :: "job_db \<Rightarrow> bool" where
  "runs_inv db = (store_inv db \<and> owners_inv db)"

interpretation jsys: invariant_system no_jobs job_step runs_inv
proof
  fix db :: job_db
  assume "no_jobs db"
  then show "runs_inv db"
    by (simp add: no_jobs_def runs_inv_def store_inv_def keyed_def owners_inv_def)
next
  fix db db' :: job_db
  assume "runs_inv db" and "job_step db db'"
  then show "runs_inv db'"
    using job_step_good store_inv_good_step store_inv_owner_step owners_inv_step
    unfolding runs_inv_def by blast
qed

text \<open>The row of a job after one step.\<close>

lemma job_step_row:
  assumes "job_step db db'" and "store_inv db" and "j \<in> set (jobs db)"
  obtains j' where "j' \<in> set (jobs db')" and "j_id j' = j_id j" and "j_order j' = j_order j"
    and "moved_ok db j (j_state j')"
    and "HoldsLease (j_state j) \<Longrightarrow> \<not> HoldsLease (j_state j') \<Longrightarrow> \<not> job_holds db' (j_id j)"
  using job_step_good [OF assms(1,2)]
proof
  assume "good_step db db'"
  then obtain xs ys where "jobs db' = xs @ ys" and "list_all2 (good_row db db') (jobs db) xs"
    by (auto simp: good_step_def)
  then obtain j' where "j' \<in> set (jobs db')" and "good_row db db' j j'"
    using good_row_rel [OF _ assms(3)] by (metis UnCI set_append)
  then show thesis
    by (intro that [of j']) (simp_all add: good_row_def)
next
  assume "owner_step db db'"
  then show thesis
    using assms(3) by (intro that [of j]) (simp_all add: owner_step_def moved_ok_def)
qed

lemma moved_ok_Terminal: "moved_ok db j t \<Longrightarrow> Terminal (j_state j) \<Longrightarrow> t = j_state j"
  by (auto simp: moved_ok_def step_move_def no_transition_from_Terminal)

lemma runs_keep_rows:
  assumes "job_step\<^sup>*\<^sup>* db db'" and "runs_inv db" and "j \<in> set (jobs db)"
  shows "\<exists>j' \<in> set (jobs db'). j_id j' = j_id j \<and> j_order j' = j_order j
    \<and> (Terminal (j_state j) \<longrightarrow> j_state j' = j_state j)"
  using assms
proof (induction rule: rtranclp_induct)
  case base
  then show ?case by blast
next
  case (step db1 db2)
  then obtain j1 where j1: "j1 \<in> set (jobs db1)" "j_id j1 = j_id j" "j_order j1 = j_order j"
    "Terminal (j_state j) \<longrightarrow> j_state j1 = j_state j"
    by blast
  have "store_inv db1"
    using jsys.inv_steps [OF step(1) step(4)] by (simp add: runs_inv_def)
  then obtain j2 where "j2 \<in> set (jobs db2)" "j_id j2 = j_id j1" "j_order j2 = j_order j1"
    "moved_ok db1 j1 (j_state j2)"
    by (rule job_step_row [OF step(2) _ j1(1)])
  then show ?case
    using j1 moved_ok_Terminal [of db1 j1 "j_state j2"] by (intro bexI [of _ j2]) auto
qed

section \<open>A concrete run\<close>

text \<open>
  A task that needs one approval is ordered, approved, leased by a gateway, claimed by a session
  and handed over; its result settles it.
\<close>

definition demo_spec :: Spec where
  "demo_spec = \<lparr>s_HostID = ''h'', s_Action = ''unit.restart'', s_Payload = ''{}'',
     s_IdempotencyKey = ''k'', s_RequiresApproval = True, s_RequiredApprovals = 1,
     s_TimeoutSeconds = 60, s_MaxOutputBytes = 0, s_TTL = 0, s_CreatedBy = ''ann'',
     s_CreatedByKind = [], s_RequestID = [], s_CampaignID = [], s_FanoutID = [],
     s_Preconditions = [], s_Class = []\<rparr>"

definition demo0 :: job_db where
  "demo0 = \<lparr>jobs = [], attempts = [], approvals = [], owners = [],
     sessions = [\<lparr>se_id = ''s1'', se_host = ''h'', se_ended_at = None\<rparr>],
     budget = \<lparr>limits = [], leases = [\<lparr>bl_key = ''global:mutations'', bl_owner = ''job:j'',
       bl_claimant = ''jobs:ann'', bl_weight = 1, bl_acquired_at = 0, bl_until = 100, bl_token = 0\<rparr>],
       waiters = []\<rparr>, outbox = []\<rparr>"

definition demo1 :: job_db where
  "demo1 = snd (Create (\<lambda>_. None) (\<lambda>_ _. None) (\<lambda>_ _. None) (\<lambda>_ _. Some ''x'') ''j'' ''u'' demo_spec 0 demo0)"

definition demo2 :: job_db where
  "demo2 = snd (Approve ''j'' ''bob'' [] 1 demo1)"

definition demo3 :: job_db where
  "demo3 = snd (LeaseJobs ''g'' [''j''] [] (\<lambda>i. i @ ''-1'') 100000000 2 demo2)"

definition demo4 :: job_db where
  "demo4 = snd (ClaimSession ''h'' ''s1'' ''i1'' 45000000 3 demo3)"

definition demo_fence :: Fence where
  "demo_fence = \<lparr>fc_SessionID = ''s1'', fc_Token = 1\<rparr>"

definition demo5 :: job_db where
  "demo5 = snd (MarkDispatchedWithLease ''j'' ''j-1'' demo_fence DispatchLease 4 demo4)"

definition demo_result :: Result where
  "demo_result = \<lparr>r_Status = ''succeeded'', r_ExitCode = 0, r_Stdout = ''ok'', r_Stderr = [],
     r_OutputTruncated = False, r_ErrorCode = [], r_Message = [], r_Replayed = False,
     r_UnitStateBefore = [], r_UnitStateAfter = [], r_Detail = [], r_Verification = []\<rparr>"

definition demo6 :: job_db where
  "demo6 = snd (RecordResult ''j'' ''j-1'' demo_result StateSucceeded demo_fence None 5 demo5)"

lemma demo_steps:
  "job_step demo0 demo1" "job_step demo1 demo2" "job_step demo2 demo3" "job_step demo3 demo4"
  "job_step demo4 demo5"
  unfolding demo1_def demo2_def demo3_def demo4_def demo5_def
  by (rule js_create js_approve js_lease js_claim js_dispatched, rule prod.collapse [symmetric])+

lemma demo_last_step: "job_step demo5 demo6"
proof -
  have "attempt_of demo5 ''j-1'' ''j''" by code_simp
  then show ?thesis
    unfolding demo6_def by (rule js_result [OF _ _ prod.collapse [symmetric]]) simp
qed

lemma demo_no_jobs: "no_jobs demo0"
  by (simp add: no_jobs_def demo0_def)

lemma demo_run3: "job_step\<^sup>*\<^sup>* demo0 demo3"
  using demo_steps by (meson converse_rtranclp_into_rtranclp r_into_rtranclp)

lemma demo_run5: "job_step\<^sup>*\<^sup>* demo0 demo5"
  using demo_steps by (meson converse_rtranclp_into_rtranclp r_into_rtranclp)

lemma demo_run6: "job_step\<^sup>*\<^sup>* demo0 demo6"
  using demo_run5 demo_last_step by (rule rtranclp.rtrancl_into_rtrancl)

definition only_job :: "job_db \<Rightarrow> job" where
  "only_job db = hd (jobs db)"

lemma demo_jobs: "jobs demo3 = [only_job demo3]" "jobs demo5 = [only_job demo5]" "jobs demo6 = [only_job demo6]"
  by code_simp+

lemma demo_states: "j_state (only_job demo3) = StateLeased" "j_state (only_job demo5) = StateDispatched"
  "j_state (only_job demo6) = StateSucceeded"
  by code_simp+

section \<open>Properties of every run\<close>

text \<open>
  C1: A final state is final. Whatever the operators, the gateways, the agents and the sweeps do
  after a job reached a final state, the job keeps that state, its order and its identifier.
\<close>

theorem final_state_is_final:
  assumes "no_jobs start" and "job_step\<^sup>*\<^sup>* start db" and "job_step\<^sup>*\<^sup>* db db'"
    and "j \<in> set (jobs db)" and "Terminal (j_state j)"
  shows "\<exists>j' \<in> set (jobs db'). j_id j' = j_id j \<and> j_order j' = j_order j \<and> j_state j' = j_state j"
  using runs_keep_rows [OF assms(3) jsys.inv_reachable [OF assms(1,2)] assms(4)] assms(5) by blast

theorem final_state_is_final_witness:
  "\<exists>j' \<in> set (jobs (snd (Cancel ''j'' ''eve'' [] 6 demo6))).
     j_id j' = ''j'' \<and> j_state j' = StateSucceeded"
proof -
  have "job_step demo6 (snd (Cancel ''j'' ''eve'' [] 6 demo6))"
    by (rule js_cancel [OF prod.collapse [symmetric]])
  then have run: "job_step\<^sup>*\<^sup>* demo6 (snd (Cancel ''j'' ''eve'' [] 6 demo6))" by blast
  have "j_id (only_job demo6) = ''j''" by code_simp
  then show ?thesis
    using final_state_is_final [OF demo_no_jobs demo_run6 run, of "only_job demo6"] demo_jobs demo_states
    by auto
qed

text \<open>
  C16: A job moves along the table of transitions. One step leaves the order of a job as it is
  and either keeps its state, or takes a transition of the table, or starts a leased task whose
  delivery was not recorded yet, or settles a job by the late result of an attempt that had been
  given up.
\<close>

theorem jobs_move_along_the_table:
  assumes "no_jobs start" and "job_step\<^sup>*\<^sup>* start db" and "job_step db db'" and "j \<in> set (jobs db)"
  shows "\<exists>j' \<in> set (jobs db'). j_id j' = j_id j \<and> j_order j' = j_order j
    \<and> (j_state j' = j_state j \<or> CanTransition (j_state j) (j_state j')
       \<or> j_state j = StateLeased \<and> j_state j' = StateRunning
       \<or> given_up db (j_id j) \<and> \<not> Terminal (j_state j) \<and> Terminal (j_state j'))"
proof -
  have "store_inv db"
    using jsys.inv_reachable [OF assms(1,2)] by (simp add: runs_inv_def)
  then obtain j' where "j' \<in> set (jobs db')" "j_id j' = j_id j" "j_order j' = j_order j"
    "moved_ok db j (j_state j')"
    by (rule job_step_row [OF assms(3) _ assms(4)])
  then show ?thesis
    by (intro bexI [of _ j']) (auto simp: moved_ok_def step_move_def)
qed

theorem jobs_move_along_the_table_witness:
  "\<exists>j' \<in> set (jobs demo6). j_id j' = ''j''
     \<and> (j_state j' = StateDispatched \<or> CanTransition StateDispatched (j_state j'))"
proof -
  have "j_id (only_job demo5) = ''j''" "\<not> given_up demo5 ''j''" by code_simp+
  then show ?thesis
    using jobs_move_along_the_table [OF demo_no_jobs demo_run5 demo_last_step, of "only_job demo5"]
      demo_jobs demo_states
    by auto
qed

text \<open>
  C4: No task runs without its approvals. In every reachable state, a job that needs approvals
  and is past waiting for them (and was not canceled or expired while it waited) has been
  approved by at least as many different people as its order asks for.
\<close>

theorem approved_by_enough_people:
  assumes "no_jobs start" and "job_step\<^sup>*\<^sup>* start db" and "j \<in> set (jobs db)"
    and "o_requires_approval (j_order j)"
    and "j_state j \<notin> set [StatePlanned, StateAwaitingApproval, StateCanceled, StateExpired]"
  shows "o_required (j_order j) \<le> int (card {ap_approver a |a. a \<in> set (approvals db) \<and> ap_job a = j_id j})"
proof -
  have inv: "store_inv db"
    using jsys.inv_reachable [OF assms(1,2)] by (simp add: runs_inv_def)
  then have "distinct (map (\<lambda>a. (ap_job a, ap_approver a)) (approvals db))"
    by (simp add: store_inv_def)
  then have "distinct (map ap_approver (approvals_of db (j_id j)))"
    by (auto simp: approvals_of_def distinct_map inj_on_def)
  then have "card (set (map ap_approver (approvals_of db (j_id j)))) = length (approvals_of db (j_id j))"
    by (metis distinct_card length_map)
  moreover have "set (map ap_approver (approvals_of db (j_id j)))
      = {ap_approver a |a. a \<in> set (approvals db) \<and> ap_job a = j_id j}"
    by (auto simp: approvals_of_def)
  ultimately show ?thesis
    using inv assms(3-5) by (simp add: store_inv_def approved_enough_def ungated_def)
qed

theorem approved_by_enough_people_witness:
  "1 \<le> card {ap_approver a |a. a \<in> set (approvals demo3) \<and> ap_job a = ''j''}"
proof -
  have "j_id (only_job demo3) = ''j''" "o_requires_approval (j_order (only_job demo3))"
    "o_required (j_order (only_job demo3)) = 1"
    by code_simp+
  then show ?thesis
    using approved_by_enough_people [OF demo_no_jobs demo_run3, of "only_job demo3"] demo_jobs demo_states
    by simp
qed

text \<open>
  C2: One delivery at a time. After any sequence of operations in which a task is taken back only
  over the attempt that still carries it, a job between the lease and its end is carried by exactly
  one open attempt, a job that waits in the panel by none, and no job ever by two. The condition on
  taking back is one of the step relation (rule \<open>js_release\<close>) and not a check of \<open>ReleaseLease\<close>:
  without it the property is false, as \<open>stale_release_requeues_a_carried_job\<close> shows.
\<close>

theorem one_open_attempt:
  assumes "no_jobs start" and "job_step\<^sup>*\<^sup>* start db" and "j \<in> set (jobs db)"
  shows "(HoldsLease (j_state j) \<longrightarrow> opens db (j_id j) = 1)
    \<and> (\<not> HoldsLease (j_state j) \<and> \<not> Terminal (j_state j) \<longrightarrow> opens db (j_id j) = 0)
    \<and> opens db (j_id j) \<le> 1"
proof -
  have "ok_opens (j_state j) (opens db (j_id j))"
    using jsys.inv_reachable [OF assms(1,2)] assms(3) by (simp add: runs_inv_def store_inv_def)
  then show ?thesis
    by (auto simp: ok_opens_def split: if_splits)
qed

theorem one_open_attempt_witness: "opens demo5 ''j'' = 1"
proof -
  have "j_id (only_job demo5) = ''j''" by code_simp
  then show ?thesis
    using one_open_attempt [OF demo_no_jobs demo_run5, of "only_job demo5"] demo_jobs demo_states
    by simp
qed

text \<open>
  C17: Capacity goes back with the job. Whenever a step takes a job out of the states that hold a
  lease, to the queue or to its end, the job holds no budget afterwards.
\<close>

theorem capacity_goes_back:
  assumes "no_jobs start" and "job_step\<^sup>*\<^sup>* start db" and "job_step db db'"
    and "j \<in> set (jobs db)" and "HoldsLease (j_state j)"
    and "j' \<in> set (jobs db')" and "j_id j' = j_id j" and "\<not> HoldsLease (j_state j')"
  shows "\<not> holds_capacity (budget db') (JobOwner (j_id j))"
proof -
  have inv: "runs_inv db" by (rule jsys.inv_reachable [OF assms(1,2)])
  then have "store_inv db'"
    using jsys.inv_step [OF inv assms(3)] by (simp add: runs_inv_def)
  obtain i where i: "i \<in> set (jobs db')" "j_id i = j_id j"
    "HoldsLease (j_state j) \<Longrightarrow> \<not> HoldsLease (j_state i) \<Longrightarrow> \<not> job_holds db' (j_id j)"
    using job_step_row [OF assms(3) _ assms(4)] inv unfolding runs_inv_def by metis
  have "i = j'"
    using inv_job_unique [OF \<open>store_inv db'\<close> i(1) assms(6)] i(2) assms(7) by simp
  then show ?thesis
    using i(3) assms(5,8) by (simp add: job_holds_def)
qed

theorem capacity_goes_back_witness:
  "holds_capacity (budget demo5) (JobOwner ''j'') \<and> \<not> holds_capacity (budget demo6) (JobOwner ''j'')"
proof -
  have "j_id (only_job demo5) = ''j''" "j_id (only_job demo6) = ''j''"
    "holds_capacity (budget demo5) (JobOwner ''j'')"
    by code_simp+
  then show ?thesis
    using capacity_goes_back [OF demo_no_jobs demo_run5 demo_last_step, of "only_job demo5" "only_job demo6"]
      demo_jobs demo_states by simp
qed

section \<open>Fences\<close>

lemma owner_token:
  "owners_inv db \<Longrightarrow> ow \<in> set (owners db) \<Longrightarrow> token_of db (ow_host ow) = ow_token ow"
  unfolding owners_inv_def token_of_def by (auto simp: sql_get_eq_Some_iff [THEN iffD2])

lemma fenceHolds_token:
  assumes "runs_inv db" and "fenceHolds db jobID fence now" and "j \<in> set (jobs db)" and "j_id j = jobID"
  shows "token_of db (o_host (j_order j)) = sint (fc_Token fence)"
proof -
  obtain i ow where "i \<in> set (jobs db)" "j_id i = jobID" "ow \<in> set (owners db)"
    "ow_host ow = o_host (j_order i)" "ow_token ow = sint (fc_Token fence)"
    using assms(2) unfolding fenceHolds_def list_ex_iff by blast
  moreover from this have "i = j"
    using inv_job_unique [of db i j] assms unfolding runs_inv_def by simp
  ultimately show ?thesis
    using owner_token [of db ow] assms(1) by (simp add: runs_inv_def)
qed

lemma token_of_steps:
  assumes "job_step\<^sup>*\<^sup>* db db'" and "runs_inv db"
  shows "token_of db h \<le> token_of db' h"
  using assms
proof (induction rule: rtranclp_induct)
  case (step db1 db2)
  have "runs_inv db1" by (rule jsys.inv_steps [OF step(1,4)])
  then have "token_of db1 h \<le> token_of db2 h"
    using owners_inv_step [OF step(2)] by (simp add: runs_inv_def)
  then show ?case using step by (meson order_trans)
qed simp

text \<open>
  C5: A session that lost its host is fenced off for good. Once another session has claimed the
  host of a job, the fence of an earlier session, or one with any older token, never holds again
  for that job, however the run goes on; so no delivery, no result and no cancel answer it sends
  is accepted.
\<close>

theorem superseded_fence_never_holds:
  assumes "no_jobs start" and "job_step\<^sup>*\<^sup>* start db" and "j \<in> set (jobs db)"
    and "ClaimSession (o_host (j_order j)) sessionID instanceID ttl now db = (Inr token, db1)"
    and "fenceHolds db (j_id j) fence t0 \<or> sint (fc_Token fence) < token_of db (o_host (j_order j))"
    and "job_step\<^sup>*\<^sup>* db1 db2"
  shows "\<not> fenceHolds db2 (j_id j) fence t"
proof
  let ?h = "o_host (j_order j)"
  assume holds: "fenceHolds db2 (j_id j) fence t"
  have inv: "runs_inv db" by (rule jsys.inv_reachable [OF assms(1,2)])
  have one: "job_step db db1" using assms(4) by (rule js_claim)
  then have run: "job_step\<^sup>*\<^sup>* db db2" using assms(6) by (rule converse_rtranclp_into_rtranclp)
  have inv1: "runs_inv db1" using jsys.inv_step [OF inv one] .
  have old: "sint (fc_Token fence) \<le> token_of db ?h"
    using assms(5) fenceHolds_token [OF inv _ assms(3) refl] by fastforce
  obtain j2 where j2: "j2 \<in> set (jobs db2)" "j_id j2 = j_id j" "j_order j2 = j_order j"
    using runs_keep_rows [OF run inv assms(3)] by blast
  have "token_of db2 ?h = sint (fc_Token fence)"
    using fenceHolds_token [OF jsys.inv_steps [OF run inv] holds j2(1,2)] j2(3) by simp
  moreover have "token_of db1 ?h = token_of db ?h + 1"
    using ClaimSession_token [OF assms(4)] by simp
  ultimately show False
    using old token_of_steps [OF assms(6) inv1, of ?h] by simp
qed

theorem superseded_fence_never_holds_witness:
  "fenceHolds demo4 ''j'' demo_fence 4
   \<and> \<not> fenceHolds (snd (ClaimSession ''h'' ''s2'' ''i2'' 45000000 4 demo4)) ''j'' demo_fence 4"
proof -
  have run: "job_step\<^sup>*\<^sup>* demo0 demo4"
    using demo_steps by (meson converse_rtranclp_into_rtranclp r_into_rtranclp)
  have f: "fenceHolds demo4 ''j'' demo_fence 4" and js: "jobs demo4 = [only_job demo4]"
    and id: "j_id (only_job demo4) = ''j''" "o_host (j_order (only_job demo4)) = ''h''"
    and "fst (ClaimSession ''h'' ''s2'' ''i2'' 45000000 4 demo4) = Inr 2"
    by code_simp+
  then have c: "ClaimSession ''h'' ''s2'' ''i2'' 45000000 4 demo4
      = (Inr 2, snd (ClaimSession ''h'' ''s2'' ''i2'' 45000000 4 demo4))"
    by (metis prod.collapse)
  then show ?thesis
    using superseded_fence_never_holds [OF demo_no_jobs run, of "only_job demo4", unfolded id, OF _ c _ rtranclp.rtrancl_refl]
      f js by auto
qed

text \<open>
  C21: A claim fences its own session in. The token a claim answers is, after its way through
  \<open>uint64\<close> and back, the token of the owner row: from then on, until the lease runs out, the
  fence with that token holds for every job of the host.
\<close>

theorem claimed_fence_holds:
  assumes "no_jobs start" and "job_step\<^sup>*\<^sup>* start db" and "j \<in> set (jobs db)"
    and "ClaimSession (o_host (j_order j)) sessionID instanceID ttl now db = (Inr token, db')"
    and "t < now + ttl"
  shows "fenceHolds db' (j_id j) \<lparr>fc_SessionID = sessionID, fc_Token = token\<rparr> t"
  using assms(4)
proof (cases rule: ClaimSession_cases)
  case (2 r0)
  let ?h = "o_host (j_order j)"
  have ow: "owners_inv db" using jsys.inv_reachable [OF assms(1,2)] by (simp add: runs_inv_def)
  have "0 \<le> token_of db ?h"
    using ow by (auto simp: token_of_def owners_inv_def dest!: sql_get_SomeD split: option.splits intro: less_imp_le)
  then have tok: "sint token = token_of db ?h + 1"
    using 2(3,4) int64_of_uint64 [of "token_of db ?h + 1"] by simp
  obtain ow' where get: "sql_get ow_host ?h (owners db') = Some ow'"
    "ow_session ow' = sessionID" "ow_token ow' = token_of db ?h + 1" "ow_lease_until ow' = Some (now + ttl)"
    using 2(5-8) unfolding 2(9)
    by (auto simp: sql_get_upsert token_of_def claimed_row_def split: option.splits)
  then have "ow' \<in> set (owners db')" "ow_host ow' = ?h"
    by (auto dest: sql_get_SomeD)
  moreover have "j \<in> set (jobs db')"
    using assms(3) by (simp add: 2(9))
  ultimately show ?thesis
    using get tok 2(2) assms(5) unfolding fenceHolds_def list_ex_iff
    by (intro conjI bexI [of _ j] bexI [of _ ow']) simp_all
qed simp

theorem claimed_fence_holds_witness:
  "fenceHolds demo4 ''j'' \<lparr>fc_SessionID = ''s1'', fc_Token = 1\<rparr> 45000002"
proof -
  have js: "jobs demo3 = [only_job demo3]"
    and id: "j_id (only_job demo3) = ''j''" "o_host (j_order (only_job demo3)) = ''h''"
    and "fst (ClaimSession ''h'' ''s1'' ''i1'' 45000000 3 demo3) = Inr 1"
    by code_simp+
  then have "ClaimSession ''h'' ''s1'' ''i1'' 45000000 3 demo3 = (Inr 1, demo4)"
    unfolding demo4_def by (metis prod.collapse)
  then show ?thesis
    using claimed_fence_holds [OF demo_no_jobs demo_run3, of "only_job demo3" "''s1''" "''i1''" 45000000 3 1 demo4 45000002]
      js id by simp
qed

end
