(* ===== verification/Job_Outcomes.thy ===== *)
theory Job_Outcomes
  imports Job_Properties
begin

text \<open>
  What single operations of the job store answer and leave behind: the output bound of a result,
  the branches of \<open>RecordResult\<close>, the repeated order of \<open>Create\<close>, what the reclaim sweep leaves
  carried, and what happens when a gateway takes a task back over an attempt that is no longer
  the current one.
\<close>

lemma clampOutput_whole:
  "limit \<le> 0 \<or> int (length out + length err) \<le> limit \<Longrightarrow>
   clampOutput out err trunc limit = (out, err, trunc)"
  by (simp add: clampOutput_def)

lemma clampOutput_cut:
  assumes "0 < limit" and "limit < int (length out + length err)"
  shows "clampOutput out err trunc limit
    = (take (nat limit) out, take (nat limit - length out) err, True)"
  using assms by (auto simp: clampOutput_def Let_def nat_less_iff zless_nat_eq_int_zless nat_diff_distrib)

text \<open>
  C26: What is kept of the output is bounded by the task. With a positive bound, the two streams
  together are never longer than it; each is the start of what the host sent, all of standard
  output coming before any of standard error; and a cut output is always marked as truncated.
\<close>

theorem clamped_output_within_bound:
  assumes "0 < limit" and "clampOutput out err trunc limit = (out', err', trunc')"
  shows "int (length out' + length err') \<le> limit
    \<and> take (length out') out = out' \<and> take (length err') err = err'
    \<and> (err' \<noteq> [] \<longrightarrow> out' = out)
    \<and> (out' \<noteq> out \<or> err' \<noteq> err \<longrightarrow> trunc')"
proof (cases "int (length out + length err) \<le> limit")
  case True
  then show ?thesis
    using assms(2) by (simp add: clampOutput_whole)
next
  case False
  then have "out' = take (nat limit) out" "err' = take (nat limit - length out) err" "trunc'"
    using assms clampOutput_cut [of limit out err trunc] by auto
  moreover have "int (length (take (nat limit) out) + length (take (nat limit - length out) err)) \<le> limit"
    using assms(1) by (auto simp: min_def)
  moreover have "take (length (take n xs)) xs = take n xs" for n and xs :: string
    by (simp add: min_def)
  moreover have "take (nat limit) out = out" if "take (nat limit - length out) err \<noteq> []"
    using that by auto
  ultimately show ?thesis
    by (simp del: length_take)
qed

theorem clamped_output_within_bound_witness:
  "int (length (fst (clampOutput ''abcdef'' ''xy'' False 4))) \<le> 4"
proof -
  have "clampOutput ''abcdef'' ''xy'' False 4 = (''abcd'', [], True)"
    by code_simp
  then show ?thesis
    using clamped_output_within_bound [of 4 "''abcdef''" "''xy''" False "''abcd''" "[]" True] by simp
qed

text \<open>
  C19: A result is judged by the state of the job and by the fence, and changes nothing unless it
  is accepted or arrives after the end. Accepted means: the job was open, the fence held, and the
  state it asks for is reachable or the attempt had been given up; then the job is in that state.
  A result after the end only closes its own open attempt, and an error changes nothing at all.
\<close>

theorem result_accepted_or_without_effect:
  assumes "RecordResult jobID attemptID result jobState fence trail now db = (r, db')"
  shows "case r of
      Inl e \<Rightarrow> db' = db
    | Inr False \<Rightarrow> jobs db' = jobs db \<and> budget db' = budget db \<and> approvals db' = approvals db
        \<and> filter (\<lambda>a. at_id a \<noteq> attemptID) (attempts db') = filter (\<lambda>a. at_id a \<noteq> attemptID) (attempts db)
    | Inr True \<Rightarrow> fenceHolds db jobID fence now \<and> trail = None
        \<and> (\<exists>j a. get_job db jobID = Some j \<and> get_attempt db attemptID = Some a \<and> \<not> Terminal (j_state j)
             \<and> (at_status a = AttemptStatusLeaseExpired \<or> jobState = j_state j
                \<or> CanTransition (j_state j) jobState)
             \<and> get_job db' jobID = Some (result_row result jobState now j))"
  using assms
proof (cases rule: RecordResult_cases)
  case unchanged
  then show ?thesis by (auto split: sum.splits bool.splits)
next
  case (late j)
  have "filter (\<lambda>a. at_id a \<noteq> attemptID) (sql_update (\<lambda>a. at_id a = attemptID \<and> open_attempt a)
      (late_attempt result now) (attempts db)) = filter (\<lambda>a. at_id a \<noteq> attemptID) (attempts db)"
    by (rule filter_sql_update) (auto simp: late_attempt_def)
  then show ?thesis
    using late by simp
next
  case (settled j a)
  have "trail = None"
    using assms settled(1,2,3,5,6)
    by (auto simp: RecordResult_def lateResultDisposition_cases Let_def split: if_splits option.splits)
  moreover have "get_job db' jobID = Some (result_row result jobState now j)"
    using settled(1) get_job_SomeD [OF settled(1)]
    by (simp add: settled(7) get_job_def sql_get_update)
  ultimately show ?thesis
    using settled by (auto simp: fateOfResult_settles)
qed

theorem result_accepted_or_without_effect_witness:
  "fst (RecordResult ''j'' ''j-1'' demo_result StateSucceeded demo_fence None 5 demo5) = Inr True
   \<and> fenceHolds demo5 ''j'' demo_fence 5"
proof -
  have r: "fst (RecordResult ''j'' ''j-1'' demo_result StateSucceeded demo_fence None 5 demo5) = Inr True"
    by code_simp
  then have "RecordResult ''j'' ''j-1'' demo_result StateSucceeded demo_fence None 5 demo5 = (Inr True, demo6)"
    unfolding demo6_def by (metis prod.collapse)
  from r result_accepted_or_without_effect [OF this] show ?thesis by simp
qed

text \<open>
  C20: Nothing stays stranded. After a reclaim sweep over any tables, also ones no run leads to,
  every job that still holds a lease and is not locked by another transaction is carried by an
  open attempt. The sweep has left the row of such a job alone, and none of its open attempts
  that were free to be closed has outlived its lease (for a restart of the host: by more than the
  grace).
\<close>

theorem reclaim_leaves_only_carried_jobs:
  assumes "ReclaimExpiredLeases locked lockedJobs now db = (n, db')"
    and "j \<in> set (jobs db')" and "HoldsLease (j_state j)"
  shows "j \<in> set (jobs db)
    \<and> (j_id j \<notin> set lockedJobs \<longrightarrow> list_ex (\<lambda>a. at_job a = j_id j \<and> open_attempt a) (attempts db'))
    \<and> list_all (\<lambda>a. at_job a = j_id j \<and> open_attempt a \<and> at_id a \<notin> set locked \<longrightarrow>
        (case at_lease_expires a of None \<Rightarrow> True
         | Some u \<Rightarrow> (if o_action (j_order j) = ActionSystemReboot then now - RebootReturnGrace else now) \<le> u))
        (attempts db')"
proof -
  let ?exp = "\<lambda>a. lease_ran_out db now a \<and> at_id a \<notin> set locked"
  let ?rec = "\<lambda>j. list_ex (\<lambda>a. ?exp a \<and> at_job a = j_id j) (attempts db) \<or> stranded db j \<and> j_id j \<notin> set lockedJobs"
  have js: "jobs db' = sql_update ?rec (reclaimed_row now) (jobs db)"
    and ats: "attempts db' = sql_update ?exp (expired_attempt now) (attempts db)"
    using assms(1) by (auto simp: ReclaimExpiredLeases_def Let_def)
  have "j_state (reclaimed_row now i) \<noteq> j_state j" for i
    using reclaimed_row_state [of now i] assms(3) by auto
  then have j: "j \<in> set (jobs db)" "\<not> ?rec j"
    using assms(2) unfolding js by (auto elim!: in_sql_updateE)
  have keep: "a \<in> set (attempts db') \<longleftrightarrow> a \<in> set (attempts db)" if "at_job a = j_id j" for a
    using that j(2) unfolding ats set_sql_update by (auto simp: list_ex_iff expired_attempt_def)
  have "list_ex (\<lambda>a. at_job a = j_id j \<and> open_attempt a) (attempts db')" if "j_id j \<notin> set lockedJobs"
    using that j(2) assms(3) keep by (auto simp: stranded_def list_ex_iff)
  moreover have "(if o_action (j_order j) = ActionSystemReboot then now - RebootReturnGrace else now) \<le> u"
    if "a \<in> set (attempts db')" "at_job a = j_id j" "open_attempt a" "at_id a \<notin> set locked"
      "at_lease_expires a = Some u" for a u
  proof (rule ccontr)
    assume "\<not> ?thesis"
    then have "lease_ran_out db now a"
      using that j(1) assms(3) unfolding lease_ran_out_def list_ex_iff by (intro conjI bexI [of _ j]) auto
    then show False using j(2) that keep [OF that(2)] by (auto simp: list_ex_iff)
  qed
  ultimately show ?thesis
    using j(1) by (auto simp: list_all_iff split: option.splits)
qed

definition demo_reclaimed :: job_db where
  "demo_reclaimed = snd (ReclaimExpiredLeases [] [] 200000000 demo3)"

definition demo_again :: job_db where
  "demo_again = snd (LeaseJobs ''g2'' [''j''] [] (\<lambda>i. i @ ''-2'') 100000000 200000001 demo_reclaimed)"

lemma demo_again_run: "job_step\<^sup>*\<^sup>* demo0 demo_again"
proof -
  have "job_step demo3 demo_reclaimed"
    unfolding demo_reclaimed_def by (rule js_reclaim [OF prod.collapse [symmetric]])
  moreover have "job_step demo_reclaimed demo_again"
    unfolding demo_again_def by (rule js_lease [OF prod.collapse [symmetric]])
  ultimately show ?thesis
    using demo_run3 by (meson rtranclp.rtrancl_into_rtrancl)
qed

theorem reclaim_leaves_only_carried_jobs_witness:
  "list_ex (\<lambda>a. at_job a = ''j'' \<and> open_attempt a)
     (attempts (snd (ReclaimExpiredLeases [] [] 200000002 demo_again)))"
proof -
  let ?db = "snd (ReclaimExpiredLeases [] [] 200000002 demo_again)"
  have "jobs ?db = [only_job ?db]" "HoldsLease (j_state (only_job ?db))" "j_id (only_job ?db) = ''j''"
    by code_simp+
  then show ?thesis
    using reclaim_leaves_only_carried_jobs [OF prod.collapse [symmetric], of "only_job ?db"] by simp
qed

text \<open>
  C27: Taking a task back over an attempt that is no longer the current one loses track of the
  delivery. When the lease of a gateway ran out, the job was reclaimed and leased again, and the
  first gateway then gives its (closed) attempt back, \<open>ReleaseLease\<close> requeues the job although the
  attempt of the second gateway stays open: the next lease opens a second delivery beside it.
\<close>

theorem stale_release_requeues_a_carried_job:
  assumes "no_jobs start" and "job_step\<^sup>*\<^sup>* start db"
    and "j \<in> set (jobs db)" and "j_state j = StateLeased \<or> j_state j = StateDispatched"
    and "list_all (\<lambda>a. at_id a = attemptID \<longrightarrow> \<not> open_attempt a) (attempts db)"
  shows "\<exists>j' \<in> set (jobs (ReleaseLease (j_id j) attemptID reason now db)). j_id j' = j_id j
      \<and> j_state j' = StateQueued \<and> opens (ReleaseLease (j_id j) attemptID reason now db) (j_id j) = 1"
proof -
  let ?hit = "\<lambda>i. j_id i = j_id j \<and> j_state i \<in> set [StateLeased, StateDispatched]"
  let ?queue = "\<lambda>i. i\<lparr>j_state := StateQueued, j_updated_at := now\<rparr>"
  let ?db' = "ReleaseLease (j_id j) attemptID reason now db"
  have "list_ex ?hit (jobs db)" using assms(3,4) by (auto simp: list_ex_iff)
  then have db': "?db' = releaseBudgets [j_id j] (update_attempts (\<lambda>a. at_id a = attemptID)
      (released_attempt reason now) (update_jobs ?hit ?queue db))"
    by (simp add: ReleaseLease_def Let_def)
  have "?queue j \<in> set (jobs ?db')"
    using assms(3,4) unfolding db' by (auto simp: set_sql_update)
  moreover have "closed_by (\<lambda>a. at_id a = attemptID) db ?db'"
    unfolding db' by (rule closed_by_update) (simp, simp only: closing_attempts)
  then have "opens ?db' (j_id j) = opens db (j_id j)"
    by (rule opens_closed_other) (use assms(5) in \<open>auto simp: list_all_iff\<close>)
  moreover have "store_inv db"
    using jsys.inv_reachable [OF assms(1,2)] by (simp add: runs_inv_def)
  then have "opens db (j_id j) = 1"
    using inv_opens [OF _ assms(3)] assms(4) by (auto simp: ok_opens_def)
  ultimately show ?thesis
    by (intro bexI [of _ "?queue j"]) simp_all
qed

theorem stale_release_requeues_a_carried_job_witness:
  "\<exists>j' \<in> set (jobs (ReleaseLease ''j'' ''j-1'' ''late'' 200000002 demo_again)).
     j_id j' = ''j'' \<and> j_state j' = StateQueued
     \<and> opens (ReleaseLease ''j'' ''j-1'' ''late'' 200000002 demo_again) ''j'' = 1"
proof -
  have "jobs demo_again = [only_job demo_again]" "j_state (only_job demo_again) = StateLeased"
    "j_id (only_job demo_again) = ''j''"
    "list_all (\<lambda>a. at_id a = ''j-1'' \<longrightarrow> \<not> open_attempt a) (attempts demo_again)"
    by code_simp+
  then show ?thesis
    using stale_release_requeues_a_carried_job [OF demo_no_jobs demo_again_run, of "only_job demo_again" "''j-1''"]
    by simp
qed

text \<open>
  C22: A repeated order is the same order. When \<open>Create\<close> answered a job, creating again with the
  same host, action, payload and idempotency key, at any later moment and with any fresh
  identifiers, answers that same job and writes nothing; another action or another payload under
  the same key is refused and writes nothing either.
\<close>

theorem create_is_idempotent:
  assumes "Create reg validate planBinding payloadHash jobID newKey spec now db = (Inr j, db')"
    and "s_IdempotencyKey spec \<noteq> []"
  shows "Create reg validate planBinding payloadHash jobID2 newKey2 spec now2 db' = (Inr j, db')
    \<and> (payloadHash (s_Action spec) p \<noteq> payloadHash (s_Action spec) (s_Payload spec) \<longrightarrow>
       (\<exists>e. Create reg validate planBinding payloadHash jobID2 newKey2 (spec\<lparr>s_Payload := p\<rparr>) now2 db'
            = (Inl e, db')))"
proof -
  let ?mine = "\<lambda>i. o_host (j_order i) = s_HostID spec \<and> o_key (j_order i) = s_IdempotencyKey spec"
  obtain hash where v: "validate (s_Action spec) (s_Payload spec) = None"
      "planBinding (s_Action spec) (s_Payload spec) = None"
      "payloadHash (s_Action spec) (s_Payload spec) = Some hash"
    using assms(1) by (auto simp: Create_def split: option.splits)
  have ord: "o_required (new_order reg h k n s) = requiredApprovals reg s"
    "o_timeout (new_order reg h k n s) = (if s_TimeoutSeconds s \<le> 0 then DefaultTimeout reg (s_Action s) else s_TimeoutSeconds s)"
    for h k n s by (simp_all add: new_order_def)
  have req: "requiredApprovals reg (spec\<lparr>s_Payload := p\<rparr>) = requiredApprovals reg spec"
    by (simp add: requiredApprovals_def)
  have found: "find ?mine (jobs db') = Some j \<and> o_action (j_order j) = s_Action spec
      \<and> o_payload_hash (j_order j) = hash
      \<and> \<not> (requiredApprovals reg spec < 1 \<or> 3 < requiredApprovals reg spec
        \<or> (if s_TimeoutSeconds spec \<le> 0 then DefaultTimeout reg (s_Action spec) else s_TimeoutSeconds spec) \<le> 0)"
  proof (cases "find ?mine (jobs db)")
    case (Some i)
    then show ?thesis
      using assms v unfolding Create_def Let_def ord by (auto split: if_splits)
  next
    case None
    then have "find ?mine (jobs db @ [x]) = (if ?mine x then Some x else None)" for x
      by (rule find_snoc)
    with None show ?thesis
      using assms v unfolding Create_def Let_def ord
      by (auto simp: new_job_def new_order_def split: if_splits)
  qed
  have "Create reg validate planBinding payloadHash jobID2 newKey2 spec now2 db' = (Inr j, db')"
    using found v assms(2) unfolding Create_def Let_def ord by (simp only: option.case if_False) simp
  moreover have "\<exists>e. Create reg validate planBinding payloadHash jobID2 newKey2 (spec\<lparr>s_Payload := p\<rparr>) now2 db'
      = (Inl e, db')"
    if "payloadHash (s_Action spec) p \<noteq> payloadHash (s_Action spec) (s_Payload spec)"
    using found v assms(2) that unfolding Create_def Let_def ord req
    by (auto split: option.splits)
  ultimately show ?thesis by blast
qed

theorem create_is_idempotent_witness:
  "fst (Create (\<lambda>_. None) (\<lambda>_ _. None) (\<lambda>_ _. None) (\<lambda>_ p. Some p) ''j2'' ''u2'' demo_spec 9
     (snd (Create (\<lambda>_. None) (\<lambda>_ _. None) (\<lambda>_ _. None) (\<lambda>_ p. Some p) ''j'' ''u'' demo_spec 0 demo0)))
   = fst (Create (\<lambda>_. None) (\<lambda>_ _. None) (\<lambda>_ _. None) (\<lambda>_ p. Some p) ''j'' ''u'' demo_spec 0 demo0)"
proof -
  let ?c = "Create (\<lambda>_. None) (\<lambda>_ _. None) (\<lambda>_ _. None) (\<lambda>_ p. Some p) ''j'' ''u'' demo_spec 0 demo0"
  have "\<not> isl (fst ?c)" and k: "s_IdempotencyKey demo_spec \<noteq> []" by code_simp+
  then obtain j where "?c = (Inr j, snd ?c)"
    by (metis isl_def prod.collapse sum.exhaust)
  with create_is_idempotent [OF this k] show ?thesis by (metis fst_conv)
qed

end
