(* ===== verification/Comparators.thy ===== *)
theory Comparators
  imports Go_Strings "HOL-Library.Product_Lexorder"
begin

text \<open>
  The contract of a comparison that answers -1, 0 or 1, and a reference comparison: two lists are
  compared element by element, the shorter one continued by a default element. The version
  comparisons of both packages are shown to meet the contract through this reference.
\<close>

section \<open>The contract\<close>

locale order_cmp =
  fixes cmp :: "'a \<Rightarrow> 'a \<Rightarrow> int"
  assumes cmp_range: "cmp a b \<in> {-1, 0, 1}"
    and cmp_flip: "cmp b a = - cmp a b"
    and cmp_trans: "cmp a b \<le> 0 \<Longrightarrow> cmp b c \<le> 0 \<Longrightarrow> cmp a c \<le> 0"
begin

lemma cmp_refl: "cmp a a = 0"
  using cmp_flip [of a a] by simp

lemma cmp_total: "cmp a b \<le> 0 \<or> cmp b a \<le> 0"
  using cmp_flip [of a b] by auto

lemma cmp_eq_trans: "cmp a b = 0 \<Longrightarrow> cmp b c = 0 \<Longrightarrow> cmp a c = 0"
  using cmp_trans [of a b c] cmp_trans [of c b a] cmp_flip [of a b] cmp_flip [of b c]
    cmp_flip [of a c] by simp

lemma cmp_less_trans: "cmp a b < 0 \<Longrightarrow> cmp b c \<le> 0 \<Longrightarrow> cmp a c < 0"
proof -
  assume ab: "cmp a b < 0" and bc: "cmp b c \<le> 0"
  have "cmp a c \<noteq> 0"
  proof
    assume "cmp a c = 0"
    then have "cmp c a \<le> 0" using cmp_flip [of a c] by simp
    then have "cmp b a \<le> 0" using bc cmp_trans by blast
    then show False using ab cmp_flip [of a b] by simp
  qed
  then show ?thesis using cmp_trans [of a b c] ab bc by simp
qed

end

lemma order_cmp_on: "order_cmp c \<Longrightarrow> order_cmp (\<lambda>a b. c (f a) (f b))"
  unfolding order_cmp_def by blast

lemma order_cmp_lex:
  assumes c: "order_cmp c" and d: "order_cmp d"
  shows "order_cmp (\<lambda>a b. if c a b \<noteq> 0 then c a b else d a b)"
proof
  fix a b
  show "(if c a b \<noteq> 0 then c a b else d a b) \<in> {-1, 0, 1}"
    using order_cmp.cmp_range [OF c, of a b] order_cmp.cmp_range [OF d, of a b] by presburger
  show "(if c b a \<noteq> 0 then c b a else d b a) = - (if c a b \<noteq> 0 then c a b else d a b)"
    using order_cmp.cmp_flip [OF c, of b a] order_cmp.cmp_flip [OF d, of b a] by presburger
next
  fix x y z
  assume xy: "(if c x y \<noteq> 0 then c x y else d x y) \<le> 0"
    and yz: "(if c y z \<noteq> 0 then c y z else d y z) \<le> 0"
  from xy have xy': "c x y < 0 \<or> c x y = 0 \<and> d x y \<le> 0" by presburger
  from yz have yz': "c y z < 0 \<or> c y z = 0 \<and> d y z \<le> 0" by presburger
  have le: "c x z \<le> 0"
    using order_cmp.cmp_trans [OF c, of x y z] xy' yz' by linarith
  have "c x z < 0 \<or> c x y = 0 \<and> c y z = 0"
  proof -
    have "c x z < 0" if "c x y < 0"
      using order_cmp.cmp_less_trans [OF c, of x y z] that yz' by linarith
    moreover have "c x z < 0" if "c x y = 0" "c y z < 0"
    proof (rule ccontr)
      assume "\<not> c x z < 0"
      then have "c z x \<le> 0" using order_cmp.cmp_flip [OF c, of x z] by linarith
      then have "c y x < 0" using order_cmp.cmp_less_trans [OF c, of y z x] that by linarith
      then show False using order_cmp.cmp_flip [OF c, of x y] that by linarith
    qed
    ultimately show ?thesis using xy' yz' by blast
  qed
  then show "(if c x z \<noteq> 0 then c x z else d x z) \<le> 0"
    using le order_cmp.cmp_trans [OF d, of x y z] xy' yz' by presburger
qed

section \<open>Comparing by a key\<close>

definition cmp_of :: "'k::linorder \<Rightarrow> 'k \<Rightarrow> int" where
  "cmp_of x y = (if x < y then -1 else if y < x then 1 else 0)"

lemma order_cmp_of: "order_cmp cmp_of"
proof
  fix a b c :: 'a
  assume "cmp_of a b \<le> 0" "cmp_of b c \<le> 0"
  then have "a \<le> b" "b \<le> c" by (auto simp: cmp_of_def not_less split: if_splits)
  then have "a \<le> c" by (rule order_trans)
  then show "cmp_of a c \<le> 0" by (simp add: cmp_of_def)
qed (auto simp: cmp_of_def)

lemma cmp_of_eq_0 [simp]: "cmp_of x y = 0 \<longleftrightarrow> x = y"
  by (auto simp: cmp_of_def)

lemma cmp_of_Cons [simp]: "cmp_of (x # xs) (x # ys) = cmp_of xs ys"
  by (simp add: cmp_of_def)

lemma cmp_of_add [simp]: "cmp_of (k + a) (k + b) = cmp_of a (b :: int)"
  by (simp add: cmp_of_def)

lemma Compare_cmp_of: "Compare = cmp_of"
  by (intro ext) (auto simp: Compare_def cmp_of_def)

lemma cmp_of_refl [simp]: "cmp_of x x = 0"
  by simp

text \<open>
  \<open>cmp_pad d xs ys\<close> compares the first elements that differ, with \<open>d\<close> in place of an element
  that is not there.
\<close>

definition hd_or :: "'k \<Rightarrow> 'k list \<Rightarrow> 'k" where
  "hd_or d xs = (case xs of [] \<Rightarrow> d | x # _ \<Rightarrow> x)"

lemma hd_or_simps [simp]: "hd_or d [] = d" "hd_or d (x # xs) = x"
  by (simp_all add: hd_or_def)

function cmp_pad :: "'k::linorder \<Rightarrow> 'k list \<Rightarrow> 'k list \<Rightarrow> int" where
  "cmp_pad d xs ys =
     (if xs = [] \<and> ys = [] then 0
      else if hd_or d xs \<noteq> hd_or d ys then cmp_of (hd_or d xs) (hd_or d ys)
      else cmp_pad d (tl xs) (tl ys))"
  by pat_completeness auto
termination
  by (relation "measure (\<lambda>(d, xs, ys). length xs + length ys)") (auto simp: neq_Nil_conv)

declare cmp_pad.simps [simp del]

lemma cmp_pad_Nil [simp]: "cmp_pad d [] [] = 0"
  by (simp add: cmp_pad.simps)

lemma cmp_pad_Cons [simp]:
  "cmp_pad d (x # xs) (y # ys) = (if x \<noteq> y then cmp_of x y else cmp_pad d xs ys)"
  by (simp add: cmp_pad.simps)

lemma cmp_pad_Cons_Nil:
  "cmp_pad d (x # xs) [] = (if x \<noteq> d then cmp_of x d else cmp_pad d xs [])"
  "cmp_pad d [] (y # ys) = (if d \<noteq> y then cmp_of d y else cmp_pad d [] ys)"
  by (simp_all add: cmp_pad.simps)

lemma cmp_pad_step:
  "cmp_pad d xs ys = (if hd_or d xs \<noteq> hd_or d ys then cmp_of (hd_or d xs) (hd_or d ys)
     else cmp_pad d (tl xs) (tl ys))"
  by (cases "xs = [] \<and> ys = []") (simp_all add: cmp_pad.simps [of d xs ys])

lemma order_cmp_pad: "order_cmp (cmp_pad d)"
proof
  fix a b :: "'a list"
  show "cmp_pad d a b \<in> {-1, 0, 1}"
    by (induction d a b rule: cmp_pad.induct) (auto simp: cmp_of_def cmp_pad.simps)
  show "cmp_pad d b a = - cmp_pad d a b"
  proof (induction d a b rule: cmp_pad.induct)
    case (1 d xs ys)
    show ?case
    proof (cases "xs = [] \<and> ys = []")
      case False
      with 1 show ?thesis
        unfolding cmp_pad_step [of d xs ys] cmp_pad_step [of d ys xs]
        by (auto simp: cmp_of_def)
    qed simp
  qed
next
  fix a b c :: "'a list"
  assume "cmp_pad d a b \<le> 0" "cmp_pad d b c \<le> 0"
  then show "cmp_pad d a c \<le> 0"
  proof (induction "length a + length b + length c" arbitrary: a b c rule: less_induct)
    case less
    show ?case
    proof (cases "a = [] \<and> b = [] \<and> c = []")
      case False
      then have dec: "length (tl a) + length (tl b) + length (tl c) < length a + length b + length c"
        by (auto simp: neq_Nil_conv)
      have "hd_or d a \<le> hd_or d b" "hd_or d b \<le> hd_or d c"
        using less.prems cmp_pad_step [of d a b] cmp_pad_step [of d b c]
        by (auto simp: cmp_of_def split: if_splits)
      then consider "hd_or d a < hd_or d c" | "hd_or d a = hd_or d b" "hd_or d b = hd_or d c"
        by fastforce
      then show ?thesis
      proof cases
        case 1
        then show ?thesis using cmp_pad_step [of d a c] by (auto simp: cmp_of_def)
      next
        case 2
        then have "cmp_pad d (tl a) (tl b) \<le> 0" "cmp_pad d (tl b) (tl c) \<le> 0"
          using less.prems cmp_pad_step [of d a b] cmp_pad_step [of d b c] by simp_all
        then show ?thesis
          using less.hyps [OF dec] 2 cmp_pad_step [of d a c] by simp
      qed
    qed simp
  qed
qed

lemma order_cmp_by_key:
  assumes "\<And>a b. c a b = cmp_pad d (f a) (f b)"
  shows "order_cmp c"
proof -
  have "c = (\<lambda>a b. cmp_pad d (f a) (f b))" by (intro ext assms)
  then show ?thesis using order_cmp_on [OF order_cmp_pad, of d f] by simp
qed

interpretation pad: order_cmp "cmp_pad d" for d :: "'k::linorder"
  by (rule order_cmp_pad)

text \<open>Defaults at the end of a list do not count.\<close>

lemma cmp_pad_defaults: "cmp_pad d (replicate n d) ys = cmp_pad d [] ys"
proof (induction n arbitrary: ys)
  case (Suc n)
  then show ?case
    by (cases ys) (auto simp: cmp_pad_Cons_Nil)
qed simp

lemma cmp_pad_append:
  "cmp_pad d (p @ xs) (p @ ys) = cmp_pad d xs ys"
  by (induction p) auto

end
