(* ===== verification/Versions.thy ===== *)
theory Versions
  imports Comparators
begin

text \<open>
  Package versions, compared in two places: \<open>internal/vuln/version\<close> decides whether an
  installed package is older than the one an advisory names, and
  \<open>internal/packages/vercmp.go\<close> names the direction of a change in a plan. Both hold a dpkg
  and an rpm comparison of their own.

  A cursor into a string is the rest of the string from there. A loop over two cursors is a
  recursive function over the two rests.
\<close>

section \<open>internal/vuln/version: dpkg\<close>

text \<open>
  \<open>strconv.Atoi\<close> with its error dropped: 0 for a text that is no number, the nearest int64
  for a number out of range.
\<close>

primrec dec_value :: "string \<Rightarrow> int" where
  "dec_value [] = 0"
| "dec_value (c # cs) = (int (code c) - 48) * 10 ^ length cs + dec_value cs"

definition atoi_unsigned :: "string \<Rightarrow> int option" where
  "atoi_unsigned s = (if s \<noteq> [] \<and> list_all isDigit s then Some (dec_value s) else None)"

definition Atoi :: "string \<Rightarrow> int" where
  "Atoi s =
     (let neg = (s \<noteq> [] \<and> hd s = CHR ''-'');
          digits = (if s \<noteq> [] \<and> (hd s = CHR ''-'' \<or> hd s = CHR ''+'') then tl s else s)
      in case atoi_unsigned digits of
           None \<Rightarrow> 0
         | Some n \<Rightarrow> if neg then max (- (2 ^ 63)) (- n) else min (2 ^ 63 - 1) n)"

definition compareNumbers :: "int \<Rightarrow> int \<Rightarrow> int" where
  "compareNumbers a b = (if a < b then -1 else if a > b then 1 else 0)"

definition debOrder :: "char \<Rightarrow> int" where
  "debOrder c =
     (if c = CHR ''~'' then -1
      else if isDigit c then 0
      else if isAlpha c then int (code c)
      else int (code c) + 256)"

definition splitDeb :: "string \<Rightarrow> int \<times> string \<times> string" where
  "splitDeb version0 =
     (let version1 = TrimSpace version0;
          (epoch, version) =
            (case IndexByte version1 CHR '':'' of
               Some colon \<Rightarrow> (Atoi (take colon version1), drop (Suc colon) version1)
             | None \<Rightarrow> (0, version1))
      in case LastIndexByte version CHR ''-'' of
           Some dash \<Rightarrow> (epoch, take dash version, drop (Suc dash) version)
         | None \<Rightarrow> (epoch, version, []))"

text \<open>\<open>text_here s\<close>: the cursor stands on a byte that is not a digit.\<close>

definition text_here :: "string \<Rightarrow> bool" where
  "text_here s = (s \<noteq> [] \<and> \<not> isDigit (hd s))"

text \<open>
  The inner loop of \<open>compareDebPart\<close> over the non-numeric fragments: an answer, or the cursors
  past the fragments.
\<close>

function deb_fragment :: "string \<Rightarrow> string \<Rightarrow> int + (string \<times> string)" where
  "deb_fragment a b =
     (if text_here a \<or> text_here b then
        (let charA = (if a \<noteq> [] then debOrder (hd a) else 0);
             charB = (if b \<noteq> [] then debOrder (hd b) else 0)
         in if charA \<noteq> charB then Inl (compareNumbers charA charB)
            else deb_fragment (tl a) (tl b))
      else Inr (a, b))"
  by pat_completeness auto
termination
  by (relation "measure (\<lambda>(a, b). length a + length b)") (auto simp: text_here_def neq_Nil_conv)

declare deb_fragment.simps [simp del]

subsection \<open>Weights of the bytes of a fragment\<close>

text \<open>
  What the loops over fragments need of a weight: it tells the bytes apart, and no byte weighs
  what the end of a fragment weighs.
\<close>

definition weight :: "(char \<Rightarrow> int) \<Rightarrow> string \<Rightarrow> int" where
  "weight ord s = (if text_here s then ord (hd s) else 0)"

locale text_weight =
  fixes ord :: "char \<Rightarrow> int" and loop :: "string \<Rightarrow> string \<Rightarrow> int + (string \<times> string)"
  assumes ord_nonzero: "\<not> isDigit c \<Longrightarrow> ord c \<noteq> 0"
    and ord_inj: "\<not> isDigit c \<Longrightarrow> \<not> isDigit d \<Longrightarrow> ord c = ord d \<Longrightarrow> c = d"
    and loop_step: "loop a b =
      (if text_here a \<or> text_here b then
         if weight ord a \<noteq> weight ord b then Inl (cmp_of (weight ord a) (weight ord b))
         else loop (tl a) (tl b)
       else Inr (a, b))"
begin

lemma weight_eq:
  assumes "weight ord a = weight ord b" and "text_here a \<or> text_here b"
  obtains c a' b' where "a = c # a'" "b = c # b'" "\<not> isDigit c"
proof -
  have "text_here a \<and> text_here b"
    using assms ord_nonzero by (auto simp: weight_def text_here_def split: if_splits)
  with that assms ord_inj show ?thesis
    by (metis list.collapse text_here_def weight_def)
qed

lemma loop_Inr:
  "loop a b = Inr (a', b') \<Longrightarrow>
     \<exists>p. a = p @ a' \<and> b = p @ b' \<and> list_all (\<lambda>c. \<not> isDigit c) p \<and> \<not> text_here a' \<and> \<not> text_here b'"
proof (induction a arbitrary: b)
  case Nil
  then have "\<not> text_here b"
    using loop_step [of "[]" b] weight_eq [of "[]" b] by (auto split: if_splits)
  with Nil show ?case
    using loop_step [of "[]" b] by (auto simp: text_here_def)
next
  case (Cons c as)
  show ?case
  proof (cases "text_here (c # as) \<or> text_here b")
    case True
    then have w: "weight ord (c # as) = weight ord b"
      using Cons.prems loop_step [of "c # as" b] by (auto split: if_splits)
    obtain bs where b: "b = c # bs" and c: "\<not> isDigit c"
      using weight_eq [OF w True] by auto
    have "loop as bs = Inr (a', b')"
      using Cons.prems loop_step [of "c # as" b] True w b by simp
    from Cons.IH [OF this] obtain p where
      "as = p @ a'" "bs = p @ b'" "list_all (\<lambda>c. \<not> isDigit c) p" "\<not> text_here a'" "\<not> text_here b'"
      by blast
    with b c show ?thesis by (intro exI [of _ "c # p"]) simp
  next
    case False
    then show ?thesis using Cons.prems loop_step [of "c # as" b] by (intro exI [of _ "[]"]) auto
  qed
qed

lemma loop_Inr_takeWhile:
  assumes "loop a b = Inr (a', b')"
  shows "takeWhile (\<lambda>c. \<not> isDigit c) a = takeWhile (\<lambda>c. \<not> isDigit c) b"
    and "a' = dropWhile (\<lambda>c. \<not> isDigit c) a" and "b' = dropWhile (\<lambda>c. \<not> isDigit c) b"
proof -
  obtain p where p: "a = p @ a'" "b = p @ b'" "list_all (\<lambda>c. \<not> isDigit c) p"
    "\<not> text_here a'" "\<not> text_here b'"
    using loop_Inr [OF assms] by blast
  have t: "takeWhile (\<lambda>c. \<not> isDigit c) r = [] \<and> dropWhile (\<lambda>c. \<not> isDigit c) r = r" if "\<not> text_here r" for r
    using that by (cases r) (auto simp: text_here_def)
  show "takeWhile (\<lambda>c. \<not> isDigit c) a = takeWhile (\<lambda>c. \<not> isDigit c) b"
    and "a' = dropWhile (\<lambda>c. \<not> isDigit c) a" and "b' = dropWhile (\<lambda>c. \<not> isDigit c) b"
    using p t [OF p(4)] t [OF p(5)] by (simp_all add: list_all_iff)
qed

lemma loop_Inl:
  "loop a b = Inl r \<Longrightarrow>
     cmp_pad 0 (map ord (takeWhile (\<lambda>c. \<not> isDigit c) a) @ 0 # x)
               (map ord (takeWhile (\<lambda>c. \<not> isDigit c) b) @ 0 # y) = r"
proof (induction a arbitrary: b)
  case Nil
  then show ?case
    using loop_step [of "[]" b] weight_eq [of "[]" b] ord_nonzero
    by (cases b) (auto simp: text_here_def weight_def split: if_splits)
next
  case (Cons c as)
  have th: "text_here (c # as) \<or> text_here b"
    using Cons.prems loop_step [of "c # as" b] by (auto split: if_splits)
  show ?case
  proof (cases "weight ord (c # as) = weight ord b")
    case True
    from weight_eq [OF this th] obtain bs where b: "b = c # bs" and c: "\<not> isDigit c" by auto
    have "loop as bs = Inl r"
      using Cons.prems loop_step [of "c # as" b] True th b by simp
    from Cons.IH [OF this] show ?thesis using b c by simp
  next
    case False
    then have "r = cmp_of (weight ord (c # as)) (weight ord b)"
      using Cons.prems loop_step [of "c # as" b] th by (simp split: if_splits)
    with False show ?thesis
      by (cases b) (auto simp: weight_def text_here_def)
  qed
qed

end

lemma code_apart [simp]:
  "int (code c) + 256 \<noteq> int (code d)" "int (code c) \<noteq> int (code d) + 256"
  using nat_of_char_less_256 [of c] nat_of_char_less_256 [of d] by linarith+

interpretation vuln: text_weight debOrder deb_fragment
proof
  fix a b
  have w: "(if s \<noteq> [] then debOrder (hd s) else 0) = weight debOrder s" for s
    by (auto simp: weight_def text_here_def debOrder_def isDigit_code)
  show "deb_fragment a b =
      (if text_here a \<or> text_here b then
         if weight debOrder a \<noteq> weight debOrder b then Inl (cmp_of (weight debOrder a) (weight debOrder b))
         else deb_fragment (tl a) (tl b)
       else Inr (a, b))"
    unfolding deb_fragment.simps [of a b] w Let_def by (simp add: compareNumbers_def cmp_of_def)
next
  fix c d
  show "\<not> isDigit c \<Longrightarrow> debOrder c \<noteq> 0"
    by (auto simp: debOrder_def isAlpha_code)
  show "\<not> isDigit c \<Longrightarrow> \<not> isDigit d \<Longrightarrow> debOrder c = debOrder d \<Longrightarrow> c = d"
    by (auto simp: debOrder_def split: if_splits)
qed

lemma deb_fragment_Inr_length:
  assumes "deb_fragment a b = Inr (a', b')"
  shows "length a' + length b' \<le> length a + length b"
    and "text_here a \<or> text_here b \<Longrightarrow> length a' + length b' < length a + length b"
    and "\<not> text_here a'" and "\<not> text_here b'"
proof -
  obtain p where "a = p @ a'" "b = p @ b'" "\<not> text_here a'" "\<not> text_here b'"
    using vuln.loop_Inr [OF assms] by blast
  then show "length a' + length b' \<le> length a + length b"
    "text_here a \<or> text_here b \<Longrightarrow> length a' + length b' < length a + length b"
    "\<not> text_here a'" "\<not> text_here b'"
    by (cases p; simp)+
qed

function compareDebPart :: "string \<Rightarrow> string \<Rightarrow> int" where
  "compareDebPart a b =
     (if a \<noteq> [] \<or> b \<noteq> [] then
        (case deb_fragment a b of
           Inl result \<Rightarrow> result
         | Inr (a1, b1) \<Rightarrow>
             (let a2 = dropWhile (\<lambda>c. c = CHR ''0'') a1;
                  b2 = dropWhile (\<lambda>c. c = CHR ''0'') b1;
                  digitsA = takeWhile isDigit a2;
                  digitsB = takeWhile isDigit b2
              in if length digitsA \<noteq> length digitsB
                 then compareNumbers (int (length digitsA)) (int (length digitsB))
                 else if Compare digitsA digitsB \<noteq> 0 then Compare digitsA digitsB
                 else compareDebPart (dropWhile isDigit a2) (dropWhile isDigit b2)))
      else 0)"
  by pat_completeness auto

lemma digits_shrink:
  "length (dropWhile isDigit (dropWhile P s)) \<le> length s"
  by (meson length_dropWhile_le order_trans)

lemma digits_shrink_strict:
  assumes "\<not> text_here s" "s \<noteq> []"
  shows "length (dropWhile isDigit (dropWhile (\<lambda>c. c = CHR ''0'') s)) < length s"
proof -
  obtain c cs where s: "s = c # cs" "isDigit c" using assms by (auto simp: text_here_def neq_Nil_conv)
  show ?thesis
    using digits_shrink [of "\<lambda>c. c = CHR ''0''" cs] length_dropWhile_le [of isDigit cs] s
    by (auto simp: less_Suc_eq_le)
qed

lemma cursors_shrink:
  assumes "a \<noteq> [] \<or> b \<noteq> []" and "deb_fragment a b = Inr (a1, b1)"
  shows "length (dropWhile isDigit (dropWhile (\<lambda>c. c = CHR ''0'') a1))
       + length (dropWhile isDigit (dropWhile (\<lambda>c. c = CHR ''0'') b1)) < length a + length b"
proof (cases "text_here a \<or> text_here b")
  case True
  then show ?thesis
    using deb_fragment_Inr_length [OF assms(2)] digits_shrink [of "\<lambda>c. c = CHR ''0''" a1]
      digits_shrink [of "\<lambda>c. c = CHR ''0''" b1] by linarith
next
  case False
  then have "a1 = a" "b1 = b" using assms(2) by (simp_all add: deb_fragment.simps [of a b])
  then show ?thesis
    using False assms(1) digits_shrink_strict [of a] digits_shrink_strict [of b]
      digits_shrink [of "\<lambda>c. c = CHR ''0''" a] digits_shrink [of "\<lambda>c. c = CHR ''0''" b]
    by fastforce
qed

termination compareDebPart
  by (relation "measure (\<lambda>(a, b). length a + length b)") (auto intro: cursors_shrink)

declare compareDebPart.simps [simp del]

definition CompareDeb :: "string \<Rightarrow> string \<Rightarrow> int" where
  "CompareDeb a b =
     (let (epochA, upstreamA, revisionA) = splitDeb a;
          (epochB, upstreamB, revisionB) = splitDeb b
      in if compareNumbers epochA epochB \<noteq> 0 then compareNumbers epochA epochB
         else if compareDebPart upstreamA upstreamB \<noteq> 0 then compareDebPart upstreamA upstreamB
         else compareDebPart revisionA revisionB)"

section \<open>internal/packages: dpkg\<close>

definition compareNumeric :: "string \<Rightarrow> string \<Rightarrow> int" where
  "compareNumeric a0 b0 =
     (let a = TrimLeft a0 CHR ''0''; b = TrimLeft b0 CHR ''0'' in
      if length a \<noteq> length b then (if length a < length b then -1 else 1)
      else Compare a b)"

text \<open>\<open>unicode.IsLetter\<close> of a byte read as a rune: the letters of Latin-1.\<close>

definition IsLetterLatin1 :: "char \<Rightarrow> bool" where
  "IsLetterLatin1 c =
     (isAlpha c \<or> c \<in> {CHR 0xAA, CHR 0xB5, CHR 0xBA} \<or> byte_in (CHR 0xC0) (CHR 0xD6) c
      \<or> byte_in (CHR 0xD8) (CHR 0xF6) c \<or> byte_in (CHR 0xF8) (CHR 0xFF) c)"

definition pkg_debOrder :: "char \<Rightarrow> bool \<Rightarrow> int" where
  "pkg_debOrder c present =
     (if \<not> present then 0
      else if c = CHR ''~'' then -1
      else if IsLetterLatin1 c then int (code c)
      else int (code c) + 256)"

definition splitEpoch :: "string \<Rightarrow> string \<times> string" where
  "splitEpoch version =
     (case IndexByte version CHR '':'' of
        Some index \<Rightarrow> (take index version, drop (Suc index) version)
      | None \<Rightarrow> (''0'', version))"

definition splitDebRevision :: "string \<Rightarrow> string \<times> string" where
  "splitDebRevision version =
     (case LastIndexByte version CHR ''-'' of
        Some index \<Rightarrow> (take index version, drop (Suc index) version)
      | None \<Rightarrow> (version, []))"

function pkg_fragment :: "string \<Rightarrow> string \<Rightarrow> int + (string \<times> string)" where
  "pkg_fragment a b =
     (if text_here a \<or> text_here b then
        (let ca = (if text_here a then hd a else CHR 0x00);
             cb = (if text_here b then hd b else CHR 0x00);
             order = pkg_debOrder ca (text_here a) - pkg_debOrder cb (text_here b)
         in if order \<noteq> 0 then Inl (if order < 0 then -1 else 1)
            else pkg_fragment (if text_here a then tl a else a) (if text_here b then tl b else b))
      else Inr (a, b))"
  by pat_completeness auto
termination
  by (relation "measure (\<lambda>(a, b). length a + length b)") (auto simp: text_here_def neq_Nil_conv)

declare pkg_fragment.simps [simp del]

lemma pkg_debOrder_present:
  "\<not> isDigit c \<Longrightarrow> pkg_debOrder c True \<noteq> 0"
  "pkg_debOrder c True = pkg_debOrder d True \<Longrightarrow> c = d"
  by (auto simp: pkg_debOrder_def IsLetterLatin1_def isAlpha_code byte_in_def code_le_iff
      split: if_splits)

interpretation pkg: text_weight "\<lambda>c. pkg_debOrder c True" pkg_fragment
proof
  fix a b
  let ?ord = "\<lambda>c. pkg_debOrder c True"
  have w: "pkg_debOrder (if text_here s then hd s else CHR 0x00) (text_here s) = weight ?ord s" for s
    by (simp add: weight_def pkg_debOrder_def)
  have both: "text_here a \<and> text_here b" if "weight ?ord a = weight ?ord b" "text_here a \<or> text_here b"
    using that pkg_debOrder_present(1) by (auto simp: weight_def text_here_def split: if_splits)
  show "pkg_fragment a b =
      (if text_here a \<or> text_here b then
         if weight ?ord a \<noteq> weight ?ord b then Inl (cmp_of (weight ?ord a) (weight ?ord b))
         else pkg_fragment (tl a) (tl b)
       else Inr (a, b))"
    using both unfolding pkg_fragment.simps [of a b] Let_def w by (auto simp: cmp_of_def)
qed (auto dest: pkg_debOrder_present)

function pkg_compareDebPart :: "string \<Rightarrow> string \<Rightarrow> int" where
  "pkg_compareDebPart a b =
     (if a \<noteq> [] \<or> b \<noteq> [] then
        (case pkg_fragment a b of
           Inl order \<Rightarrow> order
         | Inr (a1, b1) \<Rightarrow>
             (let order = compareNumeric (takeWhile isDigit a1) (takeWhile isDigit b1)
              in if order \<noteq> 0 then order
                 else pkg_compareDebPart (dropWhile isDigit a1) (dropWhile isDigit b1)))
      else 0)"
  by pat_completeness auto

lemma pkg_cursors_shrink:
  assumes "a \<noteq> [] \<or> b \<noteq> []" and "pkg_fragment a b = Inr (a1, b1)"
  shows "length (dropWhile isDigit a1) + length (dropWhile isDigit b1) < length a + length b"
proof -
  obtain p where p: "a = p @ a1" "b = p @ b1" "\<not> text_here a1" "\<not> text_here b1"
    using pkg.loop_Inr [OF assms(2)] by blast
  have le: "length (dropWhile isDigit s) \<le> length s" for s by (rule length_dropWhile_le)
  have less: "length (dropWhile isDigit s) < length s" if "\<not> text_here s" "s \<noteq> []" for s
    using that le [of "tl s"] by (cases s) (auto simp: text_here_def)
  show ?thesis
  proof (cases "p = []")
    case True
    with assms(1) p have "a1 \<noteq> [] \<or> b1 \<noteq> []" by simp
    with True p less [of a1] less [of b1] le [of a1] le [of b1] show ?thesis by fastforce
  next
    case False
    with p le [of a1] le [of b1] show ?thesis by (cases p) simp_all
  qed
qed

termination pkg_compareDebPart
  by (relation "measure (\<lambda>(a, b). length a + length b)") (auto intro: pkg_cursors_shrink)

declare pkg_compareDebPart.simps [simp del]

definition CompareDebVersions :: "string \<Rightarrow> string \<Rightarrow> int" where
  "CompareDebVersions a b =
     (let (epochA, restA) = splitEpoch a; (epochB, restB) = splitEpoch b in
      if compareNumeric epochA epochB \<noteq> 0 then compareNumeric epochA epochB
      else let (upstreamA, revisionA) = splitDebRevision restA;
               (upstreamB, revisionB) = splitDebRevision restB
           in if pkg_compareDebPart upstreamA upstreamB \<noteq> 0 then pkg_compareDebPart upstreamA upstreamB
              else pkg_compareDebPart revisionA revisionB)"

section \<open>Both packages: rpm\<close>

definition rpm_skip :: "string \<Rightarrow> string" where
  "rpm_skip s = dropWhile (\<lambda>c. \<not> isAlnum c \<and> c \<noteq> CHR ''~'' \<and> c \<noteq> CHR ''^'') s"

definition at_byte :: "char \<Rightarrow> string \<Rightarrow> bool" where
  "at_byte c s = (s \<noteq> [] \<and> hd s = c)"

definition rpm_rest :: "string \<Rightarrow> string \<Rightarrow> int" where
  "rpm_rest a b = (if a = [] \<and> b = [] then 0 else if a = [] then -1 else 1)"

text \<open>\<open>CompareRPMSegment\<close> of \<open>internal/vuln/version\<close>.\<close>

function CompareRPMSegment :: "string \<Rightarrow> string \<Rightarrow> int" where
  "CompareRPMSegment a0 b0 =
     (if a0 = [] \<and> b0 = [] then rpm_rest a0 b0
      else let a = rpm_skip a0; b = rpm_skip b0 in
        if at_byte (CHR ''~'') a \<or> at_byte (CHR ''~'') b then
          (if \<not> at_byte (CHR ''~'') a then 1
           else if \<not> at_byte (CHR ''~'') b then -1
           else CompareRPMSegment (tl a) (tl b))
        else if at_byte (CHR ''^'') a \<or> at_byte (CHR ''^'') b then
          (if a = [] then -1
           else if b = [] then 1
           else if \<not> at_byte (CHR ''^'') a then 1
           else if \<not> at_byte (CHR ''^'') b then -1
           else CompareRPMSegment (tl a) (tl b))
        else if a = [] \<or> b = [] then rpm_rest a b
        else let numeric = isDigit (hd a);
                 run = (if numeric then isDigit else isAlpha);
                 segmentA = takeWhile run a; segmentB = takeWhile run b;
                 trimmedA = (if numeric then TrimLeft segmentA CHR ''0'' else segmentA);
                 trimmedB = (if numeric then TrimLeft segmentB CHR ''0'' else segmentB)
          in if segmentB = [] then (if numeric then 1 else -1)
             else if numeric \<and> length trimmedA \<noteq> length trimmedB
               then (if length trimmedA > length trimmedB then 1 else -1)
             else if Compare trimmedA trimmedB \<noteq> 0
               then (if Compare trimmedA trimmedB > 0 then 1 else -1)
             else CompareRPMSegment (dropWhile run a) (dropWhile run b))"
  by pat_completeness auto

lemma rpm_skip_le: "length (rpm_skip s) \<le> length s"
  by (simp add: rpm_skip_def length_dropWhile_le)

lemma rpm_tl_shrink:
  assumes "at_byte c (rpm_skip a)"
  shows "length (tl (rpm_skip a)) + length (tl (rpm_skip b)) < length a + length b"
proof -
  have "length (tl (rpm_skip a)) < length (rpm_skip a)"
    using assms by (auto simp: at_byte_def)
  moreover have "length (tl (rpm_skip b)) \<le> length (rpm_skip b)" by simp
  ultimately show ?thesis using rpm_skip_le [of a] rpm_skip_le [of b] by linarith
qed

lemma rpm_run_shrink:
  assumes "rpm_skip a \<noteq> []" and "\<not> at_byte (CHR ''~'') (rpm_skip a)"
    and "\<not> at_byte (CHR ''^'') (rpm_skip a)"
    and "run = (if isDigit (hd (rpm_skip a)) then isDigit else isAlpha)"
  shows "length (dropWhile run (rpm_skip a)) + length (dropWhile run (rpm_skip b)) < length a + length b"
proof -
  obtain c cs where s: "rpm_skip a = c # cs" using assms(1) by (cases "rpm_skip a") auto
  then have "isAlnum c"
    using hd_dropWhile [of "\<lambda>c. \<not> isAlnum c \<and> c \<noteq> CHR ''~'' \<and> c \<noteq> CHR ''^''" a] assms
    by (auto simp: rpm_skip_def at_byte_def)
  then have "length (dropWhile run (c # cs)) \<le> length cs"
    using assms(4) s by (auto simp: isAlnum_def length_dropWhile_le)
  moreover have "length (dropWhile run (rpm_skip b)) \<le> length (rpm_skip b)"
    by (rule length_dropWhile_le)
  ultimately show ?thesis using rpm_skip_le [of a] rpm_skip_le [of b] s by simp
qed

termination CompareRPMSegment
  by (relation "measure (\<lambda>(a, b). length a + length b)")
     (simp_all only: in_measure case_prod_conv de_Morgan_disj not_not wf_measure rpm_tl_shrink,
      rule rpm_run_shrink, simp_all only: simp_thms)

declare CompareRPMSegment.simps [simp del]

definition splitEVR :: "string \<Rightarrow> string \<times> string \<times> string" where
  "splitEVR evr0 =
     (let evr1 = TrimSpace evr0;
          (epoch, evr) =
            (case IndexByte evr1 CHR '':'' of
               Some colon \<Rightarrow>
                 (if TrimSpace (take colon evr1) = [] then ''0'' else take colon evr1, drop (Suc colon) evr1)
             | None \<Rightarrow> (''0'', evr1))
      in case IndexByte evr CHR ''-'' of
           Some dash \<Rightarrow> (epoch, take dash evr, drop (Suc dash) evr)
         | None \<Rightarrow> (epoch, evr, []))"

definition CompareRPM :: "string \<Rightarrow> string \<Rightarrow> int" where
  "CompareRPM a b =
     (let (epochA, versionA, releaseA) = splitEVR a;
          (epochB, versionB, releaseB) = splitEVR b
      in if CompareRPMSegment epochA epochB \<noteq> 0 then CompareRPMSegment epochA epochB
         else if CompareRPMSegment versionA versionB \<noteq> 0 then CompareRPMSegment versionA versionB
         else if releaseA = [] \<or> releaseB = [] then 0
         else CompareRPMSegment releaseA releaseB)"

text \<open>\<open>rpmvercmp\<close> of \<open>internal/packages\<close>: the loop, and the shortcut in front of it.\<close>

function rpmvercmp_loop :: "string \<Rightarrow> string \<Rightarrow> int" where
  "rpmvercmp_loop a0 b0 =
     (if a0 = [] \<and> b0 = [] then rpm_rest a0 b0
      else let a = rpm_skip a0; b = rpm_skip b0;
               tildeA = at_byte (CHR ''~'') a; tildeB = at_byte (CHR ''~'') b;
               caretA = at_byte (CHR ''^'') a; caretB = at_byte (CHR ''^'') b
        in
        if tildeA \<or> tildeB then
          (if \<not> tildeA then 1 else if \<not> tildeB then -1 else rpmvercmp_loop (tl a) (tl b))
        else if caretA \<or> caretB then
          (if a = [] then -1
           else if b = [] then 1
           else if \<not> caretA then 1
           else if \<not> caretB then -1
           else rpmvercmp_loop (tl a) (tl b))
        else if a = [] \<or> b = [] then rpm_rest a b
        else let numeric = isDigit (hd a);
                 run = (if numeric then isDigit else isAlpha);
                 segmentA = takeWhile run a; segmentB = takeWhile run b;
                 order = (if numeric then compareNumeric segmentA segmentB
                          else Compare segmentA segmentB)
          in if segmentB = [] then (if numeric then 1 else -1)
             else if order \<noteq> 0 then order
             else rpmvercmp_loop (dropWhile run a) (dropWhile run b))"
  by pat_completeness auto
termination
  by (relation "measure (\<lambda>(a, b). length a + length b)")
     (simp_all only: in_measure case_prod_conv de_Morgan_disj not_not wf_measure rpm_tl_shrink,
      rule rpm_run_shrink, simp_all only: simp_thms)

declare rpmvercmp_loop.simps [simp del]

definition rpmvercmp :: "string \<Rightarrow> string \<Rightarrow> int" where
  "rpmvercmp a b = (if a = b then 0 else rpmvercmp_loop a b)"

definition CompareRPMVersions :: "string \<Rightarrow> string \<Rightarrow> int" where
  "CompareRPMVersions a b =
     (let (epochA, restA) = splitEpoch a; (epochB, restB) = splitEpoch b in
      if compareNumeric epochA epochB \<noteq> 0 then compareNumeric epochA epochB
      else let (versionA, releaseA) = splitDebRevision restA;
               (versionB, releaseB) = splitDebRevision restB
           in if rpmvercmp versionA versionB \<noteq> 0 then rpmvercmp versionA versionB
              else rpmvercmp releaseA releaseB)"

section \<open>The direction of a change\<close>

definition changeAction :: "string \<Rightarrow> string \<Rightarrow> string \<Rightarrow> string" where
  "changeAction manager current candidate =
     (if current = [] \<and> candidate = [] then []
      else if current = [] then ''install''
      else if candidate = [] then ''remove''
      else let order = (if manager = ''apt'' then CompareDebVersions candidate current
                        else CompareRPMVersions candidate current)
           in if order < 0 then ''downgrade'' else ''upgrade'')"

end
