(* ===== verification/Version_Order.thy ===== *)
theory Version_Order
  imports Versions
begin

text \<open>
  The version comparisons against their rule books. A version becomes the list of what its rule
  book compares (the key), numbers by value, and the comparison is that of the keys. That makes
  every comparison a total preorder, lets the two packages be compared with each other, and
  settles the direction of a change.
\<close>

section \<open>Numbers\<close>

lemma dec_value_bounds:
  "list_all isDigit s \<Longrightarrow> 0 \<le> dec_value s \<and> dec_value s < 10 ^ length s"
proof (induction s)
  case (Cons c cs)
  then have c: "48 \<le> int (code c)" "int (code c) \<le> 57" by (simp_all add: isDigit_code)
  have "(int (code c) - 48) * 10 ^ length cs \<le> 9 * 10 ^ length cs"
    using c by (intro mult_right_mono) simp_all
  moreover have "0 \<le> (int (code c) - 48) * 10 ^ length cs" using c by simp
  moreover have "0 \<le> dec_value cs" "dec_value cs < 10 ^ length cs" using Cons by simp_all
  ultimately show ?case unfolding dec_value.simps length_Cons power_Suc by linarith
qed simp

lemma dec_value_trim [simp]: "dec_value (dropWhile (\<lambda>c. c = CHR ''0'') s) = dec_value s"
  by (induction s) simp_all

lemma dec_value_lower:
  assumes "list_all isDigit (c # cs)" "c \<noteq> CHR ''0''"
  shows "10 ^ length cs \<le> dec_value (c # cs)"
proof -
  have "code c \<noteq> (code (CHR ''0'') :: nat)"
    using assms(2) by (simp only: of_char_eq_iff not_False_eq_True)
  then have "code c \<noteq> (48 :: nat)" by simp
  then have c: "1 \<le> int (code c) - 48" using assms(1) by (simp add: isDigit_code)
  have "1 * 10 ^ length cs \<le> (int (code c) - 48) * 10 ^ length cs"
    using c by (intro mult_right_mono) simp_all
  moreover have "0 \<le> dec_value cs" using dec_value_bounds [of cs] assms(1) by simp
  ultimately show ?thesis unfolding dec_value.simps by linarith
qed

lemma dec_value_less_length:
  assumes "list_all isDigit a" "list_all isDigit b" "length a < length b" "b \<noteq> []" "hd b \<noteq> CHR ''0''"
  shows "dec_value a < dec_value b"
proof -
  obtain c cs where b: "b = c # cs" using assms(4) by (cases b) auto
  have "dec_value a < 10 ^ length a" using dec_value_bounds assms(1) by blast
  also have "\<dots> \<le> 10 ^ length cs" using assms(3) b by (intro power_increasing) simp_all
  also have "\<dots> \<le> dec_value b" using dec_value_lower [of c cs] assms b by simp
  finally show ?thesis .
qed

lemma dec_value_less_head:
  assumes "list_all isDigit (x # xs)" "list_all isDigit (y # ys)" "length xs = length ys" "x < y"
  shows "dec_value (x # xs) < dec_value (y # ys)"
proof -
  have "int (code x) + 1 \<le> int (code y)" using assms(4) by (simp add: code_less_iff)
  then have "(int (code x) - 48 + 1) * 10 ^ length xs \<le> (int (code y) - 48) * 10 ^ length xs"
    by (intro mult_right_mono) simp_all
  then have "(int (code x) - 48) * 10 ^ length xs + 10 ^ length xs \<le> (int (code y) - 48) * 10 ^ length ys"
    unfolding distrib_right assms(3) [symmetric] by linarith
  moreover have "dec_value xs < 10 ^ length xs" "0 \<le> dec_value ys"
    using dec_value_bounds [of xs] dec_value_bounds [of ys] assms by simp_all
  ultimately show ?thesis unfolding dec_value.simps by linarith
qed

lemma dec_value_same_length:
  "length a = length b \<Longrightarrow> list_all isDigit a \<Longrightarrow> list_all isDigit b \<Longrightarrow>
     cmp_of (dec_value a) (dec_value b) = cmp_of a b"
proof (induction a b rule: list_induct2)
  case (Cons x xs y ys)
  consider "x < y" | "y < x" | "x = y" by (meson linorder_cases)
  then show ?case
  proof cases
    case 1
    then show ?thesis
      using dec_value_less_head [of x xs y ys] Cons.hyps Cons.prems by (auto simp: cmp_of_def)
  next
    case 2
    then show ?thesis
      using dec_value_less_head [of y ys x xs] Cons.hyps Cons.prems by (auto simp: cmp_of_def)
  next
    case 3
    with Cons show ?thesis by simp
  qed
qed simp

lemma trimmed: "r = dropWhile (\<lambda>c. c = CHR ''0'') s \<Longrightarrow> r \<noteq> [] \<Longrightarrow> hd r \<noteq> CHR ''0''"
  using hd_dropWhile [of "\<lambda>c. c = CHR ''0''" s] by blast

lemma list_all_dropWhile: "list_all P s \<Longrightarrow> list_all P (dropWhile Q s)"
  by (auto simp: list_all_iff dest: set_dropWhileD)

lemma compareNumeric_value:
  assumes "list_all isDigit a" "list_all isDigit b"
  shows "compareNumeric a b = cmp_of (dec_value a) (dec_value b)"
proof -
  define a' b' where "a' = dropWhile (\<lambda>c. c = CHR ''0'') a" and "b' = dropWhile (\<lambda>c. c = CHR ''0'') b"
  have d: "list_all isDigit a'" "list_all isDigit b'" "dec_value a' = dec_value a" "dec_value b' = dec_value b"
    using assms by (simp_all add: a'_def b'_def list_all_dropWhile)
  have less: "cmp_of (dec_value a') (dec_value b') = -1" if "length a' < length b'"
  proof -
    have "b' \<noteq> []" using that by auto
    then show ?thesis
      using dec_value_less_length [OF d(1,2) that] trimmed [OF b'_def] by (simp add: cmp_of_def)
  qed
  have greater: "cmp_of (dec_value a') (dec_value b') = 1" if "length b' < length a'"
  proof -
    have "a' \<noteq> []" using that by auto
    then show ?thesis
      using dec_value_less_length [OF d(2,1) that] trimmed [OF a'_def] by (simp add: cmp_of_def)
  qed
  show ?thesis
    unfolding compareNumeric_def Let_def TrimLeft_def a'_def [symmetric] b'_def [symmetric]
    using less greater dec_value_same_length [OF _ d(1,2)] d(3,4)
    by (auto simp: Compare_cmp_of)
qed

lemma order_compareNumeric: "order_cmp compareNumeric"
proof -
  let ?trim = "\<lambda>s. TrimLeft s CHR ''0''"
  have "order_cmp (\<lambda>a b. if cmp_of (length (?trim a)) (length (?trim b)) \<noteq> 0
      then cmp_of (length (?trim a)) (length (?trim b)) else cmp_of (?trim a) (?trim b))"
    by (intro order_cmp_lex order_cmp_on [OF order_cmp_of])
  moreover have "compareNumeric = (\<lambda>a b. if cmp_of (length (?trim a)) (length (?trim b)) \<noteq> 0
      then cmp_of (length (?trim a)) (length (?trim b)) else cmp_of (?trim a) (?trim b))"
    by (intro ext) (auto simp: compareNumeric_def Let_def Compare_cmp_of cmp_of_def)
  ultimately show ?thesis by simp
qed

section \<open>dpkg: the key of a part\<close>

text \<open>
  The weights of a fragment, the weight of its end, the value of the number after it, and so on.
  A part that ends goes on with empty fragments and zeros, which is what the default 0 says.
\<close>

abbreviation text_run :: "string \<Rightarrow> string" where
  "text_run s \<equiv> takeWhile (\<lambda>c. \<not> isDigit c) s"

abbreviation past_text :: "string \<Rightarrow> string" where
  "past_text s \<equiv> dropWhile (\<lambda>c. \<not> isDigit c) s"

lemma past_number_shrinks: "s \<noteq> [] \<Longrightarrow> length (dropWhile isDigit (past_text s)) < length s"
proof -
  assume "s \<noteq> []"
  then obtain c cs where s: "s = c # cs" by (cases s) auto
  have "length (dropWhile isDigit (past_text cs)) \<le> length cs" "length (dropWhile isDigit cs) \<le> length cs"
    by (meson length_dropWhile_le order_trans)+
  then show ?thesis by (cases "isDigit c") (simp_all add: s less_Suc_eq_le)
qed

function deb_key :: "(char \<Rightarrow> int) \<Rightarrow> string \<Rightarrow> int list" where
  "deb_key ord s =
     (if s = [] then []
      else map ord (text_run s) @ 0 # dec_value (takeWhile isDigit (past_text s))
             # deb_key ord (dropWhile isDigit (past_text s)))"
  by pat_completeness auto
termination
  by (relation "measure (\<lambda>(ord, s). length s)") (simp_all add: past_number_shrinks)

declare deb_key.simps [simp del]

definition deb_key_open :: "(char \<Rightarrow> int) \<Rightarrow> string \<Rightarrow> int list" where
  "deb_key_open ord s =
     map ord (text_run s) @ 0 # dec_value (takeWhile isDigit (past_text s))
       # deb_key ord (dropWhile isDigit (past_text s))"

lemma deb_key_open_left: "cmp_pad 0 (deb_key ord s) ys = cmp_pad 0 (deb_key_open ord s) ys"
proof (cases "s = []")
  case True
  then show ?thesis
    using cmp_pad_defaults [of 0 2 ys] by (simp add: deb_key.simps deb_key_open_def numeral_2_eq_2)
qed (simp add: deb_key.simps [of ord s] deb_key_open_def)

lemma deb_key_open_both:
  "cmp_pad 0 (deb_key ord a) (deb_key ord b) = cmp_pad 0 (deb_key_open ord a) (deb_key_open ord b)"
  using deb_key_open_left [of ord a] deb_key_open_left [of ord b] pad.cmp_flip by metis

context text_weight
begin

text \<open>Any comparison that runs the loop and then compares the numbers compares the keys.\<close>

lemma part_by_key:
  assumes step: "\<And>a b. a \<noteq> [] \<or> b \<noteq> [] \<Longrightarrow> f a b = (case loop a b of
       Inl r \<Rightarrow> r
     | Inr (a1, b1) \<Rightarrow>
         if dec_value (takeWhile isDigit a1) \<noteq> dec_value (takeWhile isDigit b1)
         then cmp_of (dec_value (takeWhile isDigit a1)) (dec_value (takeWhile isDigit b1))
         else f (dropWhile isDigit a1) (dropWhile isDigit b1))"
    and nil: "f [] [] = 0"
  shows "f a b = cmp_pad 0 (deb_key ord a) (deb_key ord b)"
proof (induction "length a + length b" arbitrary: a b rule: less_induct)
  case less
  show ?case
  proof (cases "a = [] \<and> b = []")
    case False
    then have ne: "a \<noteq> [] \<or> b \<noteq> []" by simp
    show ?thesis
    proof (cases "loop a b")
      case (Inl r)
      then show ?thesis
        using step [OF ne] loop_Inl [OF Inl] by (simp add: deb_key_open_both deb_key_open_def)
    next
      case (Inr ab)
      then obtain a1 b1 where l: "loop a b = Inr (a1, b1)" by (cases ab) auto
      note t = loop_Inr_takeWhile [OF l]
      have "length (dropWhile isDigit (past_text s)) \<le> length s" for s
        by (meson length_dropWhile_le order_trans)
      then have "length (dropWhile isDigit a1) + length (dropWhile isDigit b1) < length a + length b"
        unfolding t(2,3) using ne past_number_shrinks [of a] past_number_shrinks [of b]
        by (metis add_le_less_mono add_less_le_mono)
      from less [OF this] show ?thesis
        using step [OF ne] l t by (simp add: deb_key_open_both deb_key_open_def cmp_pad_append)
    qed
  qed (simp add: nil deb_key.simps)
qed

end

lemma takeWhile_trimmed:
  "takeWhile isDigit (dropWhile (\<lambda>c. c = CHR ''0'') s) = dropWhile (\<lambda>c. c = CHR ''0'') (takeWhile isDigit s)"
  "dropWhile isDigit (dropWhile (\<lambda>c. c = CHR ''0'') s) = dropWhile isDigit s"
  by (induction s) (auto simp: isDigit_code)

lemma digits_takeWhile: "list_all isDigit (takeWhile isDigit s)"
  by (auto simp: list_all_iff dest: set_takeWhileD)

text \<open>The number comparison written out in \<open>compareDebPart\<close> is \<open>compareNumeric\<close>.\<close>

lemma number_step:
  fixes x y :: string and k :: int
  defines "x' \<equiv> dropWhile (\<lambda>c. c = CHR ''0'') x" and "y' \<equiv> dropWhile (\<lambda>c. c = CHR ''0'') y"
  shows "(if length x' \<noteq> length y' then compareNumbers (int (length x')) (int (length y'))
          else if Compare x' y' \<noteq> 0 then Compare x' y' else k) =
         (if compareNumeric x y \<noteq> 0 then compareNumeric x y else k)"
  by (simp add: compareNumeric_def TrimLeft_def Let_def compareNumbers_def x'_def y'_def)

lemma compareDebPart_key:
  "compareDebPart a b = cmp_pad 0 (deb_key debOrder a) (deb_key debOrder b)"
proof (rule vuln.part_by_key)
  fix a b :: string
  assume "a \<noteq> [] \<or> b \<noteq> []"
  then show "compareDebPart a b = (case deb_fragment a b of
       Inl r \<Rightarrow> r
     | Inr (a1, b1) \<Rightarrow>
         if dec_value (takeWhile isDigit a1) \<noteq> dec_value (takeWhile isDigit b1)
         then cmp_of (dec_value (takeWhile isDigit a1)) (dec_value (takeWhile isDigit b1))
         else compareDebPart (dropWhile isDigit a1) (dropWhile isDigit b1))"
    unfolding compareDebPart.simps [of a b] takeWhile_trimmed Let_def number_step
      compareNumeric_value [OF digits_takeWhile digits_takeWhile]
    by (auto split: sum.splits)
qed (simp add: compareDebPart.simps)

lemma pkg_compareDebPart_key:
  "pkg_compareDebPart a b =
     cmp_pad 0 (deb_key (\<lambda>c. pkg_debOrder c True) a) (deb_key (\<lambda>c. pkg_debOrder c True) b)"
proof (rule pkg.part_by_key)
  fix a b :: string
  assume "a \<noteq> [] \<or> b \<noteq> []"
  then show "pkg_compareDebPart a b = (case pkg_fragment a b of
       Inl r \<Rightarrow> r
     | Inr (a1, b1) \<Rightarrow>
         if dec_value (takeWhile isDigit a1) \<noteq> dec_value (takeWhile isDigit b1)
         then cmp_of (dec_value (takeWhile isDigit a1)) (dec_value (takeWhile isDigit b1))
         else pkg_compareDebPart (dropWhile isDigit a1) (dropWhile isDigit b1))"
    unfolding pkg_compareDebPart.simps [of a b] Let_def
      compareNumeric_value [OF digits_takeWhile digits_takeWhile]
    by (auto split: sum.splits)
qed (simp add: pkg_compareDebPart.simps)

lemma order_compareDebPart: "order_cmp compareDebPart"
  by (rule order_cmp_by_key, rule compareDebPart_key)

lemma order_pkg_compareDebPart: "order_cmp pkg_compareDebPart"
  by (rule order_cmp_by_key, rule pkg_compareDebPart_key)

section \<open>rpm: the tokens of a segment\<close>

text \<open>The tokens in their order, the end of the string among them.\<close>

datatype rpm_token = Tilde | End | Caret | Letters string | Number int

fun token_rank :: "rpm_token \<Rightarrow> nat \<times> int \<times> string" where
  "token_rank Tilde = (0, 0, [])"
| "token_rank End = (1, 0, [])"
| "token_rank Caret = (2, 0, [])"
| "token_rank (Letters s) = (3, 0, s)"
| "token_rank (Number n) = (4, n, [])"

lemma token_rank_inj: "token_rank s = token_rank t \<longleftrightarrow> s = t"
  by (cases s; cases t) simp_all

instantiation rpm_token :: linorder
begin

definition less_eq_rpm_token :: "rpm_token \<Rightarrow> rpm_token \<Rightarrow> bool" where
  "less_eq_rpm_token s t = (token_rank s \<le> token_rank t)"

definition less_rpm_token :: "rpm_token \<Rightarrow> rpm_token \<Rightarrow> bool" where
  "less_rpm_token s t = (token_rank s < token_rank t)"

instance
  by standard (auto simp: less_eq_rpm_token_def less_rpm_token_def less_le_not_le
      token_rank_inj [symmetric])

end

function rpm_tokens :: "string \<Rightarrow> rpm_token list" where
  "rpm_tokens s0 =
     (let s = rpm_skip s0 in
      if s = [] then []
      else if at_byte (CHR ''~'') s then Tilde # rpm_tokens (tl s)
      else if at_byte (CHR ''^'') s then Caret # rpm_tokens (tl s)
      else let run = (if isDigit (hd s) then isDigit else isAlpha) in
        (if isDigit (hd s) then Number (dec_value (takeWhile run s)) else Letters (takeWhile run s))
          # rpm_tokens (dropWhile run s))"
  by pat_completeness auto
termination
  by (relation "measure length")
     (use rpm_tl_shrink [where b = "[]"] rpm_run_shrink [where b = "[]"] in
        \<open>auto simp: rpm_skip_def simp del: length_tl\<close>)

declare rpm_tokens.simps [simp del]

lemma cmp_of_tokens [simp]:
  "cmp_of Tilde (Letters s) = -1" "cmp_of Tilde (Number n) = -1" "cmp_of Tilde Caret = -1"
  "cmp_of Tilde End = -1" "cmp_of End Tilde = 1" "cmp_of End Caret = -1"
  "cmp_of End (Letters s) = -1" "cmp_of End (Number n) = -1"
  "cmp_of Caret Tilde = 1" "cmp_of Caret End = 1" "cmp_of Caret (Letters s) = -1"
  "cmp_of Caret (Number n) = -1" "cmp_of (Letters s) Tilde = 1" "cmp_of (Letters s) End = 1"
  "cmp_of (Letters s) Caret = 1" "cmp_of (Letters s) (Letters t) = cmp_of s t"
  "cmp_of (Letters s) (Number n) = -1" "cmp_of (Number n) Tilde = 1" "cmp_of (Number n) End = 1"
  "cmp_of (Number n) Caret = 1" "cmp_of (Number n) (Letters s) = 1"
  "cmp_of (Number m) (Number n) = cmp_of m n"
  by (simp_all add: cmp_of_def less_rpm_token_def)

lemma rpm_skip_hd: "rpm_skip a \<noteq> [] \<Longrightarrow> isAlnum (hd (rpm_skip a)) \<or> at_byte (CHR ''~'') (rpm_skip a) \<or> at_byte (CHR ''^'') (rpm_skip a)"
  using hd_dropWhile [of "\<lambda>c. \<not> isAlnum c \<and> c \<noteq> CHR ''~'' \<and> c \<noteq> CHR ''^''" a]
  by (auto simp: rpm_skip_def at_byte_def)

lemma rpm_tokens_cases:
  obtains
    (E) "rpm_skip a = []" "rpm_tokens a = []"
  | (T) "at_byte (CHR ''~'') (rpm_skip a)" "rpm_tokens a = Tilde # rpm_tokens (tl (rpm_skip a))"
  | (C) "at_byte (CHR ''^'') (rpm_skip a)" "\<not> at_byte (CHR ''~'') (rpm_skip a)"
        "rpm_tokens a = Caret # rpm_tokens (tl (rpm_skip a))"
  | (N) "rpm_skip a \<noteq> []" "\<not> at_byte (CHR ''~'') (rpm_skip a)" "\<not> at_byte (CHR ''^'') (rpm_skip a)"
        "isDigit (hd (rpm_skip a))" "takeWhile isDigit (rpm_skip a) \<noteq> []" "takeWhile isAlpha (rpm_skip a) = []"
        "rpm_tokens a = Number (dec_value (takeWhile isDigit (rpm_skip a))) # rpm_tokens (dropWhile isDigit (rpm_skip a))"
  | (L) "rpm_skip a \<noteq> []" "\<not> at_byte (CHR ''~'') (rpm_skip a)" "\<not> at_byte (CHR ''^'') (rpm_skip a)"
        "\<not> isDigit (hd (rpm_skip a))" "takeWhile isDigit (rpm_skip a) = []" "takeWhile isAlpha (rpm_skip a) \<noteq> []"
        "rpm_tokens a = Letters (takeWhile isAlpha (rpm_skip a)) # rpm_tokens (dropWhile isAlpha (rpm_skip a))"
proof (cases "rpm_skip a")
  case Nil
  then show ?thesis using E by (simp add: rpm_tokens.simps)
next
  case (Cons c cs)
  then consider "at_byte (CHR ''~'') (rpm_skip a)"
    | "at_byte (CHR ''^'') (rpm_skip a)" "\<not> at_byte (CHR ''~'') (rpm_skip a)"
    | "isDigit c" "\<not> at_byte (CHR ''~'') (rpm_skip a)" "\<not> at_byte (CHR ''^'') (rpm_skip a)"
    | "isAlpha c" "\<not> isDigit c" "\<not> at_byte (CHR ''~'') (rpm_skip a)" "\<not> at_byte (CHR ''^'') (rpm_skip a)"
    using rpm_skip_hd [of a] by (auto simp: isAlnum_def)
  then show ?thesis
  proof cases
    case 1
    then show ?thesis using T Cons by (simp add: rpm_tokens.simps [of a] Let_def)
  next
    case 2
    then show ?thesis using C Cons by (simp add: rpm_tokens.simps [of a] Let_def)
  next
    case 3
    then show ?thesis
      using N Cons isDigit_not_isAlpha [of c] by (simp add: rpm_tokens.simps [of a] Let_def)
  next
    case 4
    then show ?thesis using L Cons by (simp add: rpm_tokens.simps [of a] Let_def)
  qed
qed

lemma rpm_skip_Nil [simp]: "rpm_skip [] = []"
  by (simp add: rpm_skip_def)

lemma rpm_tokens_Nil [simp]: "rpm_tokens [] = []"
  by (simp add: rpm_tokens.simps)

lemma at_byte_Nil [simp]: "\<not> at_byte c []"
  by (simp add: at_byte_def)

lemma at_byte_excl: "at_byte c s \<Longrightarrow> at_byte d s \<longleftrightarrow> c = d"
  by (auto simp: at_byte_def)

lemma at_byte_ne: "at_byte c s \<Longrightarrow> s \<noteq> []"
  by (simp add: at_byte_def)

lemma rpmvercmp_loop_tokens:
  "rpmvercmp_loop a b = cmp_pad End (rpm_tokens a) (rpm_tokens b)"
proof (induction a b rule: rpmvercmp_loop.induct)
  case (1 a b)
  show ?case
  proof (cases "a = [] \<and> b = []")
    case True
    then show ?thesis by (simp add: rpmvercmp_loop.simps rpm_tokens.simps rpm_rest_def)
  next
    case False
    note step = rpmvercmp_loop.simps [of a b]
    note IH = 1 [OF False refl refl refl refl refl refl]
    show ?thesis
      by (cases a rule: rpm_tokens_cases; cases b rule: rpm_tokens_cases)
         (use False IH in \<open>simp_all add: step Let_def rpm_rest_def cmp_pad_Cons_Nil at_byte_ne at_byte_excl
            compareNumeric_value [OF digits_takeWhile digits_takeWhile] Compare_cmp_of\<close>)
  qed
qed

text \<open>The segment comparison written out in \<open>CompareRPMSegment\<close> is the one of \<open>rpmvercmp\<close>.\<close>

lemma segment_step:
  "(if segB = [] then (if numeric then 1 else -1)
    else if numeric \<and> length (if numeric then TrimLeft segA CHR ''0'' else segA)
           \<noteq> length (if numeric then TrimLeft segB CHR ''0'' else segB)
      then (if length (if numeric then TrimLeft segA CHR ''0'' else segA)
             > length (if numeric then TrimLeft segB CHR ''0'' else segB) then 1 else -1)
    else if Compare (if numeric then TrimLeft segA CHR ''0'' else segA)
                    (if numeric then TrimLeft segB CHR ''0'' else segB) \<noteq> 0
      then (if Compare (if numeric then TrimLeft segA CHR ''0'' else segA)
                       (if numeric then TrimLeft segB CHR ''0'' else segB) > 0 then 1 else -1)
    else k) =
   (if segB = [] then (if numeric then 1 else -1)
    else if (if numeric then compareNumeric segA segB else Compare segA segB) \<noteq> 0
      then (if numeric then compareNumeric segA segB else Compare segA segB)
    else (k :: int))"
  by (cases numeric) (auto simp: compareNumeric_def Let_def Compare_def)

lemma CompareRPMSegment_loop: "CompareRPMSegment a b = rpmvercmp_loop a b"
proof (induction a b rule: rpmvercmp_loop.induct)
  case (1 a b)
  show ?case
  proof (cases "a = [] \<and> b = []")
    case False
    note IH = 1 [OF False refl refl refl refl refl refl]
    show ?thesis
      unfolding CompareRPMSegment.simps [of a b] rpmvercmp_loop.simps [of a b] Let_def segment_step
      by (intro if_cong refl IH) (auto simp only: simp_thms)
  qed (simp add: CompareRPMSegment.simps rpmvercmp_loop.simps)
qed

lemma CompareRPMSegment_tokens: "CompareRPMSegment a b = cmp_pad End (rpm_tokens a) (rpm_tokens b)"
  by (simp add: CompareRPMSegment_loop rpmvercmp_loop_tokens)

lemma rpmvercmp_tokens: "rpmvercmp a b = cmp_pad End (rpm_tokens a) (rpm_tokens b)"
  by (simp add: rpmvercmp_def rpmvercmp_loop_tokens pad.cmp_refl)

lemma order_CompareRPMSegment: "order_cmp CompareRPMSegment"
  by (rule order_cmp_by_key, rule CompareRPMSegment_tokens)

lemma order_rpmvercmp: "order_cmp rpmvercmp"
  by (rule order_cmp_by_key, rule rpmvercmp_tokens)

section \<open>Whole versions\<close>

lemma order_cmp_three:
  assumes "order_cmp c" "order_cmp d" "order_cmp e"
    and "\<And>a b. f a b = (if c (p a) (p b) \<noteq> 0 then c (p a) (p b)
           else if d (q a) (q b) \<noteq> 0 then d (q a) (q b) else e (r a) (r b))"
  shows "order_cmp f"
proof -
  have "f = (\<lambda>a b. if c (p a) (p b) \<noteq> 0 then c (p a) (p b)
     else if d (q a) (q b) \<noteq> 0 then d (q a) (q b) else e (r a) (r b))"
    by (intro ext assms(4))
  moreover have "order_cmp (\<lambda>a b. if c (p a) (p b) \<noteq> 0 then c (p a) (p b)
     else if d (q a) (q b) \<noteq> 0 then d (q a) (q b) else e (r a) (r b))"
    by (intro order_cmp_lex order_cmp_on [OF assms(1)] order_cmp_on [OF assms(2)] order_cmp_on [OF assms(3)])
  ultimately show ?thesis by simp
qed

definition upstream_of :: "string \<Rightarrow> string" where
  "upstream_of v = fst (splitDebRevision (snd (splitEpoch v)))"

definition revision_of :: "string \<Rightarrow> string" where
  "revision_of v = snd (splitDebRevision (snd (splitEpoch v)))"

lemma CompareDebVersions_parts:
  "CompareDebVersions a b =
     (if compareNumeric (fst (splitEpoch a)) (fst (splitEpoch b)) \<noteq> 0
      then compareNumeric (fst (splitEpoch a)) (fst (splitEpoch b))
      else if pkg_compareDebPart (upstream_of a) (upstream_of b) \<noteq> 0
      then pkg_compareDebPart (upstream_of a) (upstream_of b)
      else pkg_compareDebPart (revision_of a) (revision_of b))"
  by (simp add: CompareDebVersions_def upstream_of_def revision_of_def Let_def split: prod.splits)

lemma CompareRPMVersions_parts:
  "CompareRPMVersions a b =
     (if compareNumeric (fst (splitEpoch a)) (fst (splitEpoch b)) \<noteq> 0
      then compareNumeric (fst (splitEpoch a)) (fst (splitEpoch b))
      else if rpmvercmp (upstream_of a) (upstream_of b) \<noteq> 0
      then rpmvercmp (upstream_of a) (upstream_of b)
      else rpmvercmp (revision_of a) (revision_of b))"
  by (simp add: CompareRPMVersions_def upstream_of_def revision_of_def Let_def split: prod.splits)

lemma CompareDeb_parts:
  "CompareDeb a b =
     (if cmp_of (fst (splitDeb a)) (fst (splitDeb b)) \<noteq> 0 then cmp_of (fst (splitDeb a)) (fst (splitDeb b))
      else if compareDebPart (fst (snd (splitDeb a))) (fst (snd (splitDeb b))) \<noteq> 0
      then compareDebPart (fst (snd (splitDeb a))) (fst (snd (splitDeb b)))
      else compareDebPart (snd (snd (splitDeb a))) (snd (snd (splitDeb b))))"
  by (simp add: CompareDeb_def compareNumbers_def cmp_of_def split: prod.splits)

interpretation debv: order_cmp CompareDebVersions
  by (rule order_cmp_three [OF order_compareNumeric order_pkg_compareDebPart order_pkg_compareDebPart
        CompareDebVersions_parts])

interpretation rpmv: order_cmp CompareRPMVersions
  by (rule order_cmp_three [OF order_compareNumeric order_rpmvercmp order_rpmvercmp CompareRPMVersions_parts])

interpretation advd: order_cmp CompareDeb
  by (rule order_cmp_three [OF order_cmp_of order_compareDebPart order_compareDebPart CompareDeb_parts])

interpretation advr: order_cmp CompareRPMSegment
  by (rule order_CompareRPMSegment)

end
