(* ===== verification/Version_Properties.thy ===== *)
theory Version_Properties
  imports Version_Order
begin

text \<open>
  What the version comparisons promise: each is a total preorder, the two packages decide alike
  on the versions dpkg and rpm write, and the direction of a change can be reversed.
\<close>

section \<open>Versions as the package managers write them\<close>

definition ascii :: "string \<Rightarrow> bool" where
  "ascii s = list_all (\<lambda>c. code c < (128 :: nat)) s"

definition plain_version :: "string \<Rightarrow> bool" where
  "plain_version v =
     (TrimSpace v = v \<and> ascii v \<and> list_all isDigit (fst (splitEpoch v))
      \<and> dec_value (fst (splitEpoch v)) < 2 ^ 63)"

lemma ascii_sub: "ascii s \<Longrightarrow> set t \<subseteq> set s \<Longrightarrow> ascii t"
  by (auto simp: ascii_def list_all_iff)

lemma debOrder_ascii:
  "code c < (128 :: nat) \<Longrightarrow> \<not> isDigit c \<Longrightarrow> debOrder c = pkg_debOrder c True"
  by (auto simp: debOrder_def pkg_debOrder_def IsLetterLatin1_def byte_in_def code_le_iff)

lemma deb_key_ascii: "ascii s \<Longrightarrow> deb_key debOrder s = deb_key (\<lambda>c. pkg_debOrder c True) s"
proof (induction "length s" arbitrary: s rule: less_induct)
  case less
  show ?case
  proof (cases "s = []")
    case False
    let ?rest = "dropWhile isDigit (past_text s)"
    have "set ?rest \<subseteq> set s" by (meson order_trans set_dropWhileD subsetI)
    then have "deb_key debOrder ?rest = deb_key (\<lambda>c. pkg_debOrder c True) ?rest"
      using less.hyps [OF past_number_shrinks [OF False]] ascii_sub less.prems by blast
    moreover have "map debOrder (text_run s) = map (\<lambda>c. pkg_debOrder c True) (text_run s)"
      using less.prems by (auto simp: ascii_def list_all_iff intro!: debOrder_ascii dest!: set_takeWhileD)
    ultimately show ?thesis by (simp add: deb_key.simps [of _ s])
  qed (simp add: deb_key.simps)
qed

lemma Atoi_digits:
  assumes "list_all isDigit s" "dec_value s < 2 ^ 63"
  shows "Atoi s = dec_value s"
proof (cases s)
  case (Cons c cs)
  then have "c \<noteq> CHR ''-''" "c \<noteq> CHR ''+''" using assms(1) by (auto simp: isDigit_code)
  with Cons assms show ?thesis by (simp add: Atoi_def Let_def atoi_unsigned_def)
qed (simp add: Atoi_def atoi_unsigned_def)

lemma splitEpoch_sub: "set (snd (splitEpoch v)) \<subseteq> set v"
  by (auto simp: splitEpoch_def split: option.splits dest: in_set_dropD)

lemma splitDebRevision_sub:
  "set (fst (splitDebRevision v)) \<subseteq> set v" "set (snd (splitDebRevision v)) \<subseteq> set v"
  by (auto simp: splitDebRevision_def split: option.splits dest: in_set_dropD in_set_takeD)

lemma plain_parts_ascii:
  assumes "plain_version v"
  shows "ascii (upstream_of v)" "ascii (revision_of v)"
proof -
  have "ascii v" using assms by (simp add: plain_version_def)
  then have "ascii (snd (splitEpoch v))" using splitEpoch_sub ascii_sub by blast
  then show "ascii (upstream_of v)" "ascii (revision_of v)"
    unfolding upstream_of_def revision_of_def using splitDebRevision_sub ascii_sub by blast+
qed

lemma splitDeb_plain:
  assumes "plain_version v"
  shows "splitDeb v = (dec_value (fst (splitEpoch v)), upstream_of v, revision_of v)"
proof -
  have "TrimSpace v = v" "Atoi (fst (splitEpoch v)) = dec_value (fst (splitEpoch v))"
    using assms Atoi_digits by (simp_all add: plain_version_def)
  then show ?thesis
    by (auto simp: splitDeb_def splitEpoch_def upstream_of_def revision_of_def splitDebRevision_def Let_def
        split: option.splits)
qed

lemma compareDebPart_ascii:
  "ascii a \<Longrightarrow> ascii b \<Longrightarrow> compareDebPart a b = pkg_compareDebPart a b"
  by (simp add: compareDebPart_key pkg_compareDebPart_key deb_key_ascii)

text \<open>
  C30: The Debian comparison that matches packages against advisories and the one that names the
  direction of a change decide alike on every plain version: ASCII, no white space around it, an
  epoch of digits that fits an int64.
\<close>

theorem deb_comparisons_agree:
  assumes "plain_version a" and "plain_version b"
  shows "CompareDeb a b = CompareDebVersions a b"
proof -
  have "compareNumeric (fst (splitEpoch a)) (fst (splitEpoch b))
      = cmp_of (dec_value (fst (splitEpoch a))) (dec_value (fst (splitEpoch b)))"
    using assms by (simp add: plain_version_def compareNumeric_value)
  then show ?thesis
    using assms plain_parts_ascii
    by (simp add: CompareDeb_parts CompareDebVersions_parts splitDeb_plain compareDebPart_ascii)
qed

theorem deb_comparisons_agree_witness:
  "plain_version ''1:2.30-1~rc1'' \<and> plain_version ''2.31-1''
   \<and> CompareDeb ''1:2.30-1~rc1'' ''2.31-1'' = CompareDebVersions ''1:2.30-1~rc1'' ''2.31-1''"
proof -
  have "plain_version ''1:2.30-1~rc1''" "plain_version ''2.31-1''" by code_simp+
  with deb_comparisons_agree show ?thesis by blast
qed

section \<open>rpm\<close>

definition one_dash :: "string \<Rightarrow> bool" where
  "one_dash v = (length (filter (\<lambda>c. c = CHR ''-'') (snd (splitEpoch v))) \<le> 1)"

lemma LastIndexByte_single:
  "length (filter (\<lambda>x. x = c) s) \<le> 1 \<Longrightarrow> LastIndexByte s c = IndexByte s c"
proof (induction s)
  case (Cons x xs)
  show ?case
  proof (cases "x = c")
    case True
    with Cons.prems have "c \<notin> set xs" by (auto simp: filter_empty_conv)
    with True show ?thesis using LastIndexByte_None_iff [of xs c] by simp
  next
    case False
    with Cons show ?thesis by (auto split: option.splits)
  qed
qed simp

lemma space_runes_no_digit: "\<forall>r \<in> set space_runes. r \<noteq> [] \<and> \<not> isDigit (hd r) \<and> \<not> isDigit (last r)"
  by code_simp

lemma space_suffix_0:
  "(\<forall>r \<in> set space_runes. \<not> HasPrefix (rev s) (rev r)) \<Longrightarrow> space_suffix s = 0"
proof -
  assume "\<forall>r \<in> set space_runes. \<not> HasPrefix (rev s) (rev r)"
  then have "find (\<lambda>r. HasPrefix (rev s) (rev r)) space_runes = None"
    by (simp add: find_None_iff)
  then show ?thesis by (simp add: space_suffix_def)
qed

lemma HasPrefix_hd: "HasPrefix s r \<Longrightarrow> r \<noteq> [] \<Longrightarrow> s \<noteq> [] \<and> hd s = hd r"
  by (cases s; cases r) auto

lemma TrimSpace_digits:
  assumes "list_all isDigit s"
  shows "TrimSpace s = s"
proof -
  have ends: "isDigit (hd s) \<and> isDigit (last s)" if "s \<noteq> []"
    using assms that by (simp add: list_all_iff)
  have "\<not> HasPrefix s r \<and> \<not> HasPrefix (rev s) (rev r)" if "r \<in> set space_runes" for r
  proof -
    have r: "r \<noteq> []" "\<not> isDigit (hd r)" "\<not> isDigit (last r)"
      using that space_runes_no_digit by blast+
    have "\<not> HasPrefix s r" using HasPrefix_hd [of s r] r ends by metis
    moreover have "\<not> HasPrefix (rev s) (rev r)"
      using HasPrefix_hd [of "rev s" "rev r"] r ends by (metis Nil_is_rev_conv hd_rev)
    ultimately show ?thesis by blast
  qed
  then have "space_prefix s = 0" "space_suffix s = 0"
    using space_prefix_0_iff space_suffix_0 by blast+
  then show ?thesis by (simp add: TrimSpace_def trim_left_id trim_right_id)
qed

lemma rpm_tokens_digits:
  assumes "list_all isDigit s" "s \<noteq> []"
  shows "rpm_tokens s = [Number (dec_value s)]"
proof -
  obtain c cs where s: "s = c # cs" using assms(2) by (cases s) auto
  with assms have "isDigit c" by simp
  then have "rpm_skip s = s" "\<not> at_byte (CHR ''~'') s" "\<not> at_byte (CHR ''^'') s"
    by (auto simp: rpm_skip_def s isAlnum_def at_byte_def isDigit_code)
  moreover have "takeWhile isDigit s = s" "dropWhile isDigit s = []"
    using assms(1) by (simp_all add: list_all_iff)
  moreover have "isDigit (hd s)" using s \<open>isDigit c\<close> by simp
  ultimately show ?thesis
    using assms(2) by (simp add: rpm_tokens.simps [of s] cong: if_cong del: takeWhile_eq_all_conv dropWhile_eq_Nil_conv)
qed

lemma splitEVR_plain:
  assumes "plain_version v" "one_dash v"
  shows "splitEVR v =
    (if fst (splitEpoch v) = [] then ''0'' else fst (splitEpoch v), upstream_of v, revision_of v)"
proof -
  have trim: "TrimSpace v = v" "TrimSpace (fst (splitEpoch v)) = fst (splitEpoch v)"
    using assms TrimSpace_digits by (simp_all add: plain_version_def)
  have dash: "LastIndexByte (snd (splitEpoch v)) CHR ''-'' = IndexByte (snd (splitEpoch v)) CHR ''-''"
    using assms(2) LastIndexByte_single by (simp add: one_dash_def)
  show ?thesis
    using trim dash
    by (auto simp: splitEVR_def splitEpoch_def upstream_of_def revision_of_def splitDebRevision_def Let_def
        split: option.splits)
qed

lemma epoch_segment:
  assumes "list_all isDigit a" "list_all isDigit b"
  shows "CompareRPMSegment (if a = [] then ''0'' else a) (if b = [] then ''0'' else b) = compareNumeric a b"
proof -
  have t: "rpm_tokens (if s = [] then ''0'' else s) = [Number (dec_value s)]" if "list_all isDigit s" for s
    using that rpm_tokens_digits [of s] rpm_tokens_digits [of "''0''"] by (simp add: isDigit_code)
  show ?thesis
    unfolding CompareRPMSegment_tokens t [OF assms(1)] t [OF assms(2)]
    using compareNumeric_value [OF assms] by simp
qed

text \<open>
  C33: The rpm comparison that matches packages against advisories and the one that names the
  direction of a change decide alike on plain versions that carry a release and no second hyphen.
\<close>

theorem rpm_comparisons_agree:
  assumes "plain_version a" "one_dash a" "revision_of a \<noteq> []"
    and "plain_version b" "one_dash b" "revision_of b \<noteq> []"
  shows "CompareRPM a b = CompareRPMVersions a b"
proof -
  have "list_all isDigit (fst (splitEpoch a))" "list_all isDigit (fst (splitEpoch b))"
    using assms by (simp_all add: plain_version_def)
  from epoch_segment [OF this] show ?thesis
    using assms
    by (simp add: CompareRPM_def CompareRPMVersions_parts splitEVR_plain CompareRPMSegment_tokens rpmvercmp_tokens)
qed

theorem rpm_comparisons_agree_witness:
  "plain_version ''1:2.30-1.el9'' \<and> one_dash ''1:2.30-1.el9'' \<and> revision_of ''1:2.30-1.el9'' \<noteq> []
   \<and> plain_version ''2.31-2'' \<and> one_dash ''2.31-2'' \<and> revision_of ''2.31-2'' \<noteq> []
   \<and> CompareRPM ''1:2.30-1.el9'' ''2.31-2'' = CompareRPMVersions ''1:2.30-1.el9'' ''2.31-2''"
proof -
  have "plain_version ''1:2.30-1.el9''" "one_dash ''1:2.30-1.el9''" "revision_of ''1:2.30-1.el9'' \<noteq> []"
    "plain_version ''2.31-2''" "one_dash ''2.31-2''" "revision_of ''2.31-2'' \<noteq> []" by code_simp+
  with rpm_comparisons_agree show ?thesis by blast
qed

section \<open>The rule books and the order\<close>

text \<open>
  C32: The four loops that compare a part of a version decide like comparisons of lists. Both dpkg
  loops compare the keys: weights of the bytes of each fragment in turn, the end of a fragment after
  a tilde and before anything else, and every number by its value however many digits and leading
  zeros it has. Both rpm loops compare the tokens, in which a tilde comes before the end, the end
  before a caret, a caret before letters and letters before numbers, numbers by value.
\<close>

theorem part_loops_compare_keys:
  "compareDebPart a b = cmp_pad 0 (deb_key debOrder a) (deb_key debOrder b)
   \<and> pkg_compareDebPart a b =
       cmp_pad 0 (deb_key (\<lambda>c. pkg_debOrder c True) a) (deb_key (\<lambda>c. pkg_debOrder c True) b)
   \<and> CompareRPMSegment a b = cmp_pad End (rpm_tokens a) (rpm_tokens b)
   \<and> rpmvercmp a b = cmp_pad End (rpm_tokens a) (rpm_tokens b)"
  by (simp add: compareDebPart_key pkg_compareDebPart_key CompareRPMSegment_tokens rpmvercmp_tokens)

text \<open>
  C31: The version comparisons of plans are total preorders: they answer -1, 0 or 1, swapping the
  versions turns the answer round, and not-newer-than is transitive.
\<close>

theorem version_comparisons_are_orders:
  "CompareDebVersions a b \<in> {-1, 0, 1} \<and> CompareRPMVersions a b \<in> {-1, 0, 1}
   \<and> CompareDebVersions b a = - CompareDebVersions a b
   \<and> CompareRPMVersions b a = - CompareRPMVersions a b
   \<and> (CompareDebVersions a b \<le> 0 \<and> CompareDebVersions b c \<le> 0 \<longrightarrow> CompareDebVersions a c \<le> 0)
   \<and> (CompareRPMVersions a b \<le> 0 \<and> CompareRPMVersions b c \<le> 0 \<longrightarrow> CompareRPMVersions a c \<le> 0)"
  using debv.cmp_range debv.cmp_flip debv.cmp_trans rpmv.cmp_range rpmv.cmp_flip rpmv.cmp_trans
  by blast

theorem version_comparisons_are_orders_witness:
  "CompareDebVersions ''1.0~rc1'' ''1.0'' \<le> 0 \<and> CompareDebVersions ''1.0'' ''1:0.1'' \<le> 0
   \<and> CompareRPMVersions ''1.0~rc1'' ''1.0'' \<le> 0 \<and> CompareRPMVersions ''1.0'' ''1.0^git1'' \<le> 0
   \<and> CompareDebVersions ''1.0~rc1'' ''1:0.1'' \<le> 0 \<and> CompareRPMVersions ''1.0~rc1'' ''1.0^git1'' \<le> 0"
proof -
  have "CompareDebVersions ''1.0~rc1'' ''1.0'' \<le> 0" "CompareDebVersions ''1.0'' ''1:0.1'' \<le> 0"
    "CompareRPMVersions ''1.0~rc1'' ''1.0'' \<le> 0" "CompareRPMVersions ''1.0'' ''1.0^git1'' \<le> 0"
    by code_simp+
  with version_comparisons_are_orders [of "''1.0~rc1''" "''1.0''"] show ?thesis by blast
qed

text \<open>
  A change called a downgrade is an upgrade the other way round, and a downgrade after a
  downgrade is a downgrade: no sequence of downgrades comes back to a version it left.
\<close>

lemma downgrades_do_not_cycle:
  assumes "changeAction manager v2 v1 = ''downgrade''"
  shows "changeAction manager v1 v2 = ''upgrade''
    \<and> (changeAction manager v1 v0 = ''downgrade'' \<longrightarrow> changeAction manager v2 v0 = ''downgrade'')"
proof -
  let ?cmp = "if manager = ''apt'' then CompareDebVersions else CompareRPMVersions"
  have cmp: "order_cmp ?cmp" using debv.order_cmp_axioms rpmv.order_cmp_axioms by simp
  have down: "changeAction manager x y = ''downgrade'' \<longleftrightarrow> x \<noteq> [] \<and> y \<noteq> [] \<and> ?cmp y x < 0" for x y
    by (simp add: changeAction_def Let_def)
  have v: "v2 \<noteq> []" "v1 \<noteq> []" "?cmp v1 v2 < 0" using assms unfolding down by simp_all
  have "changeAction manager v1 v2 = ''upgrade''"
    using v order_cmp.cmp_flip [OF cmp, of v1 v2] by (auto simp: changeAction_def)
  moreover have "changeAction manager v2 v0 = ''downgrade''" if "changeAction manager v1 v0 = ''downgrade''"
    using that v order_cmp.cmp_less_trans [OF cmp, of v0 v1 v2] unfolding down by auto
  ultimately show ?thesis by blast
qed

end
