(* ===== verification/Go_Binary.thy ===== *)
theory Go_Binary
  imports Flo_Prelude "HOL-Library.Word"
begin

text \<open>
  The part of Go's \<open>encoding/binary\<close>, \<open>hash/crc32\<close> and \<open>crypto/sha256\<close> that the components
  call. Bytes are characters, as in the strings of the development.
\<close>

unbundle bit_operations_syntax

section \<open>Little-endian integers\<close>

fun put_le :: "nat \<Rightarrow> nat \<Rightarrow> string" where
  "put_le 0 v = []"
| "put_le (Suc k) v = char_of (v mod 256) # put_le k (v div 256)"

fun get_le :: "string \<Rightarrow> nat" where
  "get_le [] = 0"
| "get_le (c # cs) = of_char c + 256 * get_le cs"

lemma length_put_le [simp]: "length (put_le k v) = k"
  by (induction k v rule: put_le.induct) simp_all

lemma get_put_le: "get_le (put_le k v) = v mod 256 ^ k"
proof (induction k v rule: put_le.induct)
  case (2 k v)
  have "v mod (256 * 256 ^ k) = 256 * (v div 256 mod 256 ^ k) + v mod 256"
    by (rule mod_mult2_eq)
  with 2 show ?case by simp
qed simp

lemma get_put_le_id: "v < 256 ^ k \<Longrightarrow> get_le (put_le k v) = v"
  by (simp add: get_put_le)

definition put16 :: "nat \<Rightarrow> string" where "put16 v = put_le 2 v"
definition put32 :: "nat \<Rightarrow> string" where "put32 v = put_le 4 v"
definition put64 :: "64 word \<Rightarrow> string" where "put64 w = put_le 8 (unat w)"
definition get64 :: "string \<Rightarrow> 64 word" where "get64 cs = of_nat (get_le cs)"

lemma length_put [simp]: "length (put16 v) = 2" "length (put32 v) = 4" "length (put64 w) = 8"
  by (simp_all add: put16_def put32_def put64_def)

lemma get_put16: "v < 65536 \<Longrightarrow> get_le (put16 v) = v"
  by (simp add: put16_def get_put_le)

lemma get_put32: "v < 4294967296 \<Longrightarrow> get_le (put32 v) = v"
  by (simp add: put32_def get_put_le)

lemma get_put64 [simp]: "get64 (put64 w) = w"
proof -
  have "unat w < 256 ^ 8" using unsigned_less [of w, where ?'a = nat] by simp
  then show ?thesis by (simp add: get64_def put64_def get_put_le_id)
qed

section \<open>CRC-32 (Castagnoli)\<close>

definition crc_bit :: "32 word \<Rightarrow> 32 word" where
  "crc_bit c = (if c AND 1 = 1 then drop_bit 1 c XOR 0x82F63B78 else drop_bit 1 c)"

definition crc_byte :: "32 word \<Rightarrow> char \<Rightarrow> 32 word" where
  "crc_byte c b = (crc_bit ^^ 8) (c XOR of_nat (of_char b))"

definition crc32c :: "string \<Rightarrow> 32 word" where
  "crc32c body = NOT (foldl crc_byte (NOT 0) body)"

section \<open>SHA-256\<close>

definition sha_constants :: "32 word list" where
  "sha_constants =
     [1116352408, 1899447441, 3049323471, 3921009573, 961987163, 1508970993, 2453635748, 2870763221,
      3624381080, 310598401, 607225278, 1426881987, 1925078388, 2162078206, 2614888103, 3248222580,
      3835390401, 4022224774, 264347078, 604807628, 770255983, 1249150122, 1555081692, 1996064986,
      2554220882, 2821834349, 2952996808, 3210313671, 3336571891, 3584528711, 113926993, 338241895,
      666307205, 773529912, 1294757372, 1396182291, 1695183700, 1986661051, 2177026350, 2456956037,
      2730485921, 2820302411, 3259730800, 3345764771, 3516065817, 3600352804, 4094571909, 275423344,
      430227734, 506948616, 659060556, 883997877, 958139571, 1322822218, 1537002063, 1747873779,
      1955562222, 2024104815, 2227730452, 2361852424, 2428436474, 2756734187, 3204031479, 3329325298]"

definition rotr :: "nat \<Rightarrow> 32 word \<Rightarrow> 32 word" where
  "rotr n w = (drop_bit n w OR push_bit (32 - n) w)"

fun be_words :: "string \<Rightarrow> 32 word list" where
  "be_words (a # b # c # d # rest) = of_nat (get_le [d, c, b, a]) # be_words rest"
| "be_words _ = []"

definition sha_padded :: "string \<Rightarrow> string" where
  "sha_padded msg =
     msg @ char_of (128 :: nat) # replicate ((119 - length msg mod 64) mod 64) (char_of (0 :: nat))
         @ rev (put_le 8 (8 * length msg))"

text \<open>The schedule, newest word first, extended one word at a time.\<close>

definition sha_next :: "32 word list \<Rightarrow> 32 word list" where
  "sha_next ws =
     (let x = ws ! 14; y = ws ! 1 in
      (ws ! 15 + (rotr 7 x XOR rotr 18 x XOR drop_bit 3 x) + ws ! 6
        + (rotr 17 y XOR rotr 19 y XOR drop_bit 10 y)) # ws)"

definition sha_schedule :: "32 word list \<Rightarrow> 32 word list" where
  "sha_schedule block = rev ((sha_next ^^ 48) (rev block))"

type_synonym sha_state =
  "32 word \<times> 32 word \<times> 32 word \<times> 32 word \<times> 32 word \<times> 32 word \<times> 32 word \<times> 32 word"

fun sha_round :: "sha_state \<Rightarrow> 32 word \<times> 32 word \<Rightarrow> sha_state" where
  "sha_round (a, b, c, d, e, f, g, h) (k, w) =
     (let t1 = h + (rotr 6 e XOR rotr 11 e XOR rotr 25 e) + ((e AND f) XOR (NOT e AND g)) + k + w;
          t2 = (rotr 2 a XOR rotr 13 a XOR rotr 22 a) + ((a AND b) XOR (a AND c) XOR (b AND c))
      in (t1 + t2, a, b, c, d + t1, e, f, g))"

fun sha_add :: "sha_state \<Rightarrow> sha_state \<Rightarrow> sha_state" where
  "sha_add (a, b, c, d, e, f, g, h) (a', b', c', d', e', f', g', h') =
     (a + a', b + b', c + c', d + d', e + e', f + f', g + g', h + h')"

definition sha_block :: "sha_state \<Rightarrow> 32 word list \<Rightarrow> sha_state" where
  "sha_block s block = sha_add s (foldl sha_round s (zip sha_constants (sha_schedule block)))"

fun sha_blocks :: "nat \<Rightarrow> sha_state \<Rightarrow> 32 word list \<Rightarrow> sha_state" where
  "sha_blocks 0 s ws = s"
| "sha_blocks (Suc n) s ws = sha_blocks n (sha_block s (take 16 ws)) (drop 16 ws)"

definition sha_start :: sha_state where
  "sha_start = (1779033703, 3144134277, 1013904242, 2773480762, 1359893119, 2600822924, 528734635, 1541459225)"

definition be32 :: "32 word \<Rightarrow> string" where
  "be32 w = rev (put_le 4 (unat w))"

definition sha256 :: "string \<Rightarrow> string" where
  "sha256 msg =
     (let ws = be_words (sha_padded msg);
          (a, b, c, d, e, f, g, h) = sha_blocks (length ws div 16) sha_start ws
      in concat (map be32 [a, b, c, d, e, f, g, h]))"

lemma length_sha256 [simp]: "length (sha256 msg) = 32"
  by (simp add: sha256_def Let_def be32_def split: prod.splits)

end
