(* ===== verification/Spool_Record.thy ===== *)
theory Spool_Record
  imports Go_Binary "HOL-Library.Monad_Syntax"
begin

text \<open>
  The records of the relay's spool (\<open>internal/relay/spool/record.go\<close>): the streams and their
  priorities, a record, its body on disk and the frame around a body.

  Moments are nanoseconds since the epoch. A body is read by taking bytes off the front of what
  is left, as \<open>io.ReadFull\<close> does; running out of bytes is \<^const>\<open>None\<close>.
\<close>

section \<open>Streams and priorities\<close>

definition StreamControl :: string where "StreamControl = ''control''"
definition StreamJobResult :: string where "StreamJobResult = ''job_result''"
definition StreamInventory :: string where "StreamInventory = ''inventory''"
definition StreamMetric :: string where "StreamMetric = ''metric''"
definition StreamLog :: string where "StreamLog = ''log''"

lemmas stream_defs = StreamControl_def StreamJobResult_def StreamInventory_def StreamMetric_def StreamLog_def

definition PriorityControl :: "8 word" where "PriorityControl = 0"
definition PriorityJobResult :: "8 word" where "PriorityJobResult = 1"
definition PriorityInventory :: "8 word" where "PriorityInventory = 2"
definition PriorityMetric :: "8 word" where "PriorityMetric = 3"
definition PriorityLog :: "8 word" where "PriorityLog = 4"

lemmas priority_defs =
  PriorityControl_def PriorityJobResult_def PriorityInventory_def PriorityMetric_def PriorityLog_def

definition PriorityOf :: "string \<Rightarrow> 8 word" where
  "PriorityOf stream =
     (if stream = StreamControl then PriorityControl
      else if stream = StreamJobResult then PriorityJobResult
      else if stream = StreamInventory then PriorityInventory
      else if stream = StreamMetric then PriorityMetric
      else PriorityLog)"

definition Durable :: "string \<Rightarrow> bool" where
  "Durable stream = (PriorityOf stream \<le> PriorityInventory)"

lemma Durable_iff:
  "Durable stream \<longleftrightarrow> stream \<in> {StreamControl, StreamJobResult, StreamInventory}"
  by (simp add: Durable_def PriorityOf_def priority_defs word_le_def)

text \<open>The kinds of payload the classification looks at; the bit of an inventory is \<open>full\<close>.\<close>

datatype agent_payload =
    TaskResult | TaskProgress | Inventory bool | MetricsSample | TaskLogLines | OtherPayload

definition Classify :: "agent_payload \<Rightarrow> string" where
  "Classify payload = (case payload of
      TaskResult \<Rightarrow> StreamJobResult
    | TaskProgress \<Rightarrow> StreamJobResult
    | Inventory _ \<Rightarrow> StreamInventory
    | MetricsSample \<Rightarrow> StreamMetric
    | TaskLogLines \<Rightarrow> StreamLog
    | OtherPayload \<Rightarrow> StreamControl)"

abbreviation Hour :: int where "Hour \<equiv> 3600 * 10 ^ 9"

definition lifetimeOf :: "string \<Rightarrow> int" where
  "lifetimeOf stream =
     (if stream = StreamMetric then 6 * Hour
      else if stream = StreamLog then Hour
      else 30 * 24 * Hour)"

section \<open>A record and its body\<close>

record spool_record =
  r_ID :: string
  r_Site :: string
  r_HostID :: string
  r_SessionID :: string
  r_Stream :: string
  r_Priority :: "8 word"
  r_Sequence :: "64 word"
  r_CreatedAt :: int
  r_ExpiresAt :: "int option"
  r_Envelope :: string
  r_Payload :: string
  r_PayloadHash :: string

definition headerSize :: nat where "headerSize = 13"
definition kindRecord :: char where "kindRecord = CHR 0x01"
definition kindTombstone :: char where "kindTombstone = CHR 0x02"
definition bodyVersion :: char where "bodyVersion = CHR 0x01"
definition maxRecordBytes :: nat where "maxRecordBytes = 64 * 2 ^ 20"
definition magic :: string where "magic = ''FSP1''"

definition bodySize :: "spool_record \<Rightarrow> nat" where
  "bodySize r =
     1 + 16 + 1 + 8 + 8 + 8 + 2 + length (r_Site r) + 2 + length (r_HostID r)
     + 2 + length (r_SessionID r) + 1 + length (r_Stream r) + 32 + 4 + length (r_Envelope r)
     + 4 + length (r_Payload r)"

definition Size :: "spool_record \<Rightarrow> nat" where
  "Size r = headerSize + bodySize r"

definition UnixNano :: "int \<Rightarrow> 64 word" where
  "UnixNano t = word_of_int t"

definition expiry_word :: "int option \<Rightarrow> 64 word" where
  "expiry_word expires = (case expires of Some t \<Rightarrow> UnixNano t | None \<Rightarrow> 0)"

definition text16 :: "string \<Rightarrow> string" where
  "text16 v = put16 (length v) @ v"

definition bytes32 :: "string \<Rightarrow> string" where
  "bytes32 v = put32 (length v) @ v"

definition encode :: "spool_record \<Rightarrow> string" where
  "encode r =
     bodyVersion # r_ID r @ char_of (unat (r_Priority r)) # put64 (r_Sequence r)
     @ put64 (UnixNano (r_CreatedAt r))
     @ put64 (expiry_word (r_ExpiresAt r))
     @ text16 (r_Site r) @ text16 (r_HostID r) @ text16 (r_SessionID r)
     @ char_of (length (r_Stream r)) # r_Stream r @ r_PayloadHash r
     @ bytes32 (r_Envelope r) @ bytes32 (r_Payload r)"

definition ReadFull :: "nat \<Rightarrow> string \<Rightarrow> (string \<times> string) option" where
  "ReadFull n s = (if length s < n then None else Some (take n s, drop n s))"

definition ReadByte :: "string \<Rightarrow> (char \<times> string) option" where
  "ReadByte s = (case s of [] \<Rightarrow> None | c # cs \<Rightarrow> Some (c, cs))"

definition read64 :: "string \<Rightarrow> (64 word \<times> string) option" where
  "read64 s = do { (b, s) \<leftarrow> ReadFull 8 s; Some (get64 b, s) }"

definition read16 :: "string \<Rightarrow> (string \<times> string) option" where
  "read16 s = do { (b, s) \<leftarrow> ReadFull 2 s; ReadFull (get_le b) s }"

definition read32 :: "string \<Rightarrow> (string \<times> string) option" where
  "read32 s = do { (b, s) \<leftarrow> ReadFull 4 s; ReadFull (get_le b) s }"

definition UnixTime :: "64 word \<Rightarrow> int" where
  "UnixTime w = sint w"

definition decode_fields :: "string \<Rightarrow> spool_record option" where
  "decode_fields s = do {
     (id, s) \<leftarrow> ReadFull 16 s;
     (priority, s) \<leftarrow> ReadByte s;
     (sequence, s) \<leftarrow> read64 s;
     (created, s) \<leftarrow> read64 s;
     (expires, s) \<leftarrow> read64 s;
     (site, s) \<leftarrow> read16 s;
     (host, s) \<leftarrow> read16 s;
     (session, s) \<leftarrow> read16 s;
     (length, s) \<leftarrow> ReadByte s;
     (stream, s) \<leftarrow> ReadFull (of_char length) s;
     (hash, s) \<leftarrow> ReadFull 32 s;
     (envelope, s) \<leftarrow> read32 s;
     (payload, s) \<leftarrow> read32 s;
     Some \<lparr>r_ID = id, r_Site = site, r_HostID = host, r_SessionID = session, r_Stream = stream,
       r_Priority = of_nat (of_char priority), r_Sequence = sequence, r_CreatedAt = UnixTime created,
       r_ExpiresAt = (if expires \<noteq> 0 then Some (UnixTime expires) else None),
       r_Envelope = envelope, r_Payload = payload, r_PayloadHash = hash\<rparr>
   }"

datatype decode_error = BadVersion | ShortBody | HashMismatch

definition decode :: "string \<Rightarrow> decode_error + spool_record" where
  "decode body = (case ReadByte body of
      None \<Rightarrow> Inl BadVersion
    | Some (version, s) \<Rightarrow>
        if version \<noteq> bodyVersion then Inl BadVersion
        else (case decode_fields s of
            None \<Rightarrow> Inl ShortBody
          | Some r \<Rightarrow> if sha256 (r_Payload r) \<noteq> r_PayloadHash r then Inl HashMismatch else Inr r))"

section \<open>Frames\<close>

definition frame :: "char \<Rightarrow> string \<Rightarrow> string" where
  "frame kind body =
     magic @ kind # put32 (length body) @ put32 (unat (crc32c body)) @ body"

datatype read_result = EOF | Torn | Frame char string string

definition readFrame :: "string \<Rightarrow> read_result" where
  "readFrame s =
     (if s = [] then EOF
      else (case ReadFull headerSize s of
          None \<Rightarrow> Torn
        | Some (header, s1) \<Rightarrow>
            if take 4 header \<noteq> magic then Torn
            else let len = get_le (take 4 (drop 5 header)) in
              if len > maxRecordBytes then Torn
              else (case ReadFull len s1 of
                  None \<Rightarrow> Torn
                | Some (body, rest) \<Rightarrow>
                    if unat (crc32c body) \<noteq> get_le (take 4 (drop 9 header)) then Torn
                    else Frame (header ! 4) body rest)))"

section \<open>Sizes and round trips\<close>

lemma length_frame [simp]: "length (frame kind body) = headerSize + length body"
  by (simp add: frame_def headerSize_def magic_def)

lemma frame_nonempty [simp]: "frame kind body \<noteq> []"
  by (simp add: frame_def magic_def)

lemma crc_less: "unat (crc32c body) < 4294967296"
  using unsigned_less [of "crc32c body", where ?'a = nat] by simp

lemma readFrame_frame:
  assumes "length body \<le> maxRecordBytes"
  shows "readFrame (frame kind body @ rest) = Frame kind body rest"
proof -
  let ?head = "magic @ kind # put32 (length body) @ put32 (unat (crc32c body))"
  have split: "frame kind body @ rest = ?head @ (body @ rest)" by (simp add: frame_def)
  have head: "length ?head = 13" by (simp add: magic_def)
  have len: "get_le (put32 (length body)) = length body"
    using assms by (intro get_put32) (simp add: maxRecordBytes_def)
  have parts: "take 4 ?head = magic" "take 4 (drop 5 ?head) = put32 (length body)"
    "take 4 (drop 9 ?head) = put32 (unat (crc32c body))" "?head ! 4 = kind"
    by (simp_all add: magic_def)
  have crc: "get_le (put32 (unat (crc32c body))) = unat (crc32c body)"
    by (rule get_put32, rule crc_less)
  have "ReadFull headerSize (?head @ (body @ rest)) = Some (?head, body @ rest)"
    using head by (simp add: ReadFull_def headerSize_def)
  moreover have "ReadFull (length body) (body @ rest) = Some (body, rest)"
    by (simp add: ReadFull_def)
  ultimately show ?thesis
    unfolding split readFrame_def using assms
    by (simp add: parts len crc magic_def del: append_assoc)
qed

text \<open>A frame cut anywhere is no frame: nothing of it, or torn.\<close>

lemma readFrame_cut:
  assumes "n < length (frame kind body)" "length body \<le> maxRecordBytes"
  shows "readFrame (take n (frame kind body)) = (if n = 0 then EOF else Torn)"
proof (cases "n < 13")
  case True
  then show ?thesis by (simp add: readFrame_def ReadFull_def headerSize_def)
next
  case False
  let ?head = "magic @ kind # put32 (length body) @ put32 (unat (crc32c body))"
  have head: "length ?head = 13" by (simp add: magic_def)
  have "take n (h @ body) = h @ take (n - 13) body" if "length h = 13" for h :: string
    using that False by simp
  from this [OF head] have cut: "take n (frame kind body) = ?head @ take (n - 13) body"
    by (simp only: frame_def append.simps append_assoc)
  have parts: "take 4 ?head = magic" "take 4 (drop 5 ?head) = put32 (length body)"
    by (simp_all add: magic_def)
  have len: "get_le (put32 (length body)) = length body"
    using assms by (intro get_put32) (simp add: maxRecordBytes_def)
  have "ReadFull headerSize (?head @ take (n - 13) body) = Some (?head, take (n - 13) body)"
    using head by (simp add: ReadFull_def headerSize_def)
  moreover have "ReadFull (length body) (take (n - 13) body) = None"
    using assms False by (simp add: ReadFull_def headerSize_def)
  ultimately show ?thesis
    unfolding cut readFrame_def using assms False
    by (simp add: parts len magic_def del: append_assoc)
qed

text \<open>What the layout can hold: the widths of the length fields and of the moments.\<close>

definition fits :: "spool_record \<Rightarrow> bool" where
  "fits r =
     (length (r_ID r) = 16 \<and> length (r_Site r) < 2 ^ 16 \<and> length (r_HostID r) < 2 ^ 16
      \<and> length (r_SessionID r) < 2 ^ 16 \<and> length (r_Stream r) < 2 ^ 8
      \<and> r_PayloadHash r = sha256 (r_Payload r)
      \<and> - (2 ^ 63) \<le> r_CreatedAt r \<and> r_CreatedAt r < 2 ^ 63
      \<and> (case r_ExpiresAt r of None \<Rightarrow> True | Some t \<Rightarrow> t \<noteq> 0 \<and> - (2 ^ 63) \<le> t \<and> t < 2 ^ 63)
      \<and> bodySize r \<le> maxRecordBytes)"

lemma ReadFull_append [simp]: "length a = n \<Longrightarrow> ReadFull n (a @ b) = Some (a, b)"
  by (auto simp: ReadFull_def)

lemma ReadByte_Cons [simp]: "ReadByte (c # cs) = Some (c, cs)"
  by (simp add: ReadByte_def)

lemma read64_put64 [simp]: "read64 (put64 w @ s) = Some (w, s)"
  by (simp add: read64_def)

lemma read16_text16: "length v < 2 ^ 16 \<Longrightarrow> read16 (text16 v @ s) = Some (v, s)"
  by (simp add: read16_def text16_def get_put16)

lemma read32_bytes32: "length v < 2 ^ 32 \<Longrightarrow> read32 (bytes32 v @ s) = Some (v, s)"
  by (simp add: read32_def bytes32_def get_put32)

lemma UnixTime_UnixNano: "- (2 ^ 63) \<le> t \<Longrightarrow> t < 2 ^ 63 \<Longrightarrow> UnixTime (UnixNano t) = t"
  by (simp add: UnixTime_def UnixNano_def sint_sbintrunc' signed_take_bit_int_eq_self)

lemma UnixNano_0: "- (2 ^ 63) \<le> t \<Longrightarrow> t < 2 ^ 63 \<Longrightarrow> UnixNano t = 0 \<longleftrightarrow> t = 0"
  using UnixTime_UnixNano [of t] by (auto simp: UnixNano_def UnixTime_def)

lemma priority_back: "(of_nat (of_char (char_of (unat w) :: char)) :: 8 word) = w"
proof -
  have "unat w < 256" using unsigned_less [of w, where ?'a = nat] by simp
  then show ?thesis by simp
qed

lemma expiry_back:
  "(case e of None \<Rightarrow> True | Some t \<Rightarrow> t \<noteq> 0 \<and> - (2 ^ 63) \<le> t \<and> t < 2 ^ 63) \<Longrightarrow>
     (if expiry_word e \<noteq> 0 then Some (UnixTime (expiry_word e)) else None) = e"
  by (auto simp: expiry_word_def UnixNano_0 UnixTime_UnixNano split: option.splits)

lemma length_encode:
  assumes "length (r_ID r) = 16" and "length (r_PayloadHash r) = 32"
  shows "length (encode r) = bodySize r"
  using assms by (simp add: encode_def bodySize_def text16_def bytes32_def)

lemma decode_encode_append:
  assumes "fits r"
  shows "decode (encode r @ rest) = Inr r"
proof -
  have len: "length (r_Envelope r) < 2 ^ 32" "length (r_Payload r) < 2 ^ 32"
    using assms by (simp_all add: fits_def bodySize_def maxRecordBytes_def)
  have hash: "length (r_PayloadHash r) = 32" using assms by (simp add: fits_def)
  have stream: "(of_char (char_of (length (r_Stream r)) :: char) :: nat) = length (r_Stream r)"
    using assms by (simp add: fits_def)
  have "decode_fields (tl (encode r) @ rest) = Some r"
    using assms len hash stream
    by (simp add: decode_fields_def encode_def fits_def read16_text16 read32_bytes32 UnixTime_UnixNano
        priority_back expiry_back del: char_of_char of_char_of split del: if_split)
  moreover have "ReadByte (encode r @ rest) = Some (bodyVersion, tl (encode r) @ rest)"
    by (simp add: encode_def)
  ultimately show ?thesis
    using assms by (simp add: decode_def fits_def)
qed

end
