(* ===== verification/Spool_Store.thy ===== *)
theory Spool_Store
  imports Spool_Record "HOL-Library.AList" "HOL-Library.Multiset" "HOL-Library.Product_Lexorder"
begin

text \<open>
  The relay's spool (\<open>internal/relay/spool/spool.go\<close>, \<open>segment.go\<close>): segment files, the index
  over them and every operation.

  \<^item> An entry lives in \<open>heap\<close> at an address; \<open>index\<close> and \<open>byHost\<close> hold addresses, as the Go
    maps hold pointers. A Go map is an association list with one pair per key; ranging over the
    index visits it in the order \<open>shuffle\<close> gives, which may be any.
  \<^item> \<open>disk\<close> holds the bytes of each segment file. \<open>io\<close> is the list of the outcomes of the next
    system calls: \<open>Fail n\<close> is a failure, and for a write the number of bytes that reached the
    file before it; past the end of the list every call succeeds.
  \<^item> A zero \<open>time.Time\<close> is \<^const>\<open>None\<close>. \<open>freeBytes\<close> is an argument, a 64-bit unsigned number.
\<close>

section \<open>State\<close>

datatype outcome = Done | Fail nat

datatype spool_error = ErrExhausted | ErrCritical | ErrClosed | IOError | ReadError

record Options =
  o_Site :: string
  MaxBytes :: int
  CriticalReserveBytes :: int
  MinFreeBytes :: int
  AckTimeout :: int
  MaxInflightPerHost :: int
  SegmentBytes :: int
  FlushInterval :: int

definition DefaultMaxBytes :: int where "DefaultMaxBytes = 2 ^ 30"
definition DefaultCriticalReserveBytes :: int where "DefaultCriticalReserveBytes = 128 * 2 ^ 20"
definition DefaultAckTimeout :: int where "DefaultAckTimeout = 30 * 10 ^ 9"
definition DefaultMaxInflightPerHost :: int where "DefaultMaxInflightPerHost = 64"
definition DefaultSegmentBytes :: int where "DefaultSegmentBytes = 16 * 2 ^ 20"
definition DefaultFlushInterval :: int where "DefaultFlushInterval = 100 * 10 ^ 6"

definition fill :: "Options \<Rightarrow> Options" where
  "fill o0 =
     (let o1 = (if MaxBytes o0 \<le> 0 then o0\<lparr>MaxBytes := DefaultMaxBytes\<rparr> else o0);
          o2 = (if CriticalReserveBytes o1 \<le> 0
                then o1\<lparr>CriticalReserveBytes := DefaultCriticalReserveBytes\<rparr> else o1);
          o3 = (if CriticalReserveBytes o2 > MaxBytes o2
                then o2\<lparr>CriticalReserveBytes := MaxBytes o2\<rparr> else o2);
          o4 = (if MinFreeBytes o3 < 0 then o3\<lparr>MinFreeBytes := 0\<rparr> else o3);
          o5 = (if AckTimeout o4 \<le> 0 then o4\<lparr>AckTimeout := DefaultAckTimeout\<rparr> else o4);
          o6 = (if MaxInflightPerHost o5 \<le> 0
                then o5\<lparr>MaxInflightPerHost := DefaultMaxInflightPerHost\<rparr> else o5);
          o7 = (if SegmentBytes o6 \<le> 0 then o6\<lparr>SegmentBytes := DefaultSegmentBytes\<rparr> else o6)
      in if FlushInterval o7 \<le> 0 then o7\<lparr>FlushInterval := DefaultFlushInterval\<rparr> else o7)"

record entry =
  e_id :: string
  e_hostID :: string
  e_sessionID :: string
  e_stream :: string
  e_priority :: "8 word"
  e_sequence :: "64 word"
  e_createdAt :: int
  e_expiresAt :: "int option"
  e_full :: bool
  e_size :: nat
  e_segment :: nat
  e_offset :: nat
  e_sentAt :: "int option"
  e_firstSentAt :: "int option"

record segmentState =
  st_size :: nat
  st_live :: int

record segment =
  sg_id :: nat
  sg_size :: nat
  sg_open :: bool

record spool =
  sp_options :: Options
  index :: "(string \<times> nat) list"
  byHost :: "(string \<times> nat list) list"
  segments :: "(nat \<times> segmentState) list"
  active :: "segment option"
  nextID :: nat
  sp_live :: int
  dropped :: nat
  expired :: nat
  dirty :: bool
  closed :: bool
  flushErr :: "spool_error option"
  heap :: "entry list"
  disk :: "(nat \<times> string) list"
  io :: "outcome list"

record spool_env =
  env_now :: int
  freeBytes :: "spool \<Rightarrow> 64 word option"
  shuffle :: "nat list \<Rightarrow> nat list"
  message_full :: "spool_record \<Rightarrow> bool"

abbreviation ent :: "spool \<Rightarrow> nat \<Rightarrow> entry" where
  "ent s p \<equiv> heap s ! p"

definition host_list :: "spool \<Rightarrow> string \<Rightarrow> nat list" where
  "host_list s h = (case map_of (byHost s) h of None \<Rightarrow> [] | Some ps \<Rightarrow> ps)"

text \<open>\<open>Record.Full\<close>: the message of an inventory record decodes and says full.\<close>

definition Full :: "spool_env \<Rightarrow> spool_record \<Rightarrow> bool" where
  "Full env r = (r_Stream r = StreamInventory \<and> message_full env r)"

section \<open>Segment files\<close>

definition syscall :: "spool \<Rightarrow> outcome \<times> spool" where
  "syscall s = (case io s of [] \<Rightarrow> (Done, s) | x # xs \<Rightarrow> (x, s\<lparr>io := xs\<rparr>))"

definition seg_file :: "spool \<Rightarrow> nat \<Rightarrow> string" where
  "seg_file s i = (case map_of (disk s) i of None \<Rightarrow> [] | Some f \<Rightarrow> f)"

text \<open>\<open>segment.append\<close> to the active segment.\<close>

definition append_frame :: "string \<Rightarrow> segment \<Rightarrow> spool \<Rightarrow> (spool_error + nat) \<times> spool" where
  "append_frame framed a s =
     (if \<not> sg_open a then (Inl IOError, s)
      else case syscall s of
          (Done, s) \<Rightarrow>
            (Inr (sg_size a),
             s\<lparr>disk := AList.update (sg_id a) (seg_file s (sg_id a) @ framed) (disk s),
               active := Some (a\<lparr>sg_size := sg_size a + length framed\<rparr>)\<rparr>)
        | (Fail n, s) \<Rightarrow>
            (Inl IOError,
             s\<lparr>disk := AList.update (sg_id a) (seg_file s (sg_id a) @ take n framed) (disk s)\<rparr>))"

definition sync_segment :: "segment \<Rightarrow> spool \<Rightarrow> spool_error option \<times> spool" where
  "sync_segment a s =
     (if \<not> sg_open a then (Some IOError, s)
      else case syscall s of (Done, s) \<Rightarrow> (None, s) | (Fail _, s) \<Rightarrow> (Some IOError, s))"

text \<open>\<open>segment.close\<close>: the handle is closed whatever the two calls answer.\<close>

definition close_segment :: "segment \<Rightarrow> spool \<Rightarrow> spool_error option \<times> spool" where
  "close_segment a s =
     (if \<not> sg_open a then (Some IOError, s)
      else let (synced, s) = syscall s; (shut, s) = syscall s in
        (if synced = Done \<and> shut = Done then None else Some IOError,
         s\<lparr>active := Some (a\<lparr>sg_open := False\<rparr>)\<rparr>))"

definition createSegment :: "nat \<Rightarrow> spool \<Rightarrow> (spool_error + segment) \<times> spool" where
  "createSegment i s =
     (case syscall s of
        (Fail _, s) \<Rightarrow> (Inl IOError, s)
      | (Done, s) \<Rightarrow>
          if map_of (disk s) i \<noteq> None then (Inl IOError, s)
          else (case syscall (s\<lparr>disk := AList.update i [] (disk s)\<rparr>) of
              (Fail _, s) \<Rightarrow> (Inl IOError, s)
            | (Done, s) \<Rightarrow> (Inr \<lparr>sg_id = i, sg_size = 0, sg_open = True\<rparr>, s)))"

text \<open>\<open>os.Remove\<close>; a file that is not there is no error.\<close>

definition remove_file :: "nat \<Rightarrow> spool \<Rightarrow> spool_error option \<times> spool" where
  "remove_file i s =
     (case syscall s of
        (Fail _, s) \<Rightarrow> (Some IOError, s)
      | (Done, s) \<Rightarrow> (None, s\<lparr>disk := AList.delete i (disk s)\<rparr>))"

definition rollLocked :: "spool \<Rightarrow> spool_error option \<times> spool" where
  "rollLocked s0 =
     (let (err, s) = (case active s0 of None \<Rightarrow> (None, s0) | Some a \<Rightarrow> close_segment a s0) in
      if err \<noteq> None then (err, s)
      else let s = s\<lparr>nextID := nextID s + 1\<rparr> in
        case createSegment (nextID s) s of
          (Inl e, s) \<Rightarrow> (Some e, s)
        | (Inr g, s) \<Rightarrow>
            (None, s\<lparr>active := Some g,
                     segments := AList.update (sg_id g) \<lparr>st_size = 0, st_live = 0\<rparr> (segments s)\<rparr>))"

text \<open>The check in front of every write: a segment that is full is rolled over.\<close>

definition roll_if_full :: "spool \<Rightarrow> spool_error option \<times> spool" where
  "roll_if_full s =
     (case active s of
        None \<Rightarrow> rollLocked s
      | Some a \<Rightarrow> if int (sg_size a) \<ge> SegmentBytes (sp_options s) then rollLocked s else (None, s))"

definition set_state :: "nat \<Rightarrow> (segmentState \<Rightarrow> segmentState) \<Rightarrow> spool \<Rightarrow> spool" where
  "set_state i f s =
     (case map_of (segments s) i of
        None \<Rightarrow> s
      | Some st \<Rightarrow> s\<lparr>segments := AList.update i (f st) (segments s)\<rparr>)"

section \<open>Reading a record back\<close>

definition record_at :: "spool \<Rightarrow> nat \<Rightarrow> spool_record option" where
  "record_at s p =
     (case map_of (disk s) (e_segment (ent s p)) of
        None \<Rightarrow> None
      | Some f \<Rightarrow>
          (case readFrame (drop (e_offset (ent s p)) f) of
             Frame kind body _ \<Rightarrow>
               if kind \<noteq> kindRecord then None
               else (case decode body of
                       Inl _ \<Rightarrow> None
                     | Inr r \<Rightarrow> if r_ID r \<noteq> e_id (ent s p) then None else Some r)
           | _ \<Rightarrow> None))"

definition readLocked :: "nat \<Rightarrow> spool \<Rightarrow> (spool_error + spool_record) \<times> spool" where
  "readLocked p s =
     (case syscall s of
        (Fail _, s) \<Rightarrow> (Inl IOError, s)
      | (Done, s) \<Rightarrow> (case record_at s p of None \<Rightarrow> (Inl ReadError, s) | Some r \<Rightarrow> (Inr r, s)))"

section \<open>Compaction and deletion\<close>

definition diskLocked :: "spool \<Rightarrow> int" where
  "diskLocked s = (\<Sum>(i, st) \<leftarrow> segments s. int (st_size st))"

text \<open>Moving one living record of an older segment into the active one.\<close>

definition move_record :: "nat \<Rightarrow> spool \<Rightarrow> spool_error option \<times> spool" where
  "move_record p s =
     (case readLocked p s of
        (Inl e, s) \<Rightarrow> (Some e, s)
      | (Inr r, s) \<Rightarrow>
          (case active s of
             None \<Rightarrow> (Some IOError, s)
           | Some a \<Rightarrow>
               (case append_frame (frame kindRecord (encode r)) a s of
                  (Inl e, s) \<Rightarrow> (Some e, s)
                | (Inr off, s) \<Rightarrow>
                    (None, set_state (sg_id a)
                       (\<lambda>st. st\<lparr>st_live := st_live st + 1,
                                st_size := sg_size a + length (frame kindRecord (encode r))\<rparr>)
                       (s\<lparr>heap := (heap s)[p := (ent s p)\<lparr>e_segment := sg_id a, e_offset := off\<rparr>]\<rparr>)))))"

fun move_records :: "nat \<Rightarrow> nat list \<Rightarrow> spool \<Rightarrow> spool_error option \<times> spool" where
  "move_records i [] s = (None, s)"
| "move_records i (p # ps) s =
     (if e_segment (ent s p) \<noteq> i then move_records i ps s
      else case move_record p s of
          (Some e, s) \<Rightarrow> (Some e, s)
        | (None, s) \<Rightarrow> move_records i ps s)"

fun compact_segments :: "(nat list \<Rightarrow> nat list) \<Rightarrow> nat list \<Rightarrow> spool \<Rightarrow> spool_error option \<times> spool" where
  "compact_segments order [] s = (None, s)"
| "compact_segments order (i # ids) s =
     (case move_records i (order (map snd (index s))) s of
        (Some e, s) \<Rightarrow> (Some e, s)
      | (None, s) \<Rightarrow>
          (case (case active s of None \<Rightarrow> (Some IOError, s) | Some a \<Rightarrow> sync_segment a s) of
             (Some e, s) \<Rightarrow> (Some e, s)
           | (None, s) \<Rightarrow>
               (case remove_file i s of
                  (Some e, s) \<Rightarrow> (Some e, s)
                | (None, s) \<Rightarrow>
                    compact_segments order ids (s\<lparr>segments := AList.delete i (segments s)\<rparr>))))"

definition compactLocked :: "spool_env \<Rightarrow> spool \<Rightarrow> spool_error option \<times> spool" where
  "compactLocked env s =
     (let allowance = max (SegmentBytes (sp_options s)) (MaxBytes (sp_options s) div 4) in
      if diskLocked s - sp_live s \<le> allowance \<or> length (segments s) < 2 then (None, s)
      else case rollLocked s of
          (Some e, s) \<Rightarrow> (Some e, s)
        | (None, s) \<Rightarrow>
            compact_segments (shuffle env)
              (sort (filter (\<lambda>i. map_option sg_id (active s) \<noteq> Some i) (map fst (segments s)))) s)"

text \<open>Forgetting an entry in the two maps.\<close>

definition drop_entry :: "nat \<Rightarrow> spool \<Rightarrow> spool" where
  "drop_entry p s =
     (let h = e_hostID (ent s p); left = remove1 p (host_list s h) in
      s\<lparr>dirty := True,
        index := AList.delete (e_id (ent s p)) (index s),
        sp_live := sp_live s - int (e_size (ent s p)),
        byHost := (if left = [] then AList.delete h (byHost s) else AList.update h left (byHost s))\<rparr>)"

text \<open>One living record less in a segment; a dead segment that is not the active one goes.\<close>

definition release_segment :: "nat \<Rightarrow> spool \<Rightarrow> spool_error option \<times> spool" where
  "release_segment i s =
     (case map_of (segments s) i of
        None \<Rightarrow> (None, s)
      | Some st \<Rightarrow>
          (let s = set_state i (\<lambda>st. st\<lparr>st_live := st_live st - 1\<rparr>) s in
           if st_live st - 1 \<le> 0 \<and> map_option sg_id (active s) \<noteq> Some i then
             (case remove_file i s of
                (Some e, s) \<Rightarrow> (Some e, s)
              | (None, s) \<Rightarrow> (None, s\<lparr>segments := AList.delete i (segments s)\<rparr>))
           else (None, s)))"

definition deleteLocked :: "spool_env \<Rightarrow> nat \<Rightarrow> spool \<Rightarrow> spool_error option \<times> spool" where
  "deleteLocked env p s =
     (if map_of (index s) (e_id (ent s p)) = None then (None, s)
      else case roll_if_full s of
          (Some e, s) \<Rightarrow> (Some e, s)
        | (None, s) \<Rightarrow>
            (case active s of
               None \<Rightarrow> (Some IOError, s)
             | Some a \<Rightarrow>
                 (let framed = frame kindTombstone (e_id (ent s p)) in
                  case append_frame framed a s of
                    (Inl e, s) \<Rightarrow> (Some e, s)
                  | (Inr off, s) \<Rightarrow>
                      (let s = set_state (sg_id a) (\<lambda>st. st\<lparr>st_size := sg_size a + length framed\<rparr>) s
                       in case release_segment (e_segment (ent s p)) (drop_entry p s) of
                            (Some e, s) \<Rightarrow> (Some e, s)
                          | (None, s) \<Rightarrow> compactLocked env s))))"

section \<open>Room\<close>

definition roomLocked :: "spool_env \<Rightarrow> 8 word \<Rightarrow> nat \<Rightarrow> spool \<Rightarrow> spool_error option" where
  "roomLocked env priority bytes s =
     (let light = priority > PriorityJobResult;
          limit = (if light then MaxBytes (sp_options s) - CriticalReserveBytes (sp_options s)
                   else MaxBytes (sp_options s));
          refusal = (if light then ErrExhausted else ErrCritical)
      in if sp_live s + int bytes > limit then Some refusal
         else case freeBytes env s of
             Some free \<Rightarrow>
               if free - of_nat bytes < word_of_int (MinFreeBytes (sp_options s)) then Some refusal else None
           | None \<Rightarrow> None)"

fun delete_each :: "spool_env \<Rightarrow> (entry \<Rightarrow> bool) \<Rightarrow> nat list \<Rightarrow> spool \<Rightarrow> spool" where
  "delete_each env P [] s = s"
| "delete_each env P (p # ps) s =
     delete_each env P ps (if P (ent s p) then snd (deleteLocked env p s) else s)"

definition coalesceInventoryLocked :: "spool_env \<Rightarrow> string \<Rightarrow> spool \<Rightarrow> spool" where
  "coalesceInventoryLocked env h s =
     delete_each env (\<lambda>e. e_stream e = StreamInventory \<and> e_sentAt e = None) (host_list s h) s"

fun evict_metrics :: "spool_env \<Rightarrow> nat \<Rightarrow> nat list \<Rightarrow> bool \<Rightarrow> spool \<Rightarrow> bool \<times> spool" where
  "evict_metrics env bytes [] evicted s = (evicted, s)"
| "evict_metrics env bytes (p # ps) evicted s =
     (if roomLocked env PriorityMetric bytes s = None then (evicted, s)
      else case deleteLocked env p s of
          (Some e, s) \<Rightarrow> (evicted, s)
        | (None, s) \<Rightarrow> evict_metrics env bytes ps True (s\<lparr>dropped := dropped s + 1\<rparr>))"

definition evictOldestMetricLocked :: "spool_env \<Rightarrow> nat \<Rightarrow> spool \<Rightarrow> bool \<times> spool" where
  "evictOldestMetricLocked env bytes s =
     evict_metrics env bytes
       (sort_key (\<lambda>p. e_createdAt (ent s p))
          (filter (\<lambda>p. e_stream (ent s p) = StreamMetric \<and> e_sentAt (ent s p) = None)
             (shuffle env (map snd (index s))))) False s"

section \<open>Appending\<close>

definition entry_of :: "spool_env \<Rightarrow> spool_record \<Rightarrow> nat \<Rightarrow> nat \<Rightarrow> nat \<Rightarrow> entry" where
  "entry_of env r bytes i off =
     \<lparr>e_id = r_ID r, e_hostID = r_HostID r, e_sessionID = r_SessionID r, e_stream = r_Stream r,
      e_priority = r_Priority r, e_sequence = r_Sequence r, e_createdAt = r_CreatedAt r,
      e_expiresAt = r_ExpiresAt r, e_full = Full env r, e_size = bytes, e_segment = i, e_offset = off,
      e_sentAt = None, e_firstSentAt = None\<rparr>"

definition add_entry :: "entry \<Rightarrow> spool \<Rightarrow> spool" where
  "add_entry e s =
     s\<lparr>heap := heap s @ [e],
       index := AList.update (e_id e) (length (heap s)) (index s),
       byHost := AList.update (e_hostID e) (host_list s (e_hostID e) @ [length (heap s)]) (byHost s),
       sp_live := sp_live s + int (e_size e)\<rparr>"

definition writeLocked :: "spool_env \<Rightarrow> spool_record \<Rightarrow> spool \<Rightarrow> spool_error option \<times> spool" where
  "writeLocked env r s =
     (case roll_if_full s of
        (Some e, s) \<Rightarrow> (Some e, s)
      | (None, s) \<Rightarrow>
          (case active s of
             None \<Rightarrow> (Some IOError, s)
           | Some a \<Rightarrow>
               (let framed = frame kindRecord (encode r) in
                case append_frame framed a s of
                  (Inl e, s) \<Rightarrow> (Some e, s)
                | (Inr off, s) \<Rightarrow>
                    (None, add_entry (entry_of env r (length framed) (sg_id a) off)
                       (set_state (sg_id a)
                          (\<lambda>st. st\<lparr>st_size := sg_size a + length framed, st_live := st_live st + 1\<rparr>) s)))))"

definition notKeptLocked :: "spool_record \<Rightarrow> spool_error \<Rightarrow> spool \<Rightarrow> spool_error option \<times> spool" where
  "notKeptLocked r e s = (Some e, if Durable (r_Stream r) then s\<lparr>flushErr := Some e\<rparr> else s)"

text \<open>
  \<open>Append\<close> of a record that has its identifier; an empty site is filled in from the options.
\<close>

definition Append :: "spool_env \<Rightarrow> spool_record \<Rightarrow> spool \<Rightarrow> spool_error option \<times> spool" where
  "Append env r0 s0 =
     (let r = (if r_Site r0 = [] then r0\<lparr>r_Site := o_Site (sp_options s0)\<rparr> else r0) in
      if closed s0 then (Some ErrClosed, s0)
      else let s = (if r_Stream r = StreamInventory \<and> Full env r
                    then coalesceInventoryLocked env (r_HostID r) s0 else s0);
               refused = roomLocked env (r_Priority r) (Size r) s;
               (evicted, s) = (if refused \<noteq> None \<and> r_Stream r = StreamMetric
                               then evictOldestMetricLocked env (Size r) s else (False, s));
               refused = (if evicted then roomLocked env (r_Priority r) (Size r) s else refused)
           in case refused of
                Some e \<Rightarrow> notKeptLocked r e (s\<lparr>dropped := dropped s + 1\<rparr>)
              | None \<Rightarrow>
                  (case writeLocked env r s of
                     (Some e, s) \<Rightarrow> notKeptLocked r e s
                   | (None, s) \<Rightarrow>
                       if Durable (r_Stream r) then
                         (case (case active s of None \<Rightarrow> (Some IOError, s) | Some a \<Rightarrow> sync_segment a s) of
                            (Some e, s) \<Rightarrow> (Some e, s\<lparr>flushErr := Some e\<rparr>)
                          | (None, s) \<Rightarrow> (None, s\<lparr>flushErr := None, dirty := False\<rparr>))
                       else (None, s\<lparr>dirty := True\<rparr>)))"

section \<open>Sending and acknowledging\<close>

definition past_expiry :: "int \<Rightarrow> entry \<Rightarrow> bool" where
  "past_expiry now e = (case e_expiresAt e of None \<Rightarrow> False | Some t \<Rightarrow> now > t)"

fun expire_each :: "spool_env \<Rightarrow> nat list \<Rightarrow> spool \<Rightarrow> spool" where
  "expire_each env [] s = s"
| "expire_each env (p # ps) s =
     expire_each env ps
       (if past_expiry (env_now env) (ent s p) then
          (case deleteLocked env p s of
             (None, s) \<Rightarrow> s\<lparr>expired := expired s + 1\<rparr>
           | (Some e, s) \<Rightarrow> s)
        else s)"

definition expireLocked :: "spool_env \<Rightarrow> string \<Rightarrow> spool \<Rightarrow> spool" where
  "expireLocked env h s = expire_each env (host_list s h) s"

text \<open>Sent and not yet timed out.\<close>

definition in_flight :: "spool_env \<Rightarrow> spool \<Rightarrow> entry \<Rightarrow> bool" where
  "in_flight env s e =
     (case e_sentAt e of None \<Rightarrow> False | Some t \<Rightarrow> env_now env - t < AckTimeout (sp_options s))"

definition mark_sent :: "int \<Rightarrow> nat \<Rightarrow> spool \<Rightarrow> spool" where
  "mark_sent now p s =
     s\<lparr>heap := (heap s)[p := (ent s p)\<lparr>e_sentAt := Some now,
         e_firstSentAt := (if e_firstSentAt (ent s p) = None then Some now else e_firstSentAt (ent s p))\<rparr>]\<rparr>"

fun send_each :: "spool_env \<Rightarrow> nat list \<Rightarrow> spool \<Rightarrow> spool_record list \<times> spool" where
  "send_each env [] s = ([], s)"
| "send_each env (p # ps) s =
     (case readLocked p s of
        (Inl e, s) \<Rightarrow> send_each env ps (snd (deleteLocked env p (s\<lparr>dropped := dropped s + 1\<rparr>)))
      | (Inr r, s) \<Rightarrow>
          (let (rs, s) = send_each env ps (mark_sent (env_now env) p s) in (r # rs, s)))"

definition send_key :: "entry \<Rightarrow> nat \<times> nat \<times> int" where
  "send_key e = (unat (e_priority e), unat (e_sequence e), e_createdAt e)"

definition Next :: "spool_env \<Rightarrow> string \<Rightarrow> int \<Rightarrow> spool \<Rightarrow> (spool_error + spool_record list) \<times> spool" where
  "Next env h limit s0 =
     (if closed s0 then (Inl ErrClosed, s0)
      else let s = expireLocked env h s0;
               list = host_list s h;
               inflight = length (filter (\<lambda>p. in_flight env s (ent s p)) list);
               free = MaxInflightPerHost (sp_options s) - int inflight;
               room = (if limit > 0 \<and> limit < free then limit else free)
           in if room \<le> 0 then (Inr [], s)
              else let due = filter (\<lambda>p. \<not> in_flight env s (ent s p)) list;
                       (rs, s) = send_each env (take (nat room) (sort_key (\<lambda>p. send_key (ent s p)) due)) s
                   in (Inr rs, s))"

definition MarkSent :: "spool_env \<Rightarrow> string \<Rightarrow> spool \<Rightarrow> spool" where
  "MarkSent env u s = (case map_of (index s) u of None \<Rightarrow> s | Some p \<Rightarrow> mark_sent (env_now env) p s)"

definition Hosts :: "spool \<Rightarrow> string list" where
  "Hosts s = sort (map fst (byHost s))"

definition Unsend :: "string \<Rightarrow> spool \<Rightarrow> spool" where
  "Unsend h s =
     foldl (\<lambda>s p. s\<lparr>heap := (heap s)[p := (ent s p)\<lparr>e_sentAt := None, e_firstSentAt := None\<rparr>]\<rparr>)
       s (host_list s h)"

definition Ack :: "spool_env \<Rightarrow> string \<Rightarrow> string \<Rightarrow> 64 word \<Rightarrow> spool \<Rightarrow> (spool_error option \<times> bool) \<times> spool" where
  "Ack env h session seq s =
     (if closed s then ((Some ErrClosed, False), s)
      else case find (\<lambda>p. e_sessionID (ent s p) = session \<and> e_sequence (ent s p) = seq
                          \<and> e_sequence (ent s p) \<noteq> 0) (host_list s h) of
          None \<Rightarrow> ((None, False), s)
        | Some p \<Rightarrow> (case deleteLocked env p s of (err, s) \<Rightarrow> ((err, True), s)))"

definition AckID :: "spool_env \<Rightarrow> string \<Rightarrow> string \<Rightarrow> spool \<Rightarrow> (spool_error option \<times> bool) \<times> spool" where
  "AckID env h u s =
     (if closed s then ((Some ErrClosed, False), s)
      else case map_of (index s) u of
          None \<Rightarrow> ((None, False), s)
        | Some p \<Rightarrow>
            if e_hostID (ent s p) \<noteq> h then ((None, False), s)
            else (case deleteLocked env p s of (err, s) \<Rightarrow> ((err, True), s)))"

definition forgettable :: "int \<Rightarrow> int \<Rightarrow> int \<Rightarrow> entry \<Rightarrow> bool" where
  "forgettable now grace lastNamed e =
     (e_sequence e = 0 \<and> (case e_firstSentAt e of None \<Rightarrow> False
        | Some t \<Rightarrow> \<not> (now - t < grace \<or> lastNamed > t)))"

fun forget_each :: "spool_env \<Rightarrow> int \<Rightarrow> int \<Rightarrow> nat list \<Rightarrow> nat \<Rightarrow> spool \<Rightarrow> (spool_error option \<times> nat) \<times> spool" where
  "forget_each env grace lastNamed [] n s = ((None, n), s)"
| "forget_each env grace lastNamed (p # ps) n s =
     (if \<not> forgettable (env_now env) grace lastNamed (ent s p) then forget_each env grace lastNamed ps n s
      else case deleteLocked env p s of
          (Some e, s) \<Rightarrow> ((Some e, n), s)
        | (None, s) \<Rightarrow> forget_each env grace lastNamed ps (n + 1) s)"

definition ForgetUnacknowledged ::
    "spool_env \<Rightarrow> string \<Rightarrow> int \<Rightarrow> int \<Rightarrow> spool \<Rightarrow> (spool_error option \<times> nat) \<times> spool" where
  "ForgetUnacknowledged env h grace lastNamed s =
     (if closed s then ((Some ErrClosed, 0), s)
      else forget_each env grace lastNamed (host_list s h) 0 s)"

definition Delete :: "spool_env \<Rightarrow> string \<Rightarrow> spool \<Rightarrow> spool_error option \<times> spool" where
  "Delete env u s =
     (if closed s then (Some ErrClosed, s)
      else case map_of (index s) u of None \<Rightarrow> (None, s) | Some p \<Rightarrow> deleteLocked env p s)"

section \<open>Flushing, closing, counting\<close>

definition flush_tick :: "spool \<Rightarrow> spool" where
  "flush_tick s =
     (if dirty s then
        (case active s of
           None \<Rightarrow> s
         | Some a \<Rightarrow> (case sync_segment a s of (err, s) \<Rightarrow> s\<lparr>flushErr := err, dirty := False\<rparr>))
      else s)"

definition Close :: "spool \<Rightarrow> spool_error option \<times> spool" where
  "Close s0 =
     (if closed s0 then (None, s0)
      else let s = s0\<lparr>closed := True\<rparr> in
        case active s of
          None \<Rightarrow> (None, s)
        | Some a \<Rightarrow> (case close_segment a s of (err, s) \<Rightarrow> (err, s\<lparr>active := None\<rparr>)))"

record Stats =
  BytesUsed :: int
  BytesLimit :: int
  DiskBytes :: int
  Items :: nat
  Inflight :: nat
  DroppedTotal :: nat
  ExpiredTotal :: nat
  Critical :: bool
  Segments :: nat

definition stats :: "spool_env \<Rightarrow> spool \<Rightarrow> Stats" where
  "stats env s =
     \<lparr>BytesUsed = sp_live s, BytesLimit = MaxBytes (sp_options s), DiskBytes = diskLocked s,
      Items = length (index s),
      Inflight = length (filter (\<lambda>(u, p). in_flight env s (ent s p)) (index s)),
      DroppedTotal = dropped s, ExpiredTotal = expired s,
      Critical = (sp_live s > MaxBytes (sp_options s) - CriticalReserveBytes (sp_options s)
        \<or> (case freeBytes env s of Some free \<Rightarrow> free < word_of_int (MinFreeBytes (sp_options s)) | None \<Rightarrow> False)),
      Segments = length (segments s)\<rparr>"

end
