(* ===== verification/Spool_Recover.thy ===== *)
theory Spool_Recover
  imports Spool_Store
begin

text \<open>
  Opening a spool: the segment files are walked frame by frame, a torn tail is cut off, and the
  index is built from what is left (\<open>walkSegment\<close> in \<open>segment.go\<close>, \<open>rebuild\<close> and \<open>Open\<close>
  in \<open>spool.go\<close>).

  A read that fails after \<open>n\<close> bytes is the outcome \<open>Fail n\<close> of the call after the one that
  opens the file. \<open>readFrame\<close> turns it into a torn record, as it does with the end of the file.
\<close>

section \<open>Walking a segment\<close>

lemma readFrame_shorter: "readFrame s = Frame kind body rest \<Longrightarrow> length rest < length s"
  by (auto simp: readFrame_def ReadFull_def headerSize_def Let_def split: if_splits)

type_synonym visited = "(char \<times> string \<times> nat \<times> nat) list"

text \<open>The frames with offset and size, the offset where the walk stops, and whether it stops torn.\<close>

function walk :: "nat \<Rightarrow> string \<Rightarrow> visited \<times> nat \<times> bool" where
  "walk off s =
     (case readFrame s of
        EOF \<Rightarrow> ([], off, False)
      | Torn \<Rightarrow> ([], off, True)
      | Frame kind body rest \<Rightarrow>
          (let bytes = headerSize + length body; (fs, kept, torn) = walk (off + bytes) rest
           in ((kind, body, off, bytes) # fs, kept, torn)))"
  by pat_completeness auto
termination
  by (relation "measure (\<lambda>(off, s). length s)") (auto dest: readFrame_shorter)

declare walk.simps [simp del]

definition walkSegment :: "nat \<Rightarrow> spool \<Rightarrow> (spool_error + visited) \<times> spool" where
  "walkSegment i s =
     (case syscall s of
        (Fail _, s) \<Rightarrow> (Inl IOError, s)
      | (Done, s) \<Rightarrow>
          if map_of (disk s) i = None then (Inl IOError, s)
          else let (got, s) = syscall s;
                   f = seg_file s i;
                   (fs, kept, torn) = walk 0 (case got of Done \<Rightarrow> f | Fail n \<Rightarrow> take n f)
               in if torn \<or> got \<noteq> Done then
                    (case syscall s of
                       (Fail _, s) \<Rightarrow> (Inl IOError, s)
                     | (Done, s) \<Rightarrow>
                         (case syscall (s\<lparr>disk := AList.update i (take kept f) (disk s)\<rparr>) of
                            (Fail _, s) \<Rightarrow> (Inl IOError, s)
                          | (Done, s) \<Rightarrow> (Inr fs, s)))
                  else (Inr fs, s))"

section \<open>Building the index\<close>

definition tombs_of :: "visited \<Rightarrow> string list" where
  "tombs_of fs = [body. (kind, body, off, bytes) \<leftarrow> fs, kind = kindTombstone \<and> length body = 16]"

fun collect_tombs :: "nat list \<Rightarrow> string list \<Rightarrow> spool \<Rightarrow> (spool_error + string list) \<times> spool" where
  "collect_tombs [] tombs s = (Inr tombs, s)"
| "collect_tombs (i # ids) tombs s =
     (case walkSegment i s of
        (Inl e, s) \<Rightarrow> (Inl e, s)
      | (Inr fs, s) \<Rightarrow> collect_tombs ids (tombs @ tombs_of fs) s)"

fun index_frame :: "spool_env \<Rightarrow> nat \<Rightarrow> string list \<Rightarrow> spool \<times> int \<Rightarrow> char \<times> string \<times> nat \<times> nat \<Rightarrow> spool \<times> int" where
  "index_frame env i tombs (s, n) (kind, body, off, bytes) =
     (if kind \<noteq> kindRecord then (s, n)
      else case decode body of
          Inl _ \<Rightarrow> (s\<lparr>dropped := dropped s + 1\<rparr>, n)
        | Inr r \<Rightarrow>
            if r_ID r \<in> set tombs then (s, n)
            else (let e = entry_of env r bytes i off in
              case map_of (index s) (r_ID r) of
                Some q \<Rightarrow>
                  (let s1 = set_state (e_segment (ent s q)) (\<lambda>st. st\<lparr>st_live := st_live st - 1\<rparr>) s
                   in (s1\<lparr>sp_live := sp_live s - int (e_size (ent s q)) + int bytes, heap := (heap s)[q := e]\<rparr>, n + 1))
              | None \<Rightarrow> (add_entry e s, n + 1)))"

fun load_segments :: "spool_env \<Rightarrow> string list \<Rightarrow> nat list \<Rightarrow> spool \<Rightarrow> spool_error option \<times> spool" where
  "load_segments env tombs [] s = (None, s)"
| "load_segments env tombs (i # ids) s =
     (case walkSegment i s of
        (Inl e, s) \<Rightarrow> (Some e, s)
      | (Inr fs, s) \<Rightarrow>
          (let (s, n) = foldl (index_frame env i tombs) (s, 0) fs in
           case syscall s of
             (Fail _, s) \<Rightarrow> (Some IOError, s)
           | (Done, s) \<Rightarrow>
               load_segments env tombs ids
                 (s\<lparr>segments := AList.update i \<lparr>st_size = length (seg_file s i), st_live = n\<rparr> (segments s),
                    nextID := max (nextID s) i\<rparr>)))"

fun remove_dead :: "nat list \<Rightarrow> spool \<Rightarrow> spool_error option \<times> spool" where
  "remove_dead [] s = (None, s)"
| "remove_dead (i # ids) s =
     (if (\<exists>st. map_of (segments s) i = Some st \<and> st_live st = 0) \<and> i \<noteq> nextID s then
        (case remove_file i s of
           (Some e, s) \<Rightarrow> (Some e, s)
         | (None, s) \<Rightarrow> remove_dead ids (s\<lparr>segments := AList.delete i (segments s)\<rparr>))
      else remove_dead ids s)"

definition openSegment :: "nat \<Rightarrow> spool \<Rightarrow> (spool_error + segment) \<times> spool" where
  "openSegment i s =
     (case walkSegment i s of
        (Inl e, s) \<Rightarrow> (Inl e, s)
      | (Inr fs, s) \<Rightarrow>
          (case syscall s of
             (Fail _, s) \<Rightarrow> (Inl IOError, s)
           | (Done, s) \<Rightarrow>
               (case syscall s of
                  (Fail _, s) \<Rightarrow> (Inl IOError, s)
                | (Done, s) \<Rightarrow> (Inr \<lparr>sg_id = i, sg_size = length (seg_file s i), sg_open = True\<rparr>, s))))"

definition listSegments :: "spool \<Rightarrow> (spool_error + nat list) \<times> spool" where
  "listSegments s =
     (case syscall s of
        (Fail _, s) \<Rightarrow> (Inl IOError, s)
      | (Done, s) \<Rightarrow> (Inr (sort (map fst (disk s))), s))"

definition rebuild :: "spool_env \<Rightarrow> spool \<Rightarrow> spool_error option \<times> spool" where
  "rebuild env s =
     (case listSegments s of
        (Inl e, s) \<Rightarrow> (Some e, s)
      | (Inr ids, s) \<Rightarrow>
          (case collect_tombs ids [] s of
             (Inl e, s) \<Rightarrow> (Some e, s)
           | (Inr tombs, s) \<Rightarrow>
               (case load_segments env tombs ids s of
                  (Some e, s) \<Rightarrow> (Some e, s)
                | (None, s) \<Rightarrow>
                    (case remove_dead ids s of
                       (Some e, s) \<Rightarrow> (Some e, s)
                     | (None, s) \<Rightarrow>
                         if nextID s > 0 then
                           (case openSegment (nextID s) s of
                              (Inl e, s) \<Rightarrow> (Some e, s)
                            | (Inr g, s) \<Rightarrow>
                                (None, set_state (sg_id g) (\<lambda>st. st\<lparr>st_size := sg_size g\<rparr>) (s\<lparr>active := Some g\<rparr>)))
                         else (None, s)))))"

definition new_spool :: "Options \<Rightarrow> (nat \<times> string) list \<Rightarrow> outcome list \<Rightarrow> spool" where
  "new_spool opts d outcomes =
     \<lparr>sp_options = fill opts, index = [], byHost = [], segments = [], active = None, nextID = 0, sp_live = 0,
      dropped = 0, expired = 0, dirty = False, closed = False, flushErr = None, heap = [], disk = d, io = outcomes\<rparr>"

text \<open>The directory is made and its mode set before the segments are read.\<close>

definition Open :: "spool_env \<Rightarrow> Options \<Rightarrow> (nat \<times> string) list \<Rightarrow> outcome list \<Rightarrow> spool_error + spool" where
  "Open env opts d outcomes =
     (let (made, s) = syscall (new_spool opts d outcomes); (mode, s) = syscall s in
      if made \<noteq> Done \<or> mode \<noteq> Done then Inl IOError
      else case rebuild env s of (Some e, s) \<Rightarrow> Inl e | (None, s) \<Rightarrow> Inr s)"

section \<open>Walking what was appended\<close>

abbreviation frame_bytes :: "(char \<times> string) list \<Rightarrow> string" where
  "frame_bytes fs \<equiv> concat (map (\<lambda>(kind, body). frame kind body) fs)"

fun visits :: "nat \<Rightarrow> (char \<times> string) list \<Rightarrow> visited" where
  "visits off [] = []"
| "visits off ((kind, body) # fs) =
     (kind, body, off, headerSize + length body) # visits (off + headerSize + length body) fs"

lemma walk_frames:
  assumes "\<forall>(kind, body) \<in> set fs. length body \<le> maxRecordBytes" and "readFrame t \<in> {EOF, Torn}"
  shows "walk off (frame_bytes fs @ t) = (visits off fs, off + length (frame_bytes fs), readFrame t = Torn)"
  using assms
proof (induction fs arbitrary: off)
  case Nil
  then show ?case by (auto simp: walk.simps [of off t])
next
  case (Cons f fs)
  obtain kind body where f: "f = (kind, body)" by (cases f)
  have "readFrame (frame kind body @ (frame_bytes fs @ t)) = Frame kind body (frame_bytes fs @ t)"
    using Cons.prems f by (intro readFrame_frame) simp
  moreover have "walk (off + (headerSize + length body)) (frame_bytes fs @ t)
      = (visits (off + (headerSize + length body)) fs, off + (headerSize + length body) + length (frame_bytes fs), readFrame t = Torn)"
    using Cons by simp
  ultimately show ?case
    by (simp add: f walk.simps [of off "frame kind body @ (frame_bytes fs @ t)"] Let_def add.assoc)
qed

section \<open>Walking a file that grows\<close>

lemma readFrame_EOF: "readFrame s = EOF \<longleftrightarrow> s = []"
  by (auto simp: readFrame_def Let_def split: option.splits)

lemma readFrame_Nil [simp]: "readFrame [] = EOF"
  by (simp add: readFrame_EOF)

lemma ReadFull_more: "ReadFull n s = Some (a, b) \<Longrightarrow> ReadFull n (s @ x) = Some (a, b @ x)"
  by (auto simp: ReadFull_def split: if_splits)

lemma readFrame_more: "readFrame s = Frame kind body rest \<Longrightarrow> readFrame (s @ x) = Frame kind body (rest @ x)"
  using ReadFull_more [of _ s] ReadFull_more [of _ _ body rest]
  by (auto simp: readFrame_def Let_def split: if_splits option.splits)

lemma readFrame_rest: "readFrame s = Frame kind body rest \<Longrightarrow> rest = drop (headerSize + length body) s \<and> headerSize + length body \<le> length s"
  by (auto simp: readFrame_def ReadFull_def Let_def add.commute split: if_splits option.splits)

text \<open>What was visited stays visited, whatever is appended.\<close>

lemma walk_more: "\<exists>vs. fst (walk off (s @ x)) = fst (walk off s) @ vs"
proof (induction off s rule: walk.induct)
  case (1 off s)
  show ?case
  proof (cases "readFrame s")
    case (Frame kind body rest)
    let ?o = "off + (headerSize + length body)"
    from 1 [OF Frame refl] obtain vs where "fst (walk ?o (rest @ x)) = fst (walk ?o rest) @ vs" by blast
    then show ?thesis
      using Frame readFrame_more [OF Frame, of x] by (simp add: walk.simps [of off] Let_def case_prod_beta)
  qed (simp_all add: walk.simps [of off s])
qed

definition whole :: "string \<Rightarrow> bool" where
  "whole s = (snd (walk 0 s) = (length s, False))"

lemma walk_whole_append:
  assumes "snd (walk off s) = (off + length s, False)" "length body \<le> maxRecordBytes"
  shows "walk off (s @ frame kind body)
    = (fst (walk off s) @ [(kind, body, off + length s, headerSize + length body)],
       off + length s + (headerSize + length body), False)"
  using assms(1)
proof (induction off s rule: walk.induct)
  case (1 off s)
  show ?case
  proof (cases "readFrame s")
    case EOF
    then have s: "s = []" by (simp add: readFrame_EOF)
    show ?thesis using walk_frames [of "[(kind, body)]" "[]" off] assms(2) walk_frames [of "[]" "[]" off]
      by (simp add: s readFrame_EOF)
  next
    case Torn
    then show ?thesis using 1(2) by (simp add: walk.simps [of off s])
  next
    case (Frame k b rest)
    let ?o = "off + (headerSize + length b)"
    have len: "length s = headerSize + length b + length rest" using readFrame_rest [OF Frame] by auto
    have "snd (walk ?o rest) = (?o + length rest, False)"
      using 1(2) Frame len by (simp add: walk.simps [of off s] Let_def case_prod_beta)
    from 1(1) [OF Frame refl this] show ?thesis
      using Frame readFrame_more [OF Frame] len
      by (simp add: walk.simps [of off] Let_def case_prod_beta)
  qed
qed

lemma whole_Nil [simp]: "whole []" "fst (walk 0 []) = []"
  by (simp_all add: whole_def walk.simps [of 0 "[]"] readFrame_EOF)

lemma whole_append:
  assumes "whole s" "length body \<le> maxRecordBytes"
  shows "whole (s @ frame kind body)"
    and "fst (walk 0 (s @ frame kind body)) = fst (walk 0 s) @ [(kind, body, length s, headerSize + length body)]"
  using walk_whole_append [of 0 s body kind] assms by (simp_all add: whole_def)

text \<open>A visited frame is read back at its offset.\<close>

lemma walk_visit:
  assumes "(kind, body, o', n) \<in> set (fst (walk off s))"
  shows "off \<le> o' \<and> n = headerSize + length body \<and> (\<exists>rest. readFrame (drop (o' - off) s) = Frame kind body rest)"
  using assms
proof (induction off s rule: walk.induct)
  case (1 off s)
  show ?case
  proof (cases "readFrame s")
    case (Frame k b rest)
    let ?o = "off + (headerSize + length b)"
    have "(kind, body, o', n) = (k, b, off, headerSize + length b) \<or> (kind, body, o', n) \<in> set (fst (walk ?o rest))"
      using 1(2) Frame by (simp add: walk.simps [of off s] Let_def case_prod_beta)
    then show ?thesis
    proof
      assume "(kind, body, o', n) \<in> set (fst (walk ?o rest))"
      from 1(1) [OF Frame refl this] show ?thesis using readFrame_rest [OF Frame]
        by (auto simp: drop_drop)
    qed (use Frame in simp)
  qed (use 1(2) in \<open>simp_all add: walk.simps [of off s]\<close>)
qed

text \<open>
  C40: A segment whose last write was cut anywhere is read back as exactly the frames that were
  written in full before it, and the walk says where to cut the file.
\<close>

theorem torn_tail_is_cut:
  assumes "\<forall>(kind, body) \<in> set fs. length body \<le> maxRecordBytes"
    and "length body \<le> maxRecordBytes" and "n < length (frame kind body)"
  shows "walk 0 (frame_bytes fs @ take n (frame kind body))
    = (visits 0 fs, length (frame_bytes fs), n \<noteq> 0)"
  using walk_frames [OF assms(1), of "take n (frame kind body)" 0] readFrame_cut [OF assms(3,2)]
  by auto

theorem torn_tail_is_cut_witness:
  "walk 0 (frame_bytes [(kindTombstone, ''ab'')] @ take 15 (frame kindRecord ''xyz''))
   = ([(kindTombstone, ''ab'', 0, 15)], 15, True)"
  using torn_tail_is_cut [of "[(kindTombstone, ''ab'')]" "''xyz''" 15 kindRecord]
  by (simp add: maxRecordBytes_def headerSize_def)

end
