(* ===== verification/Spool_Safety.thy ===== *)
theory Spool_Safety
  imports Spool_Recover
begin

text \<open>
  What the spool keeps true, whatever calls fail as long as a failing write writes nothing: the
  two maps agree, the accounts of bytes and of living records hold, and every entry can be read
  back as the record that was appended. \<open>keeps D s s'\<close> says that a step keeps all that and
  forgets no record outside \<open>D\<close>; steps compose.
\<close>

section \<open>Association lists\<close>

declare map_of_eq_Some_iff [simp del] Some_eq_map_of_iff [simp del]

lemma alist_update_new: "k \<notin> fst ` set al \<Longrightarrow> AList.update k v al = al @ [(k, v)]"
  by (induction al) auto

lemma alist_delete_filter: "AList.delete k al = filter (\<lambda>kv. fst kv \<noteq> k) al"
  by (simp add: AList.delete_eq case_prod_beta' eq_commute)

lemma sum_list_delete:
  fixes f :: "_ \<Rightarrow> int"
  assumes "distinct (map fst al)" "map_of al k = Some v"
  shows "sum_list (map f (AList.delete k al)) = sum_list (map f al) - f (k, v)"
  using assms
proof (induction al)
  case (Cons kv al)
  show ?case
  proof (cases "fst kv = k")
    case True
    with Cons.prems have "kv = (k, v)" "k \<notin> fst ` set al" by (cases kv; auto)+
    moreover from this have "AList.delete k al = al" by (simp add: delete_notin_dom)
    ultimately show ?thesis by simp
  next
    case False
    with Cons show ?thesis by (cases kv) auto
  qed
qed simp

lemma length_filter_delete:
  assumes "distinct (map fst al)" "map_of al k = Some v"
  shows "length (filter P (AList.delete k al)) + (if P (k, v) then 1 else 0) = length (filter P al)"
  using assms
proof (induction al)
  case (Cons kv al)
  show ?case
  proof (cases "fst kv = k")
    case True
    with Cons.prems have "kv = (k, v)" "k \<notin> fst ` set al" by (cases kv; auto)+
    moreover from this have "AList.delete k al = al" by (simp add: delete_notin_dom)
    ultimately show ?thesis by simp
  next
    case False
    with Cons show ?thesis by (cases kv) auto
  qed
qed simp

section \<open>A record on disk\<close>

definition stored :: "string \<Rightarrow> nat \<Rightarrow> spool_record \<Rightarrow> bool" where
  "stored f off r =
     (fits r \<and> (kindRecord, encode r, off, headerSize + length (encode r)) \<in> set (fst (walk 0 f)))"

lemma fits_size: "fits r \<Longrightarrow> length (encode r) = bodySize r \<and> length (encode r) \<le> maxRecordBytes"
  using length_encode [of r] by (simp add: fits_def)

lemma stored_append: "stored f off r \<Longrightarrow> stored (f @ x) off r"
  using walk_more [of 0 f x] by (auto simp: stored_def)

lemma stored_at_end: "whole f \<Longrightarrow> fits r \<Longrightarrow> stored (f @ frame kindRecord (encode r)) (length f) r"
  using whole_append(2) [of f "encode r" kindRecord] fits_size [of r] by (simp add: stored_def)

lemma stored_read:
  assumes "stored f off r"
  shows "\<exists>rest. readFrame (drop off f) = Frame kindRecord (encode r) rest" and "decode (encode r) = Inr r"
proof -
  show "\<exists>rest. readFrame (drop off f) = Frame kindRecord (encode r) rest"
    using assms walk_visit [of kindRecord "encode r" off _ 0 f] by (auto simp: stored_def)
  show "decode (encode r) = Inr r" using assms decode_encode_append [of r "[]"] by (simp add: stored_def)
qed

text \<open>The entry at an address describes a record of a file.\<close>

definition describes :: "entry \<Rightarrow> spool_record \<Rightarrow> bool" where
  "describes e r =
     (e_id e = r_ID r \<and> e_hostID e = r_HostID r \<and> e_sessionID e = r_SessionID r \<and> e_stream e = r_Stream r
      \<and> e_priority e = r_Priority r \<and> e_sequence e = r_Sequence r \<and> e_createdAt e = r_CreatedAt r
      \<and> e_expiresAt e = r_ExpiresAt r \<and> e_size e = Size r)"

definition holds :: "spool \<Rightarrow> nat \<Rightarrow> spool_record \<Rightarrow> bool" where
  "holds s p r =
     (describes (ent s p) r
      \<and> (\<exists>f. map_of (disk s) (e_segment (ent s p)) = Some f \<and> stored f (e_offset (ent s p)) r))"

lemma holds_record_at: "holds s p r \<Longrightarrow> record_at s p = Some r"
  using stored_read
  by (fastforce simp: holds_def record_at_def describes_def split: option.splits)

lemma holds_unique: "holds s p r \<Longrightarrow> holds s p r' \<Longrightarrow> r = r'"
  using holds_record_at [of s p r] holds_record_at [of s p r'] by simp

section \<open>The invariant\<close>

definition index_inv :: "spool \<Rightarrow> bool" where
  "index_inv s =
     (distinct (map fst (index s))
      \<and> (\<forall>u p. map_of (index s) u = Some p \<longrightarrow> p < length (heap s) \<and> e_id (ent s p) = u))"

definition host_inv :: "spool \<Rightarrow> bool" where
  "host_inv s =
     (distinct (map fst (byHost s))
      \<and> (\<forall>h ps. map_of (byHost s) h = Some ps \<longrightarrow> ps \<noteq> [] \<and> distinct ps
           \<and> (\<forall>p \<in> set ps. e_hostID (ent s p) = h \<and> map_of (index s) (e_id (ent s p)) = Some p))
      \<and> (\<forall>u p. map_of (index s) u = Some p \<longrightarrow> p \<in> set (host_list s (e_hostID (ent s p)))))"

definition live_inv :: "spool \<Rightarrow> bool" where
  "live_inv s = (sp_live s = (\<Sum>(u, p) \<leftarrow> index s. int (e_size (ent s p))))"

definition files_inv :: "spool \<Rightarrow> bool" where
  "files_inv s =
     (distinct (map fst (disk s)) \<and> distinct (map fst (segments s))
      \<and> (\<forall>i. map_of (segments s) i \<noteq> None \<longrightarrow> map_of (disk s) i \<noteq> None)
      \<and> (\<forall>i. map_of (disk s) i \<noteq> None \<longrightarrow> i \<le> nextID s))"

definition stored_inv :: "spool \<Rightarrow> bool" where
  "stored_inv s =
     (\<forall>u p. map_of (index s) u = Some p \<longrightarrow>
        (\<exists>r. holds s p r) \<and> map_of (segments s) (e_segment (ent s p)) \<noteq> None)"

definition in_segment :: "spool \<Rightarrow> nat \<Rightarrow> nat" where
  "in_segment s i = length (filter (\<lambda>(u, p). e_segment (ent s p) = i) (index s))"

definition count_inv :: "spool \<Rightarrow> bool" where
  "count_inv s = (\<forall>i st. map_of (segments s) i = Some st \<longrightarrow> int (in_segment s i) \<le> st_live st)"

definition active_inv :: "spool \<Rightarrow> bool" where
  "active_inv s =
     (case active s of
        None \<Rightarrow> True
      | Some a \<Rightarrow> map_of (segments s) (sg_id a) \<noteq> None \<and> map_of (disk s) (sg_id a) \<noteq> None
                  \<and> sg_size a = length (seg_file s (sg_id a)))"

text \<open>The frames of all the files on disk, and those about the records of a set of identifiers.\<close>

definition logged :: "spool \<Rightarrow> (char \<times> string) set" where
  "logged s = {(kind, body). \<exists>i f off n. map_of (disk s) i = Some f \<and> (kind, body, off, n) \<in> set (fst (walk 0 f))}"

definition frames_about :: "string set \<Rightarrow> (char \<times> string) set" where
  "frames_about D = {kindTombstone} \<times> D \<union> {(kindRecord, encode r) | r. fits r \<and> r_ID r \<in> D}"

definition written :: "spool \<Rightarrow> string set" where
  "written s = {u. logged s \<inter> frames_about {u} \<noteq> {}}"

lemma kinds_differ [simp]: "kindRecord \<noteq> kindTombstone" "kindTombstone \<noteq> kindRecord"
  by (simp_all add: kindRecord_def kindTombstone_def)

lemma frames_about_simps [simp]:
  "(kindTombstone, u) \<in> frames_about D \<longleftrightarrow> u \<in> D" "frames_about {} = {}"
  "frames_about (D \<union> D') = frames_about D \<union> frames_about D'"
  "frames_about D \<subseteq> frames_about D' \<longleftrightarrow> D \<subseteq> D'"
  by (auto simp: frames_about_def)

lemma encode_inject: "fits r \<Longrightarrow> fits r' \<Longrightarrow> encode r = encode r' \<longleftrightarrow> r = r'"
  using decode_encode_append [of r "[]"] decode_encode_append [of r' "[]"] by (metis append_Nil2 sum.inject(2))

lemma frames_about_record [simp]: "fits r \<Longrightarrow> (kindRecord, encode r) \<in> frames_about D \<longleftrightarrow> r_ID r \<in> D"
  using encode_inject by (auto simp: frames_about_def)

text \<open>
  The files are whole frames; a record frame is the encoding of a record, and an identifier has
  one record; no tombstone names a record of the index.
\<close>

definition log_inv :: "spool \<Rightarrow> bool" where
  "log_inv s =
     ((\<forall>i f. map_of (disk s) i = Some f \<longrightarrow> whole f)
      \<and> (\<forall>body. (kindRecord, body) \<in> logged s \<longrightarrow> (\<exists>r. fits r \<and> body = encode r))
      \<and> (\<forall>r r'. fits r \<longrightarrow> fits r' \<longrightarrow> (kindRecord, encode r) \<in> logged s \<longrightarrow> (kindRecord, encode r') \<in> logged s
           \<longrightarrow> r_ID r = r_ID r' \<longrightarrow> r = r')
      \<and> (\<forall>u. (kindTombstone, u) \<in> logged s \<longrightarrow> map_of (index s) u = None))"

lemma log_invI:
  assumes "\<And>i f. map_of (disk s) i = Some f \<Longrightarrow> whole f"
    and "\<And>body. (kindRecord, body) \<in> logged s \<Longrightarrow> \<exists>r. fits r \<and> body = encode r"
    and "\<And>r r'. fits r \<Longrightarrow> fits r' \<Longrightarrow> (kindRecord, encode r) \<in> logged s \<Longrightarrow> (kindRecord, encode r') \<in> logged s
      \<Longrightarrow> r_ID r = r_ID r' \<Longrightarrow> r = r'"
    and "\<And>u. (kindTombstone, u) \<in> logged s \<Longrightarrow> map_of (index s) u = None"
  shows "log_inv s"
  unfolding log_inv_def by (intro conjI allI impI; rule assms)

lemma log_invD:
  assumes "log_inv s"
  shows "map_of (disk s) i = Some f \<Longrightarrow> whole f"
    and "(kindRecord, body) \<in> logged s \<Longrightarrow> \<exists>r. fits r \<and> body = encode r"
    and "fits r \<Longrightarrow> fits r' \<Longrightarrow> (kindRecord, encode r) \<in> logged s \<Longrightarrow> (kindRecord, encode r') \<in> logged s
      \<Longrightarrow> r_ID r = r_ID r' \<Longrightarrow> r = r'"
    and "(kindTombstone, u) \<in> logged s \<Longrightarrow> map_of (index s) u = None"
  using assms unfolding log_inv_def by blast+

lemma log_inv_less:
  assumes "logged s' \<subseteq> logged s" "\<And>i f. map_of (disk s') i = Some f \<Longrightarrow> whole f"
    and "\<And>u. map_of (index s) u = None \<Longrightarrow> map_of (index s') u = None" "log_inv s"
  shows "log_inv s'"
  using log_invD(2-4) [OF assms(4)] assms(1,3) by (intro log_invI [OF assms(2)]) blast+

text \<open>Files that go away or are new and empty.\<close>

lemma log_inv_files:
  assumes "\<And>i f. map_of (disk s') i = Some f \<Longrightarrow> map_of (disk s) i = Some f \<or> f = []"
    and "\<And>u. map_of (index s) u = None \<Longrightarrow> map_of (index s') u = None"
  shows "logged s' \<subseteq> logged s" and "log_inv s \<Longrightarrow> log_inv s'"
proof -
  show b: "logged s' \<subseteq> logged s"
  proof
    fix x
    assume "x \<in> logged s'"
    then obtain i f off n where f: "map_of (disk s') i = Some f" "(fst x, snd x, off, n) \<in> set (fst (walk 0 f))"
      by (auto simp: logged_def)
    then have "f \<noteq> []" by auto
    then show "x \<in> logged s" using f assms(1) [OF f(1)] by (cases x) (auto simp: logged_def)
  qed
  show "log_inv s'" if "log_inv s"
  proof (rule log_inv_less [OF b _ assms(2) that])
    show "whole f" if "map_of (disk s') i = Some f" for i f
      using assms(1) [OF that] \<open>log_inv s\<close> by (auto simp: log_inv_def)
  qed
qed

lemma log_inv_cong:
  assumes "index s' = index s" "disk s' = disk s"
  shows "log_inv s' = log_inv s" and "logged s' = logged s"
  by (simp_all add: log_inv_def logged_def assms)

text \<open>Every call that still can fail writes nothing when it does.\<close>

definition clean_io :: "spool \<Rightarrow> bool" where
  "clean_io s = (\<forall>x \<in> set (io s). x = Done \<or> x = Fail 0)"

definition spool_inv :: "spool \<Rightarrow> bool" where
  "spool_inv s =
     (index_inv s \<and> host_inv s \<and> live_inv s \<and> files_inv s \<and> stored_inv s \<and> count_inv s \<and> active_inv s
      \<and> log_inv s \<and> clean_io s)"

lemmas inv_defs = spool_inv_def index_inv_def host_inv_def live_inv_def files_inv_def stored_inv_def
  count_inv_def active_inv_def log_inv_def clean_io_def in_segment_def

text \<open>What an entry keeps while its record moves between segments.\<close>

definition core :: "entry \<Rightarrow> entry" where
  "core e = e\<lparr>e_segment := 0, e_offset := 0\<rparr>"

lemma core_fields:
  assumes "core e = core e'"
  shows "e_id e = e_id e'" "e_hostID e = e_hostID e'" "e_sessionID e = e_sessionID e'" "e_stream e = e_stream e'"
    "e_priority e = e_priority e'" "e_sequence e = e_sequence e'" "e_createdAt e = e_createdAt e'"
    "e_expiresAt e = e_expiresAt e'" "e_size e = e_size e'" "e_sentAt e = e_sentAt e'"
    "e_firstSentAt e = e_firstSentAt e'"
  using assms by (cases e; cases e'; simp add: core_def)+

definition keeps :: "string set \<Rightarrow> spool \<Rightarrow> spool \<Rightarrow> bool" where
  "keeps D s s' =
     (spool_inv s' \<and> sp_options s' = sp_options s \<and> closed s' = closed s \<and> set (io s') \<subseteq> set (io s)
      \<and> map core (heap s') = map core (heap s) \<and> logged s' \<subseteq> logged s \<union> frames_about D
      \<and> (\<forall>u p. map_of (index s') u = Some p \<longrightarrow> map_of (index s) u = Some p)
      \<and> (\<forall>u. map_of (index s) u \<noteq> None \<and> map_of (index s') u = None \<longrightarrow> u \<in> D)
      \<and> (\<forall>u p r. map_of (index s') u = Some p \<longrightarrow> holds s p r \<longrightarrow> holds s' p r))"

lemma keeps_refl: "spool_inv s \<Longrightarrow> keeps D s s"
  by (auto simp: keeps_def)

lemma keeps_trans:
  assumes "keeps D s s'" "keeps D' s' s''"
  shows "keeps (D \<union> D') s s''"
proof -
  have "u \<in> D \<union> D'" if "map_of (index s) u \<noteq> None" "map_of (index s'') u = None" for u
    using assms that unfolding keeps_def by (cases "map_of (index s') u = None") blast+
  moreover have "holds s'' p r" if "map_of (index s'') u = Some p" "holds s p r" for u p r
    using assms that unfolding keeps_def by blast
  moreover have "map_of (index s) u = Some p" if "map_of (index s'') u = Some p" for u p
    using assms that unfolding keeps_def by blast
  moreover have "set (io s'') \<subseteq> set (io s)" "logged s'' \<subseteq> logged s \<union> frames_about (D \<union> D')"
    using assms unfolding keeps_def by auto
  ultimately show ?thesis using assms unfolding keeps_def by simp
qed

lemma keeps_mono: "keeps D s s' \<Longrightarrow> D \<subseteq> D' \<Longrightarrow> keeps D' s s'"
  unfolding keeps_def using frames_about_simps(4) [of D D'] by blast

lemma keeps_inv: "keeps D s s' \<Longrightarrow> spool_inv s'"
  by (simp add: keeps_def)

section \<open>Calls and files\<close>

lemma syscall_shape: "syscall s = (x, s') \<Longrightarrow> \<exists>l. s' = s\<lparr>io := l\<rparr> \<and> set l \<subseteq> set (io s)"
  by (auto simp: syscall_def split: list.splits)

lemma syscall_clean: "syscall s = (Fail n, s') \<Longrightarrow> clean_io s \<Longrightarrow> n = 0"
  by (auto simp: syscall_def clean_io_def split: list.splits)

lemma map_of_update [simp]: "map_of (AList.update k v al) = (map_of al)(k \<mapsto> v)"
  by (rule update_conv')

lemma map_of_delete [simp]: "map_of (AList.delete k al) = (map_of al)(k := None)"
  by (rule delete_conv')

lemma holds_cong:
  "heap s' = heap s \<Longrightarrow> disk s' = disk s \<Longrightarrow> holds s' p r = holds s p r"
  by (simp add: holds_def)

text \<open>The maps and the accounts look at the maps and the heap only.\<close>

lemma maps_inv_cong:
  assumes "index s' = index s" "byHost s' = byHost s" "heap s' = heap s" "sp_live s' = sp_live s"
  shows "index_inv s' = index_inv s" "host_inv s' = host_inv s" "live_inv s' = live_inv s"
    "in_segment s' i = in_segment s i"
proof -
  have "host_list s' x = host_list s x" for x using assms(2) by (simp add: host_list_def)
  then show "index_inv s' = index_inv s" "host_inv s' = host_inv s" "live_inv s' = live_inv s"
    "in_segment s' i = in_segment s i"
    using assms by (simp_all add: index_inv_def host_inv_def live_inv_def in_segment_def)
qed

text \<open>Fields the invariant does not look at.\<close>

lemma keeps_handles:
  assumes "spool_inv s" "index s' = index s" "byHost s' = byHost s" "segments s' = segments s"
    "active_inv s'" "nextID s \<le> nextID s'" "sp_live s' = sp_live s" "heap s' = heap s" "disk s' = disk s"
    "set (io s') \<subseteq> set (io s)" "sp_options s' = sp_options s" "closed s' = closed s"
  shows "keeps {} s s'"
proof -
  have h: "holds s' p r = holds s p r" for p r using assms(8,9) by (rule holds_cong)
  note maps = maps_inv_cong [OF assms(2,3,8,7)]
  have "index_inv s'" "host_inv s'" "live_inv s'" "stored_inv s'" "count_inv s'"
    using assms(1) by (simp_all add: spool_inv_def stored_inv_def count_inv_def maps h assms(2-9))
  moreover have "files_inv s'"
    using assms(1) order_trans [OF _ assms(6)] by (auto simp: spool_inv_def files_inv_def assms(4,9))
  moreover have "clean_io s'" using assms(1,10) by (auto simp: spool_inv_def clean_io_def)
  ultimately have "spool_inv s'" using assms(1,5) log_inv_cong(1) [OF assms(2,9)] by (simp add: spool_inv_def)
  then show ?thesis using assms h log_inv_cong(2) [OF assms(2,9)] by (auto simp: keeps_def)
qed

lemma keeps_quiet:
  assumes "spool_inv s" "index s' = index s" "byHost s' = byHost s" "segments s' = segments s"
    "active s' = active s" "nextID s \<le> nextID s'" "sp_live s' = sp_live s" "heap s' = heap s" "disk s' = disk s"
    "set (io s') \<subseteq> set (io s)" "sp_options s' = sp_options s" "closed s' = closed s"
  shows "keeps {} s s'"
proof -
  have "active_inv s'"
    using assms(1) by (simp add: spool_inv_def active_inv_def seg_file_def assms(4,5,9) cong: option.case_cong)
  then show ?thesis using assms by (intro keeps_handles)
qed

lemma keeps_io: "spool_inv s \<Longrightarrow> syscall s = (x, s') \<Longrightarrow> keeps {} s s'"
  using syscall_shape [of s x s'] by (auto intro!: keeps_quiet)

text \<open>A file that grows keeps the records in it.\<close>

lemma holds_grow:
  assumes "holds s p r" "map_of (disk s) i = Some f" "heap s' = heap s"
    "disk s' = AList.update i (f @ x) (disk s)"
  shows "holds s' p r"
  using assms stored_append by (auto simp: holds_def split: option.splits)

lemma files_inv_update:
  assumes "files_inv s" "map_of (disk s) i \<noteq> None"
  shows "files_inv (s\<lparr>disk := AList.update i f (disk s)\<rparr>)"
  using assms distinct_update [of "disk s" i f] by (auto simp: files_inv_def split: if_splits)

lemma keeps_grow:
  assumes inv: "spool_inv s" and f: "map_of (disk s) i = Some f"
    and s': "s' = s\<lparr>io := l, disk := AList.update i (f @ x) (disk s), active := A\<rparr>"
    and l: "set l \<subseteq> set (io s)" and a: "active_inv s'" and log: "log_inv s'" "logged s' \<subseteq> logged s \<union> frames_about D"
  shows "keeps D s s'"
proof -
  have h: "holds s p r \<Longrightarrow> holds s' p r" for p r
    by (rule holds_grow [OF _ f]) (simp_all add: s')
  have "files_inv (s\<lparr>disk := AList.update i (f @ x) (disk s)\<rparr>)"
    using inv f by (intro files_inv_update) (simp_all add: spool_inv_def)
  then have "files_inv s'" by (simp add: files_inv_def s')
  moreover have "stored_inv s'"
    using inv h by (fastforce simp: spool_inv_def stored_inv_def s')
  moreover have maps: "index_inv s' = index_inv s" "host_inv s' = host_inv s" "live_inv s' = live_inv s"
    "in_segment s' j = in_segment s j" for j
    by (rule maps_inv_cong; simp add: s')+
  then have "index_inv s'" "host_inv s'" "live_inv s'" "count_inv s'" "clean_io s'"
    using inv l by (auto simp: spool_inv_def count_inv_def clean_io_def maps s')
  ultimately have "spool_inv s'" using a log by (simp add: spool_inv_def)
  moreover have "index s' = index s" "heap s' = heap s" "sp_options s' = sp_options s" "closed s' = closed s" "io s' = l"
    by (simp_all add: s')
  ultimately show ?thesis using h l log by (auto simp: keeps_def)
qed

lemma append_frame_Inr:
  assumes "append_frame framed a s = (Inr off, s')"
  shows "\<exists>l. off = sg_size a \<and> set l \<subseteq> set (io s) \<and> sg_open a
    \<and> s' = s\<lparr>io := l, disk := AList.update (sg_id a) (seg_file s (sg_id a) @ framed) (disk s),
            active := Some (a\<lparr>sg_size := sg_size a + length framed\<rparr>)\<rparr>"
  using assms syscall_shape [of s]
  by (auto simp: append_frame_def seg_file_def split: if_splits prod.splits outcome.splits)

lemma append_frame_Inl:
  assumes "append_frame framed a s = (Inl e, s')" "clean_io s"
  shows "\<exists>l. set l \<subseteq> set (io s)
    \<and> (s' = s\<lparr>io := l\<rparr> \<or> s' = s\<lparr>io := l, disk := AList.update (sg_id a) (seg_file s (sg_id a)) (disk s)\<rparr>)"
proof (cases "sg_open a")
  case True
  with assms(1) obtain n s1 where s1: "syscall s = (Fail n, s1)"
    and s': "s' = s1\<lparr>disk := AList.update (sg_id a) (seg_file s1 (sg_id a) @ take n framed) (disk s1)\<rparr>"
    by (auto simp: append_frame_def split: prod.splits outcome.splits)
  have "n = 0" using syscall_clean [OF s1 assms(2)] .
  moreover obtain l where "s1 = s\<lparr>io := l\<rparr>" "set l \<subseteq> set (io s)" using syscall_shape [OF s1] by blast
  ultimately show ?thesis using s' by (auto simp: seg_file_def)
next
  case False
  with assms(1) have "s' = s\<lparr>io := io s\<rparr>" by (auto simp: append_frame_def)
  then show ?thesis by blast
qed

text \<open>One frame more in a file.\<close>

lemma logged_append:
  assumes "map_of (disk s) i = Some f" "whole f" "length body \<le> maxRecordBytes"
    "disk s' = AList.update i (f @ frame kind body) (disk s)"
  shows "logged s' = insert (kind, body) (logged s)"
proof -
  note visits = whole_append(2) [OF assms(2,3), of kind]
  have "x \<in> insert (kind, body) (logged s)" if x: "x \<in> logged s'" for x
  proof -
    obtain j g off n where g: "map_of (disk s') j = Some g" "(fst x, snd x, off, n) \<in> set (fst (walk 0 g))"
      using x by (auto simp: logged_def)
    show ?thesis
    proof (cases "j = i")
      case True
      then have "(fst x, snd x, off, n) \<in> set (fst (walk 0 f)) \<or> x = (kind, body)"
        using g visits by (cases x) (auto simp: assms(4))
      then show ?thesis using assms(1) by (cases x) (auto simp: logged_def)
    next
      case False
      then show ?thesis using g by (cases x) (auto simp: logged_def assms(4))
    qed
  qed
  moreover have "x \<in> logged s'" if x: "x \<in> logged s" for x
  proof -
    obtain j g off n where g: "map_of (disk s) j = Some g" "(fst x, snd x, off, n) \<in> set (fst (walk 0 g))"
      using x by (auto simp: logged_def)
    show ?thesis
    proof (cases "j = i")
      case True
      then have "(fst x, snd x, off, n) \<in> set (fst (walk 0 (f @ frame kind body)))" using g visits assms(1) by auto
      then show ?thesis using assms(4) by (cases x) (auto simp: logged_def)
    next
      case False
      then have "map_of (disk s') j = Some g" using g(1) by (simp add: assms(4))
      then show ?thesis using g(2) by (cases x) (auto simp: logged_def)
    qed
  qed
  moreover have "(kind, body) \<in> logged s'"
  proof -
    have "map_of (disk s') i = Some (f @ frame kind body)" by (simp add: assms(4))
    moreover have "(kind, body, length f, headerSize + length body) \<in> set (fst (walk 0 (f @ frame kind body)))"
      using visits by simp
    ultimately show ?thesis unfolding logged_def by blast
  qed
  ultimately show ?thesis by blast
qed

text \<open>What may be appended: a frame that is there already, a tombstone, a record never written.\<close>

definition may_append :: "string set \<Rightarrow> spool \<Rightarrow> char \<Rightarrow> string \<Rightarrow> bool" where
  "may_append D s kind body =
     ((kind, body) \<in> logged s
      \<or> kind = kindTombstone \<and> body \<in> D \<and> map_of (index s) body = None
      \<or> kind = kindRecord \<and> (\<exists>r. fits r \<and> body = encode r \<and> r_ID r \<in> D \<and> r_ID r \<notin> written s))"

lemma may_append_about: "may_append D s kind body \<Longrightarrow> (kind, body) \<in> logged s \<union> frames_about D"
  by (auto simp: may_append_def)

lemma written_record: "fits r \<Longrightarrow> (kindRecord, encode r) \<in> logged s \<Longrightarrow> r_ID r \<in> written s"
  unfolding written_def by (auto intro!: exI [of _ "(kindRecord, encode r)"])

lemma log_inv_append:
  assumes inv: "log_inv s" and f: "map_of (disk s) i = Some f" "length body \<le> maxRecordBytes"
    and s': "disk s' = AList.update i (f @ frame kind body) (disk s)" "index s' = index s"
    and new: "may_append D s kind body"
  shows "log_inv s'"
proof -
  have w: "whole f" using inv f(1) unfolding log_inv_def by blast
  note log = logged_append [OF f(1) w f(2) s'(1)]
  show ?thesis
  proof (rule log_invI)
    show "whole g" if "map_of (disk s') j = Some g" for j g
      using that log_invD(1) [OF inv] s'(1) whole_append(1) [OF w f(2), of kind] by (auto split: if_splits)
    show "\<exists>r. fits r \<and> b = encode r" if "(kindRecord, b) \<in> logged s'" for b
      using that log_invD(2) [OF inv, of b] new unfolding log may_append_def by auto
    show "map_of (index s') u = None" if "(kindTombstone, u) \<in> logged s'" for u
      using that log_invD(4) [OF inv, of u] new s'(2) unfolding log may_append_def by auto
    show "r = r'" if r: "fits r" "fits r'" "(kindRecord, encode r) \<in> logged s'" "(kindRecord, encode r') \<in> logged s'"
      "r_ID r = r_ID r'" for r r'
    proof (cases "(kindRecord, encode r) \<in> logged s \<and> (kindRecord, encode r') \<in> logged s")
      case True
      then show ?thesis using log_invD(3) [OF inv r(1,2) _ _ r(5)] by blast
    next
      case False
      then have k: "kind = kindRecord" "body = encode r \<or> body = encode r'" "(kind, body) \<notin> logged s" using r(3,4) log by auto
      with new obtain r0 where r0: "fits r0" "body = encode r0" "r_ID r0 \<notin> written s"
        unfolding may_append_def by auto
      then have "r0 = r \<or> r0 = r'" using k(2) encode_inject r(1,2) by metis
      then have "(kindRecord, encode r) \<notin> logged s" "(kindRecord, encode r') \<notin> logged s"
        using r0(3) r(1,2,5) written_record by metis+
      then have "encode r = encode r'" using r(3,4) log by auto
      then show ?thesis using encode_inject r(1,2) by blast
    qed
  qed
qed

lemma seg_file_updated: "disk s = AList.update i g d \<Longrightarrow> seg_file s i = g"
  by (simp add: seg_file_def)

lemma active_inv_grown:
  assumes "spool_inv s" "active s = Some a" "disk s' = AList.update (sg_id a) (seg_file s (sg_id a) @ x) (disk s)"
    "active s' = Some (a\<lparr>sg_size := sg_size a + length x\<rparr>)" "segments s' = segments s"
  shows "active_inv s'"
proof -
  have "map_of (segments s) (sg_id a) \<noteq> None" "sg_size a = length (seg_file s (sg_id a))"
    using assms(1,2) by (simp_all add: spool_inv_def active_inv_def)
  then show ?thesis using seg_file_updated [OF assms(3)] by (simp add: active_inv_def assms(3-5))
qed

lemma active_file:
  assumes "spool_inv s" "active s = Some a"
  shows "map_of (disk s) (sg_id a) = Some (seg_file s (sg_id a))" "sg_size a = length (seg_file s (sg_id a))"
    "map_of (segments s) (sg_id a) \<noteq> None" "whole (seg_file s (sg_id a))"
  using assms by (auto simp: spool_inv_def active_inv_def seg_file_def log_inv_def)

text \<open>A write that fails leaves the file as it was.\<close>

lemma keeps_append_failed:
  assumes inv: "spool_inv s" and a: "active s = Some a" and app: "append_frame framed a s = (Inl e, s')"
  shows "keeps {} s s'"
proof -
  note f = active_file [OF inv a]
  have "clean_io s" using inv by (simp add: spool_inv_def)
  then obtain l where l: "set l \<subseteq> set (io s)"
    and s': "s' = s\<lparr>io := l\<rparr> \<or> s' = s\<lparr>io := l, disk := AList.update (sg_id a) (seg_file s (sg_id a) @ []) (disk s), active := active s\<rparr>"
    using append_frame_Inl [OF app] by auto
  from s' show ?thesis
  proof
    assume "s' = s\<lparr>io := l\<rparr>"
    then show ?thesis using inv l by (intro keeps_quiet) simp_all
  next
    assume s': "s' = s\<lparr>io := l, disk := AList.update (sg_id a) (seg_file s (sg_id a) @ []) (disk s), active := active s\<rparr>"
    have "map_of (disk s') = map_of (disk s)" using f(1) by (auto simp: s')
    then have "log_inv s'" "logged s' = logged s" using inv by (simp_all add: spool_inv_def log_inv_def logged_def s')
    then show ?thesis
      using keeps_grow [OF inv f(1) s' l] active_inv_grown [OF inv a, of s' "[]"] a by (simp add: s')
  qed
qed

lemma keeps_append_frame:
  assumes inv: "spool_inv s" and a: "active s = Some a" and app: "append_frame (frame kind body) a s = (res, s')"
    and body: "length body \<le> maxRecordBytes" "may_append D s kind body"
  shows "keeps D s s'"
proof (cases res)
  case (Inl e)
  then show ?thesis using keeps_mono [OF keeps_append_failed [OF inv a, of "frame kind body" e s']] app by simp
next
  case (Inr off)
  note f = active_file [OF inv a]
  have log: "log_inv s" using inv by (simp add: spool_inv_def)
  from Inr obtain l where l: "set l \<subseteq> set (io s)"
    and s': "s' = s\<lparr>io := l, disk := AList.update (sg_id a) (seg_file s (sg_id a) @ frame kind body) (disk s),
          active := Some (a\<lparr>sg_size := sg_size a + length (frame kind body)\<rparr>)\<rparr>"
    using append_frame_Inr [of "frame kind body" a s off s'] app by (auto simp del: length_frame)
  have d: "disk s' = AList.update (sg_id a) (seg_file s (sg_id a) @ frame kind body) (disk s)" by (simp add: s')
  show ?thesis
  proof (rule keeps_grow [OF inv f(1) s' l])
    show "active_inv s'" by (rule active_inv_grown [OF inv a d]) (simp_all add: s')
    show "log_inv s'" by (rule log_inv_append [OF log f(1) body(1) d _ body(2)]) (simp add: s')
    show "logged s' \<subseteq> logged s \<union> frames_about D"
      using logged_append [OF f(1,4) body(1) d] may_append_about [OF body(2)] by auto
  qed
qed

lemma holds_logged: "holds s p r \<Longrightarrow> (kindRecord, encode r) \<in> logged s \<and> fits r"
  by (auto simp: holds_def stored_def logged_def)

lemma keeps_append_record:
  assumes "spool_inv s" "active s = Some a" "append_frame (frame kindRecord (encode r)) a s = (res, s')" "holds s p r"
  shows "keeps {} s s'"
  using holds_logged [OF assms(4)] fits_size [of r]
  by (intro keeps_append_frame [OF assms(1-3)]) (simp_all add: may_append_def)

lemma in_segment_0:
  assumes "spool_inv s" "map_of (segments s) i = None"
  shows "in_segment s i = 0"
proof -
  have "e_segment (ent s p) \<noteq> i" if "(u, p) \<in> set (index s)" for u p
  proof -
    have "map_of (index s) u = Some p"
      using assms(1) that by (simp add: spool_inv_def index_inv_def map_of_eq_Some_iff)
    then have "map_of (segments s) (e_segment (ent s p)) \<noteq> None"
      using assms(1) unfolding spool_inv_def stored_inv_def by blast
    then show ?thesis using assms(2) by auto
  qed
  then show ?thesis by (auto simp: in_segment_def filter_empty_conv)
qed

lemma keeps_fresh_file:
  assumes inv: "spool_inv s" and i: "nextID s < i" and l: "set (io s') \<subseteq> set (io s)"
    and s': "nextID s' = i" "disk s' = AList.update i [] (disk s)" "index s' = index s" "byHost s' = byHost s"
      "heap s' = heap s" "sp_live s' = sp_live s" "sp_options s' = sp_options s" "closed s' = closed s"
    and S: "segments s' = segments s \<or> segments s' = AList.update i \<lparr>st_size = 0, st_live = 0\<rparr> (segments s)"
    and a: "active_inv s'"
  shows "keeps {} s s'"
proof -
  have none: "map_of (disk s) i = None" "map_of (segments s) i = None"
    using inv i unfolding spool_inv_def files_inv_def by (metis not_less)+
  have h: "holds s' p r" if "holds s p r" for p r
    using that none by (auto simp: holds_def s')
  have seg: "map_of (segments s') j \<noteq> None" if "map_of (segments s) j \<noteq> None" for j
    using S that by auto
  note maps = maps_inv_cong [OF s'(3,4,5,6)]
  have "map_of (disk s) j = Some f \<or> f = []" if "map_of (disk s') j = Some f" for j f
    using that by (auto simp: s' split: if_splits)
  then have log: "log_inv s'" "logged s' \<subseteq> logged s"
    using inv log_inv_files [of s' s] by (simp_all add: spool_inv_def s')
  have "in_segment s i = 0" using in_segment_0 [OF inv none(2)] .
  then have "count_inv s'" using inv S by (auto simp: spool_inv_def count_inv_def maps split: if_splits)
  moreover have "files_inv s'"
    using inv i S distinct_update [of "disk s" i "[]"] distinct_update [of "segments s" i]
    by (auto simp: spool_inv_def files_inv_def s' split: if_splits intro: order_trans [OF _ less_imp_le])
  moreover have "stored_inv s'"
    using inv h seg by (fastforce simp: spool_inv_def stored_inv_def s')
  moreover have "index_inv s'" "host_inv s'" "live_inv s'" "clean_io s'"
    using inv l maps by (auto simp: spool_inv_def clean_io_def)
  ultimately have "spool_inv s'" using a log by (simp add: spool_inv_def)
  with h l log show ?thesis by (auto simp: keeps_def s')
qed

lemma keeps_close_segment:
  assumes "spool_inv s" "active s = Some a" "close_segment a s = (err, s')"
  shows "keeps {} s s'" and "map_option sg_id (active s') = Some (sg_id a)"
proof -
  have "\<exists>l. set l \<subseteq> set (io s) \<and> (s' = s \<or> s' = s\<lparr>io := l, active := Some (a\<lparr>sg_open := False\<rparr>)\<rparr>)"
  proof (cases "sg_open a")
    case True
    obtain x s1 where s1: "syscall s = (x, s1)" by (cases "syscall s")
    obtain y s2 where s2: "syscall s1 = (y, s2)" by (cases "syscall s1")
    have "s' = s2\<lparr>active := Some (a\<lparr>sg_open := False\<rparr>)\<rparr>"
      using assms(3) True s1 s2 by (simp add: close_segment_def)
    moreover obtain l1 where "s1 = s\<lparr>io := l1\<rparr>" "set l1 \<subseteq> set (io s)" using syscall_shape [OF s1] by blast
    moreover obtain l2 where "s2 = s1\<lparr>io := l2\<rparr>" "set l2 \<subseteq> set (io s1)" using syscall_shape [OF s2] by blast
    ultimately have "set l2 \<subseteq> set (io s)" "s' = s\<lparr>io := l2, active := Some (a\<lparr>sg_open := False\<rparr>)\<rparr>" by auto
    then show ?thesis by blast
  next
    case False
    then show ?thesis using assms(3) by (auto simp: close_segment_def)
  qed
  then obtain l where l: "set l \<subseteq> set (io s)"
    and s': "s' = s \<or> s' = s\<lparr>io := l, active := Some (a\<lparr>sg_open := False\<rparr>)\<rparr>" by blast
  have "active_inv (s\<lparr>io := l, active := Some (a\<lparr>sg_open := False\<rparr>)\<rparr>)"
    using assms(1,2) by (simp add: spool_inv_def active_inv_def seg_file_def)
  then have "keeps {} s (s\<lparr>io := l, active := Some (a\<lparr>sg_open := False\<rparr>)\<rparr>)"
    using assms(1) l by (intro keeps_handles) simp_all
  then show "keeps {} s s'" using s' keeps_refl [OF assms(1)] by auto
  show "map_option sg_id (active s') = Some (sg_id a)" using s' assms(2) by auto
qed

lemma keeps_createSegment:
  assumes inv: "spool_inv s" and i: "nextID s < i" and c: "createSegment i (s\<lparr>nextID := i\<rparr>) = (res, s1)"
    and s': "s' = (case res of Inl e \<Rightarrow> s1 | Inr g \<Rightarrow> s1\<lparr>active := Some g,
        segments := AList.update (sg_id g) \<lparr>st_size = 0, st_live = 0\<rparr> (segments s1)\<rparr>)"
  shows "keeps {} s s'"
proof -
  let ?s0 = "s\<lparr>nextID := i\<rparr>"
  have none: "map_of (disk s) i = None"
    using inv i unfolding spool_inv_def files_inv_def by (metis not_less)
  obtain x t where t: "syscall ?s0 = (x, t)" by (cases "syscall ?s0")
  then obtain l where l: "t = ?s0\<lparr>io := l\<rparr>" "set l \<subseteq> set (io s)" using syscall_shape [OF t] by auto
  obtain y u where u: "syscall (t\<lparr>disk := AList.update i [] (disk t)\<rparr>) = (y, u)"
    by (cases "syscall (t\<lparr>disk := AList.update i [] (disk t)\<rparr>)")
  then obtain l' where l': "u = t\<lparr>disk := AList.update i [] (disk t), io := l'\<rparr>" "set l' \<subseteq> set (io s)"
    using syscall_shape [OF u] l by auto
  consider (no) "s' = t" | (orphan) "s' = u"
    | (made) "s' = u\<lparr>active := Some \<lparr>sg_id = i, sg_size = 0, sg_open = True\<rparr>,
        segments := AList.update i \<lparr>st_size = 0, st_live = 0\<rparr> (segments u)\<rparr>"
    using c none t u l(1) s' unfolding createSegment_def by (cases x; cases y) auto
  then show ?thesis
  proof cases
    case no
    then show ?thesis using inv i l by (intro keeps_quiet) simp_all
  next
    case orphan
    have "active_inv u" using inv none l l' by (auto simp: spool_inv_def active_inv_def seg_file_def split: option.splits)
    then show ?thesis
      using orphan l l' by (intro keeps_fresh_file [OF inv i]) simp_all
  next
    case made
    have "active_inv s'" using l l' by (simp add: made active_inv_def seg_file_def)
    then show ?thesis
      using made l l' by (intro keeps_fresh_file [OF inv i]) simp_all
  qed
qed

lemma keeps_roll:
  assumes inv: "spool_inv s" and r: "rollLocked s = (err, s')"
  shows "keeps {} s s'"
proof -
  obtain err1 s1 where c: "(case active s of None \<Rightarrow> (None, s) | Some a \<Rightarrow> close_segment a s) = (err1, s1)"
    by (cases "(case active s of None \<Rightarrow> (None, s) | Some a \<Rightarrow> close_segment a s)")
  have k1: "keeps {} s s1"
    using c keeps_refl [OF inv] keeps_close_segment(1) [OF inv] by (auto split: option.splits)
  show ?thesis
  proof (cases err1)
    case None
    obtain res s2 where cs: "createSegment (nextID s1 + 1) (s1\<lparr>nextID := nextID s1 + 1\<rparr>) = (res, s2)"
      by (cases "createSegment (nextID s1 + 1) (s1\<lparr>nextID := nextID s1 + 1\<rparr>)")
    have "s' = (case res of Inl e \<Rightarrow> s2 | Inr g \<Rightarrow> s2\<lparr>active := Some g,
        segments := AList.update (sg_id g) \<lparr>st_size = 0, st_live = 0\<rparr> (segments s2)\<rparr>)"
      using r c cs None by (auto simp: rollLocked_def Let_def split: sum.splits)
    then have "keeps {} s1 s'"
      using keeps_createSegment [OF keeps_inv [OF k1] _ cs] by simp
    then show ?thesis using keeps_trans [OF k1] by simp
  next
    case (Some e)
    then have "s' = s1" using r c by (simp add: rollLocked_def)
    then show ?thesis using k1 by simp
  qed
qed

lemma keeps_roll_if_full:
  assumes "spool_inv s" and "roll_if_full s = (err, s')"
  shows "keeps {} s s'"
  using assms keeps_roll [of s err s'] keeps_refl [of s "{}"]
  by (auto simp: roll_if_full_def split: option.splits if_splits)

end
