(* ===== verification/Spool_Keeps.thy ===== *)
theory Spool_Keeps
  imports Spool_Safety
begin

text \<open>
  Every operation of the spool keeps the invariant and forgets no record but those it is meant
  to forget: moving a record between segments, dropping a dead segment, compaction, deletion and
  the loops over deletions.
\<close>

section \<open>Accounts of a segment\<close>

lemma keeps_nothing_index: "keeps {} s s' \<Longrightarrow> map_of (index s') = map_of (index s)"
proof (rule ext)
  fix u
  assume k: "keeps {} s s'"
  have "map_of (index s) u = None" if "map_of (index s') u = None"
    using k that unfolding keeps_def by blast
  moreover have "map_of (index s) u = Some p" if "map_of (index s') u = Some p" for p
    using k that unfolding keeps_def by blast
  ultimately show "map_of (index s') u = map_of (index s) u"
    by (cases "map_of (index s') u") simp_all
qed

lemma set_state_fields [simp]:
  "index (set_state i f s) = index s" "byHost (set_state i f s) = byHost s" "active (set_state i f s) = active s"
  "nextID (set_state i f s) = nextID s" "sp_live (set_state i f s) = sp_live s" "heap (set_state i f s) = heap s"
  "disk (set_state i f s) = disk s" "io (set_state i f s) = io s" "sp_options (set_state i f s) = sp_options s"
  "closed (set_state i f s) = closed s"
  by (simp_all add: set_state_def split: option.splits)

lemma map_of_set_state:
  "map_of (segments (set_state i f s)) j
     = (if j = i then map_option f (map_of (segments s) i) else map_of (segments s) j)"
  by (simp add: set_state_def split: option.splits)

lemma distinct_set_state:
  "distinct (map fst (segments s)) \<Longrightarrow> distinct (map fst (segments (set_state i f s)))"
  using distinct_update by (auto simp: set_state_def split: option.splits)

lemma keeps_states:
  assumes inv: "spool_inv s"
    and s': "index s' = index s" "byHost s' = byHost s" "heap s' = heap s" "sp_live s' = sp_live s"
      "active s' = active s" "nextID s' = nextID s" "disk s' = disk s" "io s' = io s"
      "sp_options s' = sp_options s" "closed s' = closed s"
    and d: "distinct (map fst (segments s'))"
    and dom: "\<And>j. map_of (segments s') j = None \<longleftrightarrow> map_of (segments s) j = None"
    and c: "count_inv s'"
  shows "keeps {} s s'"
proof -
  have h: "holds s' p r = holds s p r" for p r by (rule holds_cong [OF s'(3,7)])
  note maps = maps_inv_cong [OF s'(1-4)]
  have "files_inv s'" using inv d dom by (simp add: spool_inv_def files_inv_def s')
  moreover have "stored_inv s'" using inv dom by (simp add: spool_inv_def stored_inv_def s' h)
  moreover have "active_inv s'"
    using inv dom by (simp add: spool_inv_def active_inv_def seg_file_def s' cong: option.case_cong)
  moreover have "clean_io s'" using inv by (simp add: spool_inv_def clean_io_def s')
  moreover note log = log_inv_cong [OF s'(1,7)]
  ultimately have "spool_inv s'" using inv c by (simp add: spool_inv_def maps)
  then show ?thesis by (auto simp: keeps_def s' h log)
qed

lemma keeps_set_state:
  assumes inv: "spool_inv s"
    and f: "\<And>st. map_of (segments s) i = Some st \<Longrightarrow> int (in_segment s i) \<le> st_live (f st)"
  shows "keeps {} s (set_state i f s)"
proof (rule keeps_states [OF inv])
  show "distinct (map fst (segments (set_state i f s)))"
    using inv by (simp add: distinct_set_state spool_inv_def files_inv_def)
  have "in_segment (set_state i f s) j = in_segment s j" for j by (simp add: in_segment_def)
  then show "count_inv (set_state i f s)"
    using inv f by (auto simp: count_inv_def spool_inv_def map_of_set_state split: if_splits)
qed (auto simp: map_of_set_state)

section \<open>Moving a record\<close>

lemma length_filter_one_more:
  assumes "distinct xs" "\<And>x. x \<in> set xs \<Longrightarrow> P x \<Longrightarrow> Q x \<or> x = z"
  shows "length (filter P xs) \<le> length (filter Q xs) + 1"
  using assms
proof (induction xs)
  case (Cons x xs)
  show ?case
  proof (cases "P x \<and> \<not> Q x")
    case True
    then have "x = z" using Cons.prems(2) [of x] by auto
    then have "\<And>y. y \<in> set xs \<Longrightarrow> P y \<Longrightarrow> Q y"
      using Cons.prems by auto
    then have "length (filter P xs) \<le> length (filter Q xs)"
      by (induction xs) (auto simp: le_SucI)
    with True show ?thesis by simp
  next
    case False
    then show ?thesis using Cons by auto
  qed
qed simp

lemma length_filter_mono:
  "(\<And>x. x \<in> set xs \<Longrightarrow> P x \<Longrightarrow> Q x) \<Longrightarrow> length (filter P xs) \<le> length (filter Q xs)"
  by (induction xs) (auto simp: le_SucI)

definition relocate :: "nat \<Rightarrow> nat \<Rightarrow> nat \<Rightarrow> spool \<Rightarrow> spool" where
  "relocate p i off s = s\<lparr>heap := (heap s)[p := (ent s p)\<lparr>e_segment := i, e_offset := off\<rparr>]\<rparr>"

lemma relocate_ent:
  "p < length (heap s) \<Longrightarrow>
     ent (relocate p i off s) q = (if q = p then (ent s p)\<lparr>e_segment := i, e_offset := off\<rparr> else ent s q)"
  by (simp add: relocate_def)

lemma map_core_update:
  "core e = core (xs ! p) \<Longrightarrow> map core (xs[p := e]) = map core xs"
  by (cases "p < length xs") (auto simp: map_update list_update_same_conv list_update_beyond)

lemma relocate_maps:
  assumes "spool_inv s" "map_of (index s) u = Some p"
  shows "index_inv (relocate p i off s)" "host_inv (relocate p i off s)" "live_inv (relocate p i off s)"
proof -
  let ?s = "relocate p i off s"
  have p: "p < length (heap s)" using assms by (auto simp: spool_inv_def index_inv_def)
  have e: "e_id (ent ?s q) = e_id (ent s q)" "e_hostID (ent ?s q) = e_hostID (ent s q)"
    "e_size (ent ?s q) = e_size (ent s q)" for q
    using relocate_ent [OF p] by simp_all
  have f: "index ?s = index s" "byHost ?s = byHost s" "sp_live ?s = sp_live s" "length (heap ?s) = length (heap s)"
    by (simp_all add: relocate_def)
  have hl: "host_list ?s h = host_list s h" for h by (simp add: host_list_def f)
  show "index_inv ?s" "host_inv ?s" "live_inv ?s"
    using assms(1) unfolding spool_inv_def index_inv_def host_inv_def live_inv_def f e hl by simp_all
qed

lemma relocate_count:
  assumes "spool_inv s" "map_of (index s) u = Some p"
  shows "in_segment (relocate p i off s) j \<le> in_segment s j + (if j = i then 1 else 0)"
proof -
  let ?s = "relocate p i off s"
  have p: "p < length (heap s)" "e_id (ent s p) = u" using assms by (auto simp: spool_inv_def index_inv_def)
  have d: "distinct (map fst (index s))" using assms(1) by (simp add: spool_inv_def index_inv_def)
  have u: "v = u" if "(v, p) \<in> set (index s)" for v
  proof -
    have "map_of (index s) v = Some p" using d that by simp
    then show ?thesis using assms p by (auto simp: spool_inv_def index_inv_def)
  qed
  show ?thesis
  proof (cases "j = i")
    case True
    have "length (filter (\<lambda>(v, q). e_segment (ent ?s q) = i) (index s))
        \<le> length (filter (\<lambda>(v, q). e_segment (ent s q) = i) (index s)) + 1"
      by (rule length_filter_one_more [where z = "(u, p)"])
         (use d u relocate_ent [OF p(1)] in \<open>auto simp: distinct_map split: if_splits\<close>)
    then show ?thesis by (simp add: True in_segment_def relocate_def)
  next
    case False
    have "length (filter (\<lambda>(v, q). e_segment (ent ?s q) = j) (index s))
        \<le> length (filter (\<lambda>(v, q). e_segment (ent s q) = j) (index s))"
      by (rule length_filter_mono) (use False relocate_ent [OF p(1)] in \<open>auto split: if_splits\<close>)
    then show ?thesis using False by (simp add: in_segment_def relocate_def)
  qed
qed

text \<open>The record was just written at the end of the file the entry now points to.\<close>

lemma keeps_relocate:
  assumes inv: "spool_inv s" and p: "map_of (index s) u = Some p" and r: "holds s p r"
    and f: "map_of (disk s) i = Some f" "stored f off r"
    and st: "map_of (segments s) i = Some st" "int (in_segment s i) + 1 \<le> st_live (g st)"
  shows "keeps {} s (set_state i g (relocate p i off s))"
proof -
  let ?t = "relocate p i off s"
  let ?s = "set_state i g ?t"
  have lt: "p < length (heap s)" using inv p by (auto simp: spool_inv_def index_inv_def)
  note ent = relocate_ent [OF lt, of i off]
  have seg: "segments ?t = segments s" "disk ?t = disk s" by (simp_all add: relocate_def)
  have h: "holds ?s q r'" if q: "holds s q r'" for q r'
  proof (cases "q = p")
    case True
    then have "r' = r" using holds_unique q r by blast
    then show ?thesis using True r f seg by (simp add: holds_def ent describes_def)
  qed (use q seg ent in \<open>simp add: holds_def\<close>)
  have dom: "map_of (segments ?s) j = None \<longleftrightarrow> map_of (segments s) j = None" for j
    by (auto simp: map_of_set_state seg)
  have maps: "index_inv ?s = index_inv ?t" "host_inv ?s = host_inv ?t" "live_inv ?s = live_inv ?t"
    "in_segment ?s j = in_segment ?t j" for j
    by (rule maps_inv_cong; simp)+
  have "stored_inv ?s"
  proof -
    have "(\<exists>r. holds ?s q r) \<and> map_of (segments ?s) (e_segment (ent ?s q)) \<noteq> None" if "map_of (index s) v = Some q" for v q
    proof -
      have "\<exists>r. holds s q r" "map_of (segments s) (e_segment (ent s q)) \<noteq> None"
        using inv that unfolding spool_inv_def stored_inv_def by blast+
      then show ?thesis using h dom st(1) ent by auto
    qed
    then show ?thesis by (simp add: stored_inv_def relocate_def)
  qed
  moreover have "count_inv ?s"
  proof -
    have "int (in_segment ?s j) \<le> st_live x" if "map_of (segments ?s) j = Some x" for j x
    proof (cases "j = i")
      case True
      then show ?thesis
        using that st relocate_count [OF inv p, of i off i] by (simp add: map_of_set_state seg maps)
    next
      case False
      then have "map_of (segments s) j = Some x" using that by (simp add: map_of_set_state seg)
      then have "int (in_segment s j) \<le> st_live x" using inv by (auto simp: spool_inv_def count_inv_def)
      then show ?thesis using relocate_count [OF inv p, of i off j] False by (simp add: maps)
    qed
    then show ?thesis by (simp add: count_inv_def)
  qed
  moreover have "files_inv ?s"
  proof -
    have "distinct (map fst (segments ?s))"
      using inv seg by (intro distinct_set_state) (simp add: spool_inv_def files_inv_def)
    then show ?thesis using inv dom by (simp add: spool_inv_def files_inv_def relocate_def)
  qed
  moreover have "active_inv ?s"
    using inv dom by (simp add: spool_inv_def active_inv_def seg_file_def relocate_def cong: option.case_cong)
  moreover have "clean_io ?s" using inv by (simp add: spool_inv_def clean_io_def relocate_def)
  moreover have log: "log_inv ?s = log_inv s" "logged ?s = logged s"
    by (rule log_inv_cong; simp add: relocate_def)+
  ultimately have "spool_inv ?s"
    using inv relocate_maps [OF inv p, of i off] by (simp add: spool_inv_def maps)
  moreover have "map core (heap ?s) = map core (heap s)"
    by (simp add: relocate_def map_core_update core_def)
  ultimately show ?thesis using h log(2) by (auto simp: keeps_def relocate_def)
qed

section \<open>Compaction\<close>

abbreviation active_id :: "spool \<Rightarrow> nat option" where
  "active_id s \<equiv> map_option sg_id (active s)"

text \<open>Where a record is after a step: where it was, or in the active segment.\<close>

definition moves_to_active :: "spool \<Rightarrow> spool \<Rightarrow> bool" where
  "moves_to_active s s' =
     (active_id s' = active_id s
      \<and> (\<forall>q. e_segment (ent s' q) = e_segment (ent s q) \<or> active_id s = Some (e_segment (ent s' q))))"

lemma moves_refl: "moves_to_active s s"
  by (simp add: moves_to_active_def)

lemma moves_trans: "moves_to_active s s' \<Longrightarrow> moves_to_active s' s'' \<Longrightarrow> moves_to_active s s''"
  unfolding moves_to_active_def by metis

lemma record_at_cong:
  assumes "heap s' = heap s" "disk s' = disk s"
  shows "record_at s' p = record_at s p"
  unfolding record_at_def assms by (rule refl)

lemma readLocked_shape:
  assumes "readLocked p s = (res, s')"
  shows "\<exists>l. s' = s\<lparr>io := l\<rparr> \<and> set l \<subseteq> set (io s)" and "res = Inr r \<Longrightarrow> record_at s p = Some r"
proof -
  obtain x t where t: "syscall s = (x, t)" by (cases "syscall s")
  then have st: "s' = t" using assms by (auto simp: readLocked_def split: outcome.splits option.splits)
  then show shape: "\<exists>l. s' = s\<lparr>io := l\<rparr> \<and> set l \<subseteq> set (io s)" using syscall_shape [OF t] by simp
  have "record_at s' p = record_at s p" using shape by (auto intro!: record_at_cong)
  then show "res = Inr r \<Longrightarrow> record_at s p = Some r"
    using assms t st by (auto simp: readLocked_def split: outcome.splits option.splits)
qed

lemma moves_append_frame:
  assumes inv: "spool_inv s" and a: "active s = Some a" and ap: "append_frame fr a s = (res, s')"
  shows "moves_to_active s s'"
proof (cases res)
  case (Inl e)
  then show ?thesis
    using append_frame_Inl [of fr a s e s'] ap inv a by (auto simp: moves_to_active_def spool_inv_def)
next
  case (Inr off)
  then show ?thesis
    using append_frame_Inr [of fr a s off s'] ap a by (auto simp: moves_to_active_def)
qed

text \<open>The record was appended to the active segment; the entry follows.\<close>

lemma relocate_appended:
  assumes inv: "spool_inv s" and a: "active s = Some a" and r: "holds s p r" and p: "map_of (index s) u = Some p"
    and ap: "append_frame (frame kindRecord (encode r)) a s = (Inr off, s1)"
    and s': "s' = set_state (sg_id a) (\<lambda>st. st\<lparr>st_live := st_live st + 1, st_size := n\<rparr>) (relocate p (sg_id a) off s1)"
  shows "keeps {} s s' \<and> moves_to_active s s' \<and> active_id s = Some (e_segment (ent s' p))"
proof -
  let ?fr = "frame kindRecord (encode r)"
  let ?g = "\<lambda>st. st\<lparr>st_live := st_live st + 1, st_size := n\<rparr> :: segmentState"
  have "fits r" using r by (auto simp: holds_def stored_def)
  have k1: "keeps {} s s1" by (rule keeps_append_record [OF inv a ap r])
  obtain l where s1: "off = sg_size a" "s1 = s\<lparr>io := l, disk := AList.update (sg_id a) (seg_file s (sg_id a) @ ?fr) (disk s),
       active := Some (a\<lparr>sg_size := sg_size a + length ?fr\<rparr>)\<rparr>"
    using append_frame_Inr [OF ap] by auto
  note seg = active_file [OF inv a]
  then obtain st where st: "map_of (segments s1) (sg_id a) = Some st" using s1 by auto
  have stored: "stored (seg_file s (sg_id a) @ ?fr) off r" using stored_at_end [OF seg(4) \<open>fits r\<close>] seg(2) s1(1) by simp
  have f1: "map_of (disk s1) (sg_id a) = Some (seg_file s (sg_id a) @ ?fr)" using s1 by simp
  have p1: "map_of (index s1) u = Some p" using p keeps_nothing_index [OF k1] by simp
  have r1: "holds s1 p r" using r k1 p1 unfolding keeps_def by blast
  have cnt: "int (in_segment s1 (sg_id a)) + 1 \<le> st_live (?g st)"
    using keeps_inv [OF k1] st by (auto simp: spool_inv_def count_inv_def)
  have k2: "keeps {} s1 s'"
    unfolding s' by (rule keeps_relocate [OF keeps_inv [OF k1] p1 r1 f1 stored st]) (rule cnt)
  have "p < length (heap s1)" using keeps_inv [OF k1] p1 by (auto simp: spool_inv_def index_inv_def)
  from relocate_ent [OF this, of "sg_id a" off]
  have v2: "moves_to_active s1 s'" and at: "active_id s1 = Some (e_segment (ent s' p))"
    using s1 by (simp_all add: s' moves_to_active_def) (simp add: relocate_def)
  have v1: "moves_to_active s s1" by (rule moves_append_frame [OF inv a ap])
  then have "active_id s1 = active_id s" by (simp only: moves_to_active_def)
  with at show ?thesis using keeps_trans [OF k1 k2] moves_trans [OF v1 v2] by (metis Un_empty_left)
qed

lemma move_record_shape:
  assumes inv: "spool_inv s" and p: "map_of (index s) u = Some p" and m: "move_record p s = (err, s')"
  shows "keeps {} s s' \<and> moves_to_active s s' \<and> (err = None \<longrightarrow> active_id s = Some (e_segment (ent s' p)))"
proof -
  obtain r0 where r0: "holds s p r0" using inv p unfolding spool_inv_def stored_inv_def by blast
  obtain res s1 where rd: "readLocked p s = (res, s1)" by (cases "readLocked p s")
  obtain l where l: "s1 = s\<lparr>io := l\<rparr>" "set l \<subseteq> set (io s)" using readLocked_shape(1) [OF rd] by blast
  have k1: "keeps {} s s1" using inv l by (intro keeps_quiet) simp_all
  have v1: "moves_to_active s s1" using l by (simp add: moves_to_active_def)
  have p1: "map_of (index s1) u = Some p" using p keeps_nothing_index [OF k1] by simp
  consider (stop) "s' = s1" "err \<noteq> None"
    | (torn) r a e where "res = Inr r" "active s1 = Some a" "append_frame (frame kindRecord (encode r)) a s1 = (Inl e, s')" "err \<noteq> None"
    | (moved) r a off s2 where "res = Inr r" "active s1 = Some a" "append_frame (frame kindRecord (encode r)) a s1 = (Inr off, s2)"
        "s' = set_state (sg_id a) (\<lambda>st. st\<lparr>st_live := st_live st + 1, st_size := sg_size a + length (frame kindRecord (encode r))\<rparr>)
           (relocate p (sg_id a) off s2)"
    using m rd by (auto simp: move_record_def relocate_def split: sum.splits option.splits prod.splits)
  then show ?thesis
  proof cases
    case stop
    then show ?thesis using k1 v1 by auto
  next
    case torn
    have "keeps {} s1 s'" by (rule keeps_append_failed [OF keeps_inv [OF k1] torn(2,3)])
    then show ?thesis
      using keeps_trans [OF k1] moves_trans [OF v1 moves_append_frame [OF keeps_inv [OF k1] torn(2,3)]] torn(4) by auto
  next
    case moved
    have "r = r0" using readLocked_shape(2) [OF rd moved(1)] holds_record_at [OF r0] by simp
    then have "holds s1 p r" using r0 k1 p1 unfolding keeps_def by blast
    note m2 = relocate_appended [OF keeps_inv [OF k1] moved(2) this p1 moved(3,4)]
    have "active_id s1 = active_id s" using v1 by (simp only: moves_to_active_def)
    with m2 show ?thesis using keeps_trans [OF k1] moves_trans [OF v1] by (metis Un_empty_left)
  qed
qed

lemma move_records_shape:
  assumes "spool_inv s" "\<forall>q \<in> set ps. \<exists>u. map_of (index s) u = Some q" "active_id s \<noteq> Some i"
    and "move_records i ps s = (err, s')"
  shows "keeps {} s s' \<and> moves_to_active s s' \<and> (err = None \<longrightarrow> (\<forall>q \<in> set ps. e_segment (ent s' q) \<noteq> i))"
  using assms
proof (induction ps arbitrary: s)
  case Nil
  then show ?case using keeps_refl moves_refl by auto
next
  case (Cons p ps)
  show ?case
  proof (cases "e_segment (ent s p) = i")
    case False
    with Cons.prems(4) have m: "move_records i ps s = (err, s')" by simp
    have IH: "keeps {} s s' \<and> moves_to_active s s' \<and> (err = None \<longrightarrow> (\<forall>q \<in> set ps. e_segment (ent s' q) \<noteq> i))"
      using Cons.IH [OF Cons.prems(1) _ Cons.prems(3) m] Cons.prems(2) by simp
    then have "e_segment (ent s' p) \<noteq> i"
      using False Cons.prems(3) unfolding moves_to_active_def by metis
    with IH show ?thesis by simp
  next
    case True
    obtain err1 s1 where m1: "move_record p s = (err1, s1)" by (cases "move_record p s")
    obtain u where u: "map_of (index s) u = Some p" using Cons.prems(2) by auto
    note s1 = move_record_shape [OF Cons.prems(1) u m1]
    show ?thesis
    proof (cases err1)
      case (Some e)
      then have "s' = s1" "err \<noteq> None" using Cons.prems(4) True m1 by auto
      then show ?thesis using s1 by auto
    next
      case None
      then have m: "move_records i ps s1 = (err, s')" using Cons.prems(4) True m1 by simp
      have a: "active_id s1 = active_id s" using s1 by (simp only: moves_to_active_def)
      have IH: "keeps {} s1 s' \<and> moves_to_active s1 s' \<and> (err = None \<longrightarrow> (\<forall>q \<in> set ps. e_segment (ent s' q) \<noteq> i))"
        using Cons.IH [OF keeps_inv [of "{}" s s1] _ _ m] s1 keeps_nothing_index [of s s1] Cons.prems(2,3) a by simp
      have "e_segment (ent s' p) \<noteq> i"
        using IH s1 None Cons.prems(3) a unfolding moves_to_active_def by metis
      then show ?thesis
        using IH s1 keeps_trans [of "{}" s s1 "{}" s'] moves_trans [of s s1 s'] by simp
    qed
  qed
qed

text \<open>A segment no entry points to can go.\<close>

lemma keeps_drop_segment:
  assumes inv: "spool_inv s" and none: "\<And>u p. map_of (index s) u = Some p \<Longrightarrow> e_segment (ent s p) \<noteq> i"
    and a: "active_id s \<noteq> Some i"
    and s': "disk s' = AList.delete i (disk s)" "index s' = index s" "byHost s' = byHost s"
      "heap s' = heap s" "sp_live s' = sp_live s" "active s' = active s" "nextID s' = nextID s"
      "sp_options s' = sp_options s" "closed s' = closed s" "set (io s') \<subseteq> set (io s)"
    and S: "segments s' = AList.delete i (segments s)"
  shows "keeps {} s s'"
proof -
  have h: "holds s' p r" if "map_of (index s) u = Some p" "holds s p r" for u p r
    using that none [of u p] by (auto simp: holds_def s')
  note maps = maps_inv_cong [OF s'(2-5)]
  have "files_inv s'"
    using inv distinct_delete [of "disk s" i] distinct_delete [of "segments s" i]
    by (auto simp: spool_inv_def files_inv_def s' S split: if_splits)
  moreover have "stored_inv s'"
  proof -
    have "(\<exists>r. holds s' q r) \<and> map_of (segments s') (e_segment (ent s q)) \<noteq> None" if "map_of (index s) v = Some q" for v q
    proof -
      have "\<exists>r. holds s q r" "map_of (segments s) (e_segment (ent s q)) \<noteq> None"
        using inv that unfolding spool_inv_def stored_inv_def by blast+
      then show ?thesis using h [OF that] none [OF that] S by auto
    qed
    then show ?thesis by (simp add: stored_inv_def s')
  qed
  moreover have "count_inv s'"
    using inv by (auto simp: spool_inv_def count_inv_def maps S split: if_splits)
  moreover have "active_inv s'"
    using inv a by (auto simp: spool_inv_def active_inv_def seg_file_def s' S split: option.splits)
  moreover have "clean_io s'" using inv s'(10) by (auto simp: spool_inv_def clean_io_def)
  moreover have "map_of (disk s) j = Some f \<or> f = []" if "map_of (disk s') j = Some f" for j f
    using that by (auto simp: s' split: if_splits)
  then have log: "logged s' \<subseteq> logged s" "log_inv s'"
    using inv log_inv_files [of s' s] by (simp_all only: spool_inv_def s')
  ultimately have "spool_inv s'" using inv by (simp add: spool_inv_def maps)
  then show ?thesis using h log(1) by (auto simp: keeps_def s')
qed

lemma keeps_sync: "spool_inv s \<Longrightarrow> sync_segment a s = (err, s') \<Longrightarrow> keeps {} s s' \<and> (\<exists>l. s' = s\<lparr>io := l\<rparr>)"
proof -
  assume inv: "spool_inv s" and y: "sync_segment a s = (err, s')"
  obtain x t where t: "syscall s = (x, t)" by (cases "syscall s")
  have "s' = s \<or> s' = t" using y t by (auto simp: sync_segment_def split: if_splits outcome.splits)
  moreover have "\<exists>l. s = s\<lparr>io := l\<rparr>" by (intro exI [of _ "io s"]) simp
  ultimately show ?thesis
    using keeps_refl [OF inv] keeps_io [OF inv t] syscall_shape [OF t] by auto
qed

lemma remove_file_shape:
  assumes "remove_file i s = (err, s')"
  shows "\<exists>l. set l \<subseteq> set (io s) \<and> s' = (if err = None then s\<lparr>io := l, disk := AList.delete i (disk s)\<rparr> else s\<lparr>io := l\<rparr>)"
proof -
  obtain x t where t: "syscall s = (x, t)" by (cases "syscall s")
  obtain l where "t = s\<lparr>io := l\<rparr>" "set l \<subseteq> set (io s)" using syscall_shape [OF t] by blast
  then show ?thesis using assms t by (auto simp: remove_file_def split: outcome.splits)
qed

lemma keeps_remove_dead:
  assumes inv: "spool_inv s" and none: "\<And>u p. map_of (index s) u = Some p \<Longrightarrow> e_segment (ent s p) \<noteq> i"
    and a: "active_id s \<noteq> Some i" and r: "remove_file i s = (err, s1)"
    and s': "s' = (if err = None then s1\<lparr>segments := AList.delete i (segments s1)\<rparr> else s1)"
  shows "keeps {} s s'"
proof (cases err)
  case None
  then show ?thesis
    using remove_file_shape [OF r] s' by (intro keeps_drop_segment [OF inv none a]) auto
next
  case (Some e)
  then show ?thesis using remove_file_shape [OF r] s' inv by (auto intro!: keeps_quiet)
qed

definition env_ok :: "spool_env \<Rightarrow> bool" where
  "env_ok env = (\<forall>ps. mset (shuffle env ps) = mset ps)"

lemma env_ok_set: "env_ok env \<Longrightarrow> set (shuffle env ps) = set ps"
  unfolding env_ok_def by (metis set_mset_mset)

lemma keeps_compact_segments:
  assumes "spool_inv s" "env_ok env" "\<forall>i \<in> set ids. active_id s \<noteq> Some i"
    and "compact_segments (shuffle env) ids s = (err, s')"
  shows "keeps {} s s'"
  using assms
proof (induction ids arbitrary: s)
  case Nil
  then show ?case using keeps_refl by auto
next
  case (Cons i ids)
  let ?ps = "shuffle env (map snd (index s))"
  obtain err1 s1 where m: "move_records i ?ps s = (err1, s1)" by (cases "move_records i ?ps s")
  have idx: "distinct (map fst (index s))" using Cons.prems(1) by (simp add: spool_inv_def index_inv_def)
  have "\<forall>q \<in> set ?ps. \<exists>u. map_of (index s) u = Some q"
    using env_ok_set [OF Cons.prems(2)] idx by (fastforce simp: map_of_eq_Some_iff)
  from move_records_shape [OF Cons.prems(1) this _ m] Cons.prems(3)
  have k1: "keeps {} s s1" and v1: "moves_to_active s s1"
    and c1: "err1 = None \<Longrightarrow> \<forall>q \<in> set ?ps. e_segment (ent s1 q) \<noteq> i" by auto
  have a1: "active_id s1 = active_id s" using v1 by (simp only: moves_to_active_def)
  show ?case
  proof (cases err1)
    case (Some e)
    then show ?thesis using Cons.prems(4) m k1 by simp
  next
    case None
    obtain err2 s2 where y: "(case active s1 of None \<Rightarrow> (Some IOError, s1) | Some a \<Rightarrow> sync_segment a s1) = (err2, s2)"
      by (cases "(case active s1 of None \<Rightarrow> (Some IOError, s1) | Some a \<Rightarrow> sync_segment a s1)")
    have k2: "keeps {} s1 s2" and l2: "\<exists>l. s2 = s1\<lparr>io := l\<rparr>"
    proof -
      have "\<exists>l. s1 = s1\<lparr>io := l\<rparr>" by (intro exI [of _ "io s1"]) simp
      then show "keeps {} s1 s2" "\<exists>l. s2 = s1\<lparr>io := l\<rparr>"
        using y keeps_refl [OF keeps_inv [OF k1]] keeps_sync [OF keeps_inv [OF k1]] by (auto split: option.splits)
    qed
    show ?thesis
    proof (cases err2)
      case (Some e)
      then show ?thesis using Cons.prems(4) m None y keeps_trans [OF k1 k2] by simp
    next
      case None2: None
      obtain err3 s3 where r: "remove_file i s2 = (err3, s3)" by (cases "remove_file i s2")
      let ?s4 = "if err3 = None then s3\<lparr>segments := AList.delete i (segments s3)\<rparr> else s3"
      have gone: "e_segment (ent s2 p) \<noteq> i" if "map_of (index s2) u = Some p" for u p
      proof -
        have "map_of (index s) u = Some p"
          using that keeps_nothing_index [OF keeps_trans [OF k1 k2, simplified]] by simp
        then have "p \<in> set ?ps"
          using env_ok_set [OF Cons.prems(2)] by (force dest: map_of_SomeD)
        then show ?thesis using c1 None l2 by auto
      qed
      have a2: "active_id s2 = active_id s" using l2 a1 by auto
      have k3: "keeps {} s2 ?s4"
        by (rule keeps_remove_dead [OF keeps_inv [OF k2] gone _ r refl]) (use a2 Cons.prems(3) in auto)
      have k: "keeps {} s ?s4" using keeps_trans [OF keeps_trans [OF k1 k2] k3] by simp
      show ?thesis
      proof (cases err3)
        case (Some e)
        then have "?s4 = s'" using Cons.prems(4) m None y None2 r by auto
        then show ?thesis using k by simp
      next
        case None3: None
        have "active_id ?s4 = active_id s" using remove_file_shape [OF r] a2 None3 by auto
        then have "keeps {} ?s4 s'"
          using Cons.IH [OF keeps_inv [OF k] Cons.prems(2)] Cons.prems(3,4) m None y None2 r None3 by simp
        then show ?thesis using keeps_trans [OF k] by simp
      qed
    qed
  qed
qed

lemma keeps_compact:
  assumes inv: "spool_inv s" and env: "env_ok env" and c: "compactLocked env s = (err, s')"
  shows "keeps {} s s'"
proof -
  obtain err1 s1 where r: "rollLocked s = (err1, s1)" by (cases "rollLocked s")
  have k1: "keeps {} s s1" by (rule keeps_roll [OF inv r])
  let ?ids = "sort (filter (\<lambda>i. active_id s1 \<noteq> Some i) (map fst (segments s1)))"
  consider "s' = s" | "s' = s1" | "compact_segments (shuffle env) ?ids s1 = (err, s')"
    using c r by (auto simp: compactLocked_def Let_def split: if_splits option.splits)
  then show ?thesis
  proof cases
    case 3
    then have "keeps {} s1 s'" by (intro keeps_compact_segments [OF keeps_inv [OF k1] env _ 3]) auto
    then show ?thesis using keeps_trans [OF k1] by simp
  qed (use keeps_refl [OF inv] k1 in auto)
qed

section \<open>Deletion\<close>

lemma drop_entry_fields [simp]:
  "segments (drop_entry p s) = segments s" "active (drop_entry p s) = active s" "nextID (drop_entry p s) = nextID s"
  "heap (drop_entry p s) = heap s" "disk (drop_entry p s) = disk s" "io (drop_entry p s) = io s"
  "sp_options (drop_entry p s) = sp_options s" "closed (drop_entry p s) = closed s"
  "index (drop_entry p s) = AList.delete (e_id (ent s p)) (index s)"
  "sp_live (drop_entry p s) = sp_live s - int (e_size (ent s p))"
  by (simp_all add: drop_entry_def Let_def)

lemma map_of_drop_host:
  "map_of (byHost (drop_entry p s)) h =
     (if h = e_hostID (ent s p)
      then (if remove1 p (host_list s h) = [] then None else Some (remove1 p (host_list s h)))
      else map_of (byHost s) h)"
  by (simp add: drop_entry_def Let_def)

lemma host_list_facts:
  assumes inv: "spool_inv s"
  shows "distinct (host_list s h)"
    and "q \<in> set (host_list s h) \<Longrightarrow> e_hostID (ent s q) = h \<and> map_of (index s) (e_id (ent s q)) = Some q"
proof -
  have "distinct (host_list s h)
      \<and> (q \<in> set (host_list s h) \<longrightarrow> e_hostID (ent s q) = h \<and> map_of (index s) (e_id (ent s q)) = Some q)"
  proof (cases "map_of (byHost s) h")
    case (Some ps)
    then have "distinct ps \<and> (\<forall>p \<in> set ps. e_hostID (ent s p) = h \<and> map_of (index s) (e_id (ent s p)) = Some p)"
      using inv unfolding spool_inv_def host_inv_def by blast
    with Some show ?thesis by (simp add: host_list_def)
  qed (simp add: host_list_def)
  then show "distinct (host_list s h)"
    "q \<in> set (host_list s h) \<Longrightarrow> e_hostID (ent s q) = h \<and> map_of (index s) (e_id (ent s q)) = Some q" by blast+
qed

lemma drop_entry_host_inv:
  assumes inv: "spool_inv s" and p: "map_of (index s) u = Some p"
  shows "host_inv (drop_entry p s)"
proof -
  have u: "e_id (ent s p) = u" using inv p by (auto simp: spool_inv_def index_inv_def)
  let ?s = "drop_entry p s" and ?h = "e_hostID (ent s p)"
  have d: "distinct (map fst (byHost s))" using inv by (simp add: spool_inv_def host_inv_def)
  note lists = host_list_facts [OF inv]
  have hl: "host_list ?s h = (if h = ?h then remove1 p (host_list s h) else host_list s h)" for h
    by (simp add: host_list_def map_of_drop_host split: option.splits)
  have "distinct (map fst (byHost ?s))"
    using d distinct_update distinct_delete by (auto simp: drop_entry_def Let_def)
  moreover have "ps \<noteq> [] \<and> distinct ps \<and> (\<forall>q \<in> set ps. e_hostID (ent ?s q) = h \<and> map_of (index ?s) (e_id (ent ?s q)) = Some q)"
    if "map_of (byHost ?s) h = Some ps" for h ps
  proof -
    have ne: "ps \<noteq> []" using that inv by (auto simp: map_of_drop_host spool_inv_def host_inv_def split: if_splits)
    have ps: "ps = host_list ?s h" using that by (simp add: host_list_def)
    have np: "p \<notin> set ps"
    proof (cases "h = ?h")
      case True
      then show ?thesis using ps hl lists(1) [of h] by simp
    next
      case False
      then show ?thesis using ps hl lists(2) [of p h] by auto
    qed
    have sub: "set ps \<subseteq> set (host_list s h)" using ps hl set_remove1_subset by (metis order_refl)
    have "map_of (index ?s) (e_id (ent s q)) = Some q" if q: "q \<in> set ps" for q
    proof -
      have iq: "map_of (index s) (e_id (ent s q)) = Some q" using lists(2) [of q h] sub q by blast
      have "e_id (ent s q) \<noteq> u"
      proof
        assume "e_id (ent s q) = u"
        then have "q = p" using iq p by simp
        then show False using np q by simp
      qed
      then show ?thesis using iq u by simp
    qed
    moreover have "distinct ps" using ps hl lists(1) by simp
    moreover have "e_hostID (ent s q) = h" if "q \<in> set ps" for q using lists(2) [of q h] sub that by blast
    ultimately show ?thesis using ne by simp
  qed
  moreover have "q \<in> set (host_list ?s (e_hostID (ent ?s q)))" if "map_of (index ?s) v = Some q" for v q
  proof -
    have v: "map_of (index s) v = Some q" "v \<noteq> u" using that u by (auto split: if_splits)
    then have "q \<in> set (host_list s (e_hostID (ent s q)))" using inv by (auto simp: spool_inv_def host_inv_def)
    moreover have "q \<noteq> p" using v u inv by (auto simp: spool_inv_def index_inv_def)
    ultimately show ?thesis by (auto simp: hl)
  qed
  ultimately show ?thesis unfolding host_inv_def by blast
qed

lemma keeps_drop_entry:
  assumes inv: "spool_inv s" and p: "map_of (index s) u = Some p"
  shows "keeps {u} s (drop_entry p s)"
    and "e_segment (ent s p) = i \<Longrightarrow> in_segment (drop_entry p s) i + 1 = in_segment s i"
proof -
  let ?s = "drop_entry p s"
  have u: "e_id (ent s p) = u" using inv p by (auto simp: spool_inv_def index_inv_def)
  have d: "distinct (map fst (index s))" using inv by (simp add: spool_inv_def index_inv_def)
  have h: "holds ?s q r = holds s q r" for q r by (rule holds_cong) simp_all
  have cnt: "in_segment ?s j + (if e_segment (ent s p) = j then 1 else 0) = in_segment s j" for j
    using length_filter_delete [OF d p, of "\<lambda>(v, q). e_segment (ent s q) = j"] by (simp add: in_segment_def u)
  have "index_inv ?s"
    using inv distinct_delete [of "index s" u] by (auto simp: spool_inv_def index_inv_def u split: if_splits)
  moreover have "live_inv ?s"
    using inv sum_list_delete [OF d p, of "\<lambda>(v, q). int (e_size (ent s q))"] by (simp add: spool_inv_def live_inv_def u)
  moreover have "stored_inv ?s"
    using inv by (auto simp: spool_inv_def stored_inv_def h split: if_splits)
  moreover have "count_inv ?s"
  proof -
    have "int (in_segment ?s j) \<le> st_live st" if "map_of (segments s) j = Some st" for j st
    proof -
      have "int (in_segment s j) \<le> st_live st" using inv that unfolding spool_inv_def count_inv_def by blast
      then show ?thesis using cnt [of j] by linarith
    qed
    then show ?thesis by (simp add: count_inv_def)
  qed
  moreover have "files_inv ?s" "clean_io ?s" using inv by (simp_all add: spool_inv_def files_inv_def clean_io_def)
  moreover have "active_inv ?s"
    using inv by (simp add: spool_inv_def active_inv_def seg_file_def cong: option.case_cong)
  moreover have log: "logged ?s \<subseteq> logged s" "log_inv ?s"
    using inv log_inv_files [of ?s s] by (simp_all add: spool_inv_def)
  ultimately have "spool_inv ?s" using drop_entry_host_inv [OF inv p] by (simp add: spool_inv_def)
  then show "keeps {u} s ?s" using u log(1) by (auto simp: keeps_def h split: if_splits)
  show "e_segment (ent s p) = i \<Longrightarrow> in_segment ?s i + 1 = in_segment s i" using cnt [of i] by simp
qed

lemma in_segment_positive:
  assumes "spool_inv s" "map_of (index s) u = Some p" "e_segment (ent s p) = i"
  shows "0 < in_segment s i"
  using map_of_SomeD [OF assms(2)] assms(3) by (auto simp: in_segment_def filter_empty_conv)

lemma keeps_release:
  assumes inv: "spool_inv s" and slack: "\<And>st. map_of (segments s) i = Some st \<Longrightarrow> int (in_segment s i) + 1 \<le> st_live st"
    and r: "release_segment i s = (err, s')"
  shows "keeps {} s s'"
proof (cases "map_of (segments s) i")
  case None
  then show ?thesis using r keeps_refl [OF inv] by (simp add: release_segment_def)
next
  case (Some st)
  let ?t = "set_state i (\<lambda>st. st\<lparr>st_live := st_live st - 1\<rparr>) s"
  have k1: "keeps {} s ?t" using keeps_set_state [OF inv, of i "\<lambda>st. st\<lparr>st_live := st_live st - 1\<rparr>"] slack by force
  show ?thesis
  proof (cases "st_live st - 1 \<le> 0 \<and> active_id ?t \<noteq> Some i")
    case True
    obtain err1 s1 where rm: "remove_file i ?t = (err1, s1)" by (cases "remove_file i ?t")
    have "int (in_segment s i) \<le> 0" using slack [OF Some] True by simp
    then have none: "e_segment (ent ?t p) \<noteq> i" if "map_of (index ?t) u = Some p" for u p
      using in_segment_positive [OF inv, of u p i] that by auto
    have s': "s' = (if err1 = None then s1\<lparr>segments := AList.delete i (segments s1)\<rparr> else s1)"
      using r Some True rm by (auto simp: release_segment_def Let_def split: option.splits)
    have "keeps {} ?t s'" by (rule keeps_remove_dead [OF keeps_inv [OF k1] _ _ rm s']) (use none True in auto)
    then show ?thesis using keeps_trans [OF k1] by simp
  next
    case False
    then have "s' = ?t" using r Some by (auto simp: release_segment_def Let_def split: if_splits)
    then show ?thesis using k1 by simp
  qed
qed

text \<open>
  The tombstone is written before the entry goes; the state after both is that of the other order.
\<close>

lemma drop_entry_append:
  assumes "append_frame framed a s = (Inr off, s2)"
  shows "append_frame framed a (drop_entry p s) = (Inr off, drop_entry p s2)"
  using assms
  by (auto simp: append_frame_def syscall_def drop_entry_def host_list_def seg_file_def Let_def
      split: if_splits prod.splits outcome.splits list.splits)

lemma drop_entry_set_state: "drop_entry p (set_state i f s) = set_state i f (drop_entry p s)"
  by (simp add: set_state_def drop_entry_def host_list_def Let_def split: option.splits)

lemma keeps_bury:
  assumes inv: "spool_inv s" and p: "map_of (index s) u = Some p" and a: "active s = Some a"
    and ap: "append_frame (frame kindTombstone u) a s = (Inr off, s2)"
  shows "keeps {u} s (drop_entry p (set_state (sg_id a) (\<lambda>st. st\<lparr>st_size := n\<rparr>) s2))"
proof -
  have u: "e_id (ent s p) = u" using inv p by (auto simp: spool_inv_def index_inv_def)
  obtain r where "holds s p r" using inv p unfolding spool_inv_def stored_inv_def by blast
  then have len: "length u \<le> maxRecordBytes"
    using u by (auto simp: holds_def describes_def stored_def fits_def maxRecordBytes_def)
  have k1: "keeps {u} s (drop_entry p s)" by (rule keeps_drop_entry(1) [OF inv p])
  have k2: "keeps {u} (drop_entry p s) (drop_entry p s2)"
    by (rule keeps_append_frame [OF keeps_inv [OF k1] _ drop_entry_append [OF ap] len])
       (simp_all add: a u may_append_def)
  have "keeps {} (drop_entry p s2) (set_state (sg_id a) (\<lambda>st. st\<lparr>st_size := n\<rparr>) (drop_entry p s2))"
    by (rule keeps_set_state [OF keeps_inv [OF k2]])
       (use keeps_inv [OF k2] in \<open>simp add: spool_inv_def count_inv_def\<close>)
  from keeps_trans [OF keeps_trans [OF k1 k2] this] show ?thesis by (simp add: drop_entry_set_state)
qed

text \<open>The account of the segment of the record still counts it when its entry is gone.\<close>

lemma bury_slack:
  assumes inv: "spool_inv s1" and p: "map_of (index s1) u = Some p" and ap: "append_frame framed a s1 = (Inr off, s2)"
    and t: "t = set_state (sg_id a) (\<lambda>st. st\<lparr>st_size := n\<rparr>) s2"
    and st: "map_of (segments (drop_entry p t)) (e_segment (ent t p)) = Some st"
  shows "int (in_segment (drop_entry p t) (e_segment (ent t p))) + 1 \<le> st_live st"
proof -
  have f: "index t = index s1" "heap t = heap s1" "segments s2 = segments s1"
    using append_frame_Inr [OF ap] t by auto
  then obtain st1 where "map_of (segments s1) (e_segment (ent s1 p)) = Some st1" "st_live st1 = st_live st"
    using st t by (auto simp: map_of_set_state split: if_splits)
  then have "int (in_segment s1 (e_segment (ent s1 p))) \<le> st_live st"
    using inv unfolding spool_inv_def count_inv_def by metis
  moreover have "in_segment (drop_entry p t) j = in_segment (drop_entry p s1) j" for j
    by (simp add: in_segment_def f)
  ultimately show ?thesis using keeps_drop_entry(2) [OF inv p refl] f by simp
qed

lemma delete_shape:
  assumes inv: "spool_inv s" and env: "env_ok env" and p: "map_of (index s) u = Some p"
    and del: "deleteLocked env p s = (err, s')"
  shows "keeps {u} s s' \<and> (err = None \<longrightarrow> map_of (index s') u = None)"
proof -
  have u: "e_id (ent s p) = u" using inv p by (auto simp: spool_inv_def index_inv_def)
  obtain err1 s1 where r: "roll_if_full s = (err1, s1)" by (cases "roll_if_full s")
  have k1: "keeps {} s s1" by (rule keeps_roll_if_full [OF inv r])
  have p1: "map_of (index s1) u = Some p" using p keeps_nothing_index [OF k1] by simp
  have u1: "e_id (ent s1 p) = u" using keeps_inv [OF k1] p1 by (auto simp: spool_inv_def index_inv_def)
  let ?fr = "frame kindTombstone u"
  consider (stop) "s' = s1" "err \<noteq> None"
    | (torn) a e where "active s1 = Some a" "append_frame ?fr a s1 = (Inl e, s')" "err \<noteq> None"
    | (cut) a off s2 t err2 s4 where "active s1 = Some a" "append_frame ?fr a s1 = (Inr off, s2)"
        "t = set_state (sg_id a) (\<lambda>st. st\<lparr>st_size := sg_size a + length ?fr\<rparr>) s2"
        "release_segment (e_segment (ent t p)) (drop_entry p t) = (err2, s4)"
        "s' = s4 \<or> compactLocked env s4 = (err, s')"
    using del p u r u1 by (auto simp: deleteLocked_def Let_def split: option.splits prod.splits sum.splits)
  then show ?thesis
  proof cases
    case stop
    then show ?thesis using keeps_mono [OF k1] by auto
  next
    case torn
    then have "keeps {} s1 s'" by (intro keeps_append_failed [OF keeps_inv [OF k1]])
    then show ?thesis using keeps_mono [OF keeps_trans [OF k1]] torn(3) by auto
  next
    case cut
    have k4: "keeps {u} s1 (drop_entry p t)"
      unfolding cut(3) by (rule keeps_bury [OF keeps_inv [OF k1] p1 cut(1,2)])
    have k5: "keeps {} (drop_entry p t) s4"
      by (rule keeps_release [OF keeps_inv [OF k4] bury_slack [OF keeps_inv [OF k1] p1 cut(2,3)] cut(4)])
    have k: "keeps {u} s s4" using keeps_trans [OF keeps_trans [OF k1 k4] k5] by simp
    have "heap t = heap s1" using append_frame_Inr [OF cut(2)] cut(3) by auto
    then have "map_of (index (drop_entry p t)) u = None" using u1 by simp
    then have gone: "map_of (index s4) u = None" using keeps_nothing_index [OF k5] by simp
    from cut(5) show ?thesis
    proof
      assume "compactLocked env s4 = (err, s')"
      then have "keeps {} s4 s'" by (rule keeps_compact [OF keeps_inv [OF k5] env])
      then show ?thesis using keeps_trans [OF k] keeps_nothing_index gone by fastforce
    qed (use k gone in simp)
  qed
qed

lemma keeps_delete:
  assumes "spool_inv s" "env_ok env" "map_of (index s) u = Some p" "deleteLocked env p s = (err, s')"
  shows "keeps {u} s s'"
  using delete_shape [OF assms] by blast

lemma delete_forgets:
  assumes "spool_inv s" "env_ok env" "map_of (index s) u = Some p" "deleteLocked env p s = (None, s')"
  shows "map_of (index s') u = None"
  using delete_shape [OF assms] by blast

end
