(* ===== verification/Spool_Ops.thy ===== *)
theory Spool_Ops
  imports Spool_Keeps
begin

text \<open>
  The exported operations of the spool against what each may forget: the loops over deletions,
  appending, sending, acknowledging.
\<close>

section \<open>Loops over deletions\<close>

definition listed :: "spool \<Rightarrow> nat list \<Rightarrow> bool" where
  "listed s ps =
     (\<forall>p \<in> set ps. p < length (heap s) \<and> map_of (index s) (e_id (ent s p)) \<in> {None, Some p})"

definition forgotten :: "(entry \<Rightarrow> bool) \<Rightarrow> spool \<Rightarrow> string set" where
  "forgotten P s = {u. \<exists>p. map_of (index s) u = Some p \<and> P (ent s p)}"

text \<open>A property of entries that does not depend on where the record is.\<close>

definition placeless :: "(entry \<Rightarrow> bool) \<Rightarrow> bool" where
  "placeless P = (\<forall>e e'. core e = core e' \<longrightarrow> P e = P e')"

lemma placelessD: "placeless P \<Longrightarrow> core e = core e' \<Longrightarrow> P e = P e'"
  unfolding placeless_def by blast

lemma keeps_core:
  assumes "keeps D s s'" "p < length (heap s)"
  shows "core (ent s' p) = core (ent s p)" and "length (heap s') = length (heap s)"
proof -
  have m: "map core (heap s') = map core (heap s)" using assms(1) by (simp add: keeps_def)
  then show l: "length (heap s') = length (heap s)" by (metis length_map)
  show "core (ent s' p) = core (ent s p)" using m l assms(2) by (metis nth_map)
qed

lemma listed_keeps:
  assumes "keeps D s s'" "listed s ps"
  shows "listed s' ps"
proof -
  have "p < length (heap s') \<and> map_of (index s') (e_id (ent s' p)) \<in> {None, Some p}" if "p \<in> set ps" for p
  proof -
    have p: "p < length (heap s)" "map_of (index s) (e_id (ent s p)) \<in> {None, Some p}"
      using assms(2) that by (auto simp: listed_def)
    have e: "e_id (ent s' p) = e_id (ent s p)" using core_fields(1) keeps_core(1) [OF assms(1) p(1)] by blast
    show ?thesis
    proof (cases "map_of (index s') (e_id (ent s p))")
      case None
      then show ?thesis using e p keeps_core(2) [OF assms(1) p(1)] by simp
    next
      case (Some q)
      then have "map_of (index s) (e_id (ent s p)) = Some q" using assms(1) unfolding keeps_def by blast
      then show ?thesis using Some e p keeps_core(2) [OF assms(1) p(1)] by simp
    qed
  qed
  then show ?thesis unfolding listed_def by blast
qed

lemma forgotten_keeps:
  assumes "spool_inv s" "keeps D s s'" "placeless P"
  shows "forgotten P s' \<subseteq> forgotten P s"
proof
  fix u
  assume "u \<in> forgotten P s'"
  then obtain p where p: "map_of (index s') u = Some p" "P (ent s' p)" by (auto simp: forgotten_def)
  then have ip: "map_of (index s) u = Some p" using assms(2) unfolding keeps_def by blast
  then have "p < length (heap s)" using assms(1) by (auto simp: spool_inv_def index_inv_def)
  then have "core (ent s' p) = core (ent s p)" by (rule keeps_core(1) [OF assms(2)])
  then have "P (ent s p)" using p(2) placelessD [OF assms(3)] by blast
  then show "u \<in> forgotten P s" using ip by (auto simp: forgotten_def)
qed

lemma keeps_more:
  assumes "spool_inv s" "keeps (forgotten P s) s s1" "keeps (forgotten P s1) s1 s2" "placeless P"
  shows "keeps (forgotten P s) s s2"
proof -
  have "forgotten P s \<union> forgotten P s1 = forgotten P s"
    using forgotten_keeps [OF assms(1,2,4)] by blast
  then show ?thesis using keeps_trans [OF assms(2,3)] by simp
qed

text \<open>What holds of listed entries wherever their records are holds of them after a step.\<close>

lemma entries_keep:
  assumes "keeps D s s'" "listed s ps" "placeless Q" "\<forall>p \<in> set ps. Q (ent s p)"
  shows "\<forall>p \<in> set ps. Q (ent s' p)"
proof
  fix p
  assume p: "p \<in> set ps"
  then have "p < length (heap s)" using assms(2) by (auto simp: listed_def)
  then have "core (ent s' p) = core (ent s p)" by (rule keeps_core(1) [OF assms(1)])
  then have "Q (ent s' p) = Q (ent s p)" by (rule placelessD [OF assms(3)])
  then show "Q (ent s' p)" using assms(4) p by simp
qed

lemma placeless_conj: "placeless P \<Longrightarrow> placeless Q \<Longrightarrow> placeless (\<lambda>e. P e \<and> Q e)"
  unfolding placeless_def by blast

lemma listed_hosts: "spool_inv s \<Longrightarrow> listed s (host_list s h)"
  using host_list_facts(2) [of s _ h] by (auto simp: listed_def spool_inv_def index_inv_def)

text \<open>Deleting a listed entry forgets it only, and forgets it when it answers no error.\<close>

lemma keeps_delete_listed:
  assumes inv: "spool_inv s" and env: "env_ok env" and p: "listed s [p]" "P (ent s p)"
    and del: "deleteLocked env p s = (err, s')"
  shows "keeps (forgotten P s) s s'"
proof (cases "map_of (index s) (e_id (ent s p))")
  case None
  then show ?thesis using del keeps_refl [OF inv] by (simp add: deleteLocked_def)
next
  case (Some q)
  then have q: "map_of (index s) (e_id (ent s p)) = Some p" using p by (simp add: listed_def)
  have "e_id (ent s p) \<in> forgotten P s" using q p(2) by (auto simp: forgotten_def)
  then show ?thesis using keeps_mono [OF keeps_delete [OF inv env q del]] by simp
qed

lemma listed_tl: "listed s (p # ps) \<Longrightarrow> listed s [p] \<and> listed s ps"
  by (simp add: listed_def)

lemma keeps_delete_each:
  assumes "spool_inv s" "env_ok env" "listed s ps" "placeless P" "placeless Q" "\<forall>p \<in> set ps. Q (ent s p)"
  shows "keeps (forgotten (\<lambda>e. P e \<and> Q e) s) s (delete_each env P ps s)"
  using assms(1,3,6)
proof (induction ps arbitrary: s)
  case Nil
  then show ?case using keeps_refl by simp
next
  case (Cons p ps)
  let ?R = "\<lambda>e. P e \<and> Q e"
  let ?s1 = "if P (ent s p) then snd (deleteLocked env p s) else s"
  have k1: "keeps (forgotten ?R s) s ?s1"
    using keeps_delete_listed [where P = ?R, OF Cons.prems(1) assms(2), of p "fst (deleteLocked env p s)" "snd (deleteLocked env p s)"]
      listed_tl [OF Cons.prems(2)] keeps_refl [OF Cons.prems(1)] Cons.prems(3) by simp
  have "\<forall>p \<in> set ps. Q (ent ?s1 p)"
    using listed_tl [OF Cons.prems(2)] Cons.prems(3) by (intro entries_keep [OF k1 _ assms(5)]) simp_all
  then have "keeps (forgotten ?R ?s1) ?s1 (delete_each env P ps ?s1)"
    using Cons.IH [OF keeps_inv [OF k1]] listed_keeps [OF k1] listed_tl [OF Cons.prems(2)] by blast
  then show ?case using keeps_more [OF Cons.prems(1) k1 _ placeless_conj [OF assms(4,5)]] by simp
qed

lemma keeps_count:
  assumes "spool_inv s"
  shows "keeps {} s (s\<lparr>dropped := n\<rparr>)" "keeps {} s (s\<lparr>expired := n\<rparr>)" "keeps {} s (s\<lparr>dirty := b\<rparr>)"
    "keeps {} s (s\<lparr>flushErr := e\<rparr>)"
  using assms by (auto intro!: keeps_quiet)

lemma keeps_then_count:
  assumes "keeps D s s'"
  shows "keeps D s (s'\<lparr>dropped := n\<rparr>)" "keeps D s (s'\<lparr>expired := n\<rparr>)" "keeps D s (s'\<lparr>dirty := b\<rparr>)"
    "keeps D s (s'\<lparr>flushErr := e\<rparr>)"
  using keeps_trans [OF assms keeps_count(1) [OF keeps_inv [OF assms]]] keeps_trans [OF assms keeps_count(2) [OF keeps_inv [OF assms]]]
    keeps_trans [OF assms keeps_count(3) [OF keeps_inv [OF assms]]] keeps_trans [OF assms keeps_count(4) [OF keeps_inv [OF assms]]]
  by simp_all

lemma keeps_evict:
  assumes "spool_inv s" "env_ok env" "listed s ps" "\<forall>p \<in> set ps. P (ent s p)" "placeless P"
    and "evict_metrics env bytes ps evicted s = (b, s')"
  shows "keeps (forgotten P s) s s'"
  using assms(1,3,4,6)
proof (induction ps arbitrary: s evicted)
  case Nil
  then show ?case using keeps_refl by simp
next
  case (Cons p ps)
  obtain err s1 where d: "deleteLocked env p s = (err, s1)" by (cases "deleteLocked env p s")
  have k1: "keeps (forgotten P s) s s1"
    using keeps_delete_listed [OF Cons.prems(1) assms(2) _ _ d] listed_tl [OF Cons.prems(2)] Cons.prems(3) by simp
  let ?s2 = "s1\<lparr>dropped := dropped s1 + 1\<rparr>"
  have k2: "keeps (forgotten P s) s ?s2" by (rule keeps_then_count(1) [OF k1])
  consider "s' = s" | "s' = s1" | "evict_metrics env bytes ps True ?s2 = (b, s')"
    using Cons.prems(4) d by (auto split: if_splits option.splits)
  then show ?case
  proof cases
    case 3
    have "\<forall>q \<in> set ps. P (ent ?s2 q)"
      using listed_tl [OF Cons.prems(2)] Cons.prems(3) by (intro entries_keep [OF k2 _ assms(5)]) simp_all
    then have "keeps (forgotten P ?s2) ?s2 s'"
      using Cons.IH [OF keeps_inv [OF k2] _ _ 3] listed_keeps [OF k2] listed_tl [OF Cons.prems(2)] by blast
    then show ?thesis using keeps_more [OF Cons.prems(1) k2 _ assms(5)] by simp
  qed (use k1 keeps_refl [OF Cons.prems(1)] in auto)
qed

lemma placeless_expiry: "placeless (past_expiry now)"
  unfolding placeless_def past_expiry_def using core_fields(8) by metis

lemma keeps_expire_each:
  assumes "spool_inv s" "env_ok env" "listed s ps" "placeless Q" "\<forall>p \<in> set ps. Q (ent s p)"
  shows "keeps (forgotten (\<lambda>e. past_expiry (env_now env) e \<and> Q e) s) s (expire_each env ps s)"
  using assms(1,3,5)
proof (induction ps arbitrary: s)
  case Nil
  then show ?case using keeps_refl by simp
next
  case (Cons p ps)
  let ?P = "past_expiry (env_now env)"
  let ?R = "\<lambda>e. ?P e \<and> Q e"
  obtain err s1 where d: "deleteLocked env p s = (err, s1)" by (cases "deleteLocked env p s")
  let ?s2 = "if ?P (ent s p) then (case err of None \<Rightarrow> s1\<lparr>expired := expired s1 + 1\<rparr> | Some e \<Rightarrow> s1) else s"
  have k2: "keeps (forgotten ?R s) s ?s2"
  proof (cases "?P (ent s p)")
    case True
    then have "?R (ent s p)" using Cons.prems(3) by simp
    then have "keeps (forgotten ?R s) s s1"
      using keeps_delete_listed [where P = ?R, OF Cons.prems(1) assms(2) _ _ d] listed_tl [OF Cons.prems(2)] by blast
    then show ?thesis using True keeps_then_count(2) by (auto split: option.splits)
  qed (use keeps_refl [OF Cons.prems(1)] in simp)
  have "\<forall>p \<in> set ps. Q (ent ?s2 p)"
    using listed_tl [OF Cons.prems(2)] Cons.prems(3) by (intro entries_keep [OF k2 _ assms(4)]) simp_all
  then have "keeps (forgotten ?R ?s2) ?s2 (expire_each env ps ?s2)"
    using Cons.IH [OF keeps_inv [OF k2]] listed_keeps [OF k2] listed_tl [OF Cons.prems(2)] by blast
  moreover have "expire_each env (p # ps) s = expire_each env ps ?s2" using d by (simp split: option.splits)
  ultimately show ?case
    using keeps_more [OF Cons.prems(1) k2 _ placeless_conj [OF placeless_expiry assms(4)]] by simp
qed

lemma placeless_forgettable: "placeless (forgettable now grace lastNamed)"
  unfolding placeless_def
proof (intro allI impI)
  fix e e' :: entry
  assume "core e = core e'"
  then have "e_sequence e = e_sequence e'" "e_firstSentAt e = e_firstSentAt e'" by (rule core_fields)+
  then show "forgettable now grace lastNamed e = forgettable now grace lastNamed e'" by (simp add: forgettable_def)
qed

lemma keeps_forget_each:
  assumes "spool_inv s" "env_ok env" "listed s ps" "placeless Q" "\<forall>p \<in> set ps. Q (ent s p)"
    and "forget_each env grace lastNamed ps n s = (res, s')"
  shows "keeps (forgotten (\<lambda>e. forgettable (env_now env) grace lastNamed e \<and> Q e) s) s s'"
  using assms(1,3,5,6)
proof (induction ps arbitrary: s n)
  case Nil
  then show ?case using keeps_refl by auto
next
  case (Cons p ps)
  let ?P = "forgettable (env_now env) grace lastNamed"
  let ?R = "\<lambda>e. ?P e \<and> Q e"
  note tl = listed_tl [OF Cons.prems(2)]
  show ?case
  proof (cases "?P (ent s p)")
    case False
    then show ?thesis using Cons.IH [OF Cons.prems(1)] Cons.prems(3,4) tl by simp
  next
    case True
    obtain err s1 where d: "deleteLocked env p s = (err, s1)" by (cases "deleteLocked env p s")
    have "?R (ent s p)" using True Cons.prems(3) by simp
    then have k1: "keeps (forgotten ?R s) s s1"
      using keeps_delete_listed [where P = ?R, OF Cons.prems(1) assms(2) _ _ d] tl by blast
    show ?thesis
    proof (cases err)
      case None
      then have "forget_each env grace lastNamed ps (n + 1) s1 = (res, s')" using Cons.prems(4) True d by simp
      moreover have "\<forall>p \<in> set ps. Q (ent s1 p)"
        using tl Cons.prems(3) by (intro entries_keep [OF k1 _ assms(4)]) simp_all
      ultimately have "keeps (forgotten ?R s1) s1 s'"
        using Cons.IH [OF keeps_inv [OF k1]] listed_keeps [OF k1] tl by blast
      then show ?thesis
        using keeps_more [OF Cons.prems(1) k1 _ placeless_conj [OF placeless_forgettable assms(4)]] by simp
    next
      case (Some e)
      then show ?thesis using Cons.prems(4) True d k1 by auto
    qed
  qed
qed

section \<open>What a step retains\<close>

text \<open>Records outside \<open>D\<close> stay, whatever is added or marked.\<close>

definition retains :: "string set \<Rightarrow> spool \<Rightarrow> spool \<Rightarrow> bool" where
  "retains D s s' =
     (spool_inv s' \<and> sp_options s' = sp_options s \<and> set (io s') \<subseteq> set (io s)
      \<and> (\<forall>u p r. map_of (index s) u = Some p \<longrightarrow> holds s p r \<longrightarrow> u \<notin> D \<longrightarrow> map_of (index s') u = Some p \<and> holds s' p r))"

lemma keeps_retains:
  assumes "keeps D s s'"
  shows "retains D s s'"
proof -
  have "map_of (index s') u = Some p \<and> holds s' p r" if "map_of (index s) u = Some p" "holds s p r" "u \<notin> D" for u p r
  proof (cases "map_of (index s') u")
    case None
    then show ?thesis using assms that unfolding keeps_def by blast
  next
    case (Some q)
    then have "q = p" using assms that(1) unfolding keeps_def by (metis option.inject)
    then show ?thesis using assms that Some unfolding keeps_def by blast
  qed
  moreover have "spool_inv s'" "sp_options s' = sp_options s" "set (io s') \<subseteq> set (io s)"
    using assms unfolding keeps_def by blast+
  ultimately show ?thesis unfolding retains_def by blast
qed

lemma retains_trans:
  assumes "retains D s s'" "retains D' s' s''"
  shows "retains (D \<union> D') s s''"
proof -
  have "map_of (index s'') u = Some p \<and> holds s'' p r"
    if "map_of (index s) u = Some p" "holds s p r" "u \<notin> D \<union> D'" for u p r
  proof -
    have "map_of (index s') u = Some p" "holds s' p r" using assms(1) that unfolding retains_def by blast+
    then show ?thesis using assms(2) that unfolding retains_def by blast
  qed
  moreover have "spool_inv s''" "sp_options s'' = sp_options s" "set (io s'') \<subseteq> set (io s)"
    using assms unfolding retains_def by auto
  ultimately show ?thesis unfolding retains_def by blast
qed

lemma retains_mono: "retains D s s' \<Longrightarrow> D \<subseteq> D' \<Longrightarrow> retains D' s s'"
  unfolding retains_def by blast

text \<open>Marking entries as sent or waiting.\<close>

definition unmarked :: "entry \<Rightarrow> entry" where
  "unmarked e = e\<lparr>e_sentAt := None, e_firstSentAt := None\<rparr>"

lemma unmarked_fields:
  assumes "unmarked e = unmarked e'"
  shows "e_id e = e_id e'" "e_hostID e = e_hostID e'" "e_segment e = e_segment e'" "e_offset e = e_offset e'"
    "e_size e = e_size e'" "describes e r = describes e' r" "e_priority e = e_priority e'"
    "e_sequence e = e_sequence e'" "e_createdAt e = e_createdAt e'"
  using assms by (cases e; cases e'; simp add: unmarked_def describes_def)+

lemma retains_marked:
  assumes inv: "spool_inv s" and e: "\<And>q. unmarked (ent s' q) = unmarked (ent s q)"
    and s': "length (heap s') = length (heap s)" "index s' = index s" "byHost s' = byHost s" "segments s' = segments s"
      "active s' = active s" "nextID s' = nextID s" "sp_live s' = sp_live s" "disk s' = disk s" "io s' = io s"
      "sp_options s' = sp_options s"
  shows "retains {} s s'"
proof -
  note f = unmarked_fields [OF e]
  have h: "holds s' = holds s" by (intro ext) (simp add: holds_def f s')
  have hl: "host_list s' h = host_list s h" for h by (simp add: host_list_def s')
  have "log_inv s' = log_inv s" by (rule log_inv_cong(1) [OF s'(2,8)])
  then have "spool_inv s'"
    using inv unfolding spool_inv_def index_inv_def host_inv_def live_inv_def files_inv_def stored_inv_def
      count_inv_def in_segment_def active_inv_def clean_io_def seg_file_def
    by (simp add: f s' h hl cong: option.case_cong)
  then show ?thesis by (simp add: retains_def s' h)
qed

lemma unmarked_simps [simp]:
  "unmarked (e\<lparr>e_sentAt := a\<rparr>) = unmarked e" "unmarked (e\<lparr>e_firstSentAt := a\<rparr>) = unmarked e"
  by (simp_all add: unmarked_def)

lemma unmarked_update:
  assumes "unmarked e = unmarked (xs ! p)"
  shows "unmarked (xs[p := e] ! q) = unmarked (xs ! q)"
  using assms by (cases "p < length xs"; cases "q = p") (simp_all add: list_update_beyond)

lemma retains_mark_sent: "spool_inv s \<Longrightarrow> retains {} s (mark_sent now p s)"
  by (rule retains_marked) (simp_all add: mark_sent_def unmarked_update)

lemma retains_unsend:
  assumes "spool_inv s"
  shows "retains {} s (foldl (\<lambda>s p. s\<lparr>heap := (heap s)[p := (ent s p)\<lparr>e_sentAt := None, e_firstSentAt := None\<rparr>]\<rparr>) s ps)"
  using assms
proof (induction ps arbitrary: s)
  case Nil
  then show ?case using keeps_retains [OF keeps_refl] by simp
next
  case (Cons p ps)
  let ?s1 = "s\<lparr>heap := (heap s)[p := (ent s p)\<lparr>e_sentAt := None, e_firstSentAt := None\<rparr>]\<rparr>"
  have r: "retains {} s ?s1"
    by (rule retains_marked [OF Cons.prems]) (simp_all add: unmarked_update)
  then have "spool_inv ?s1" by (simp only: retains_def)
  from retains_trans [OF r Cons.IH [OF this]] show ?case by simp
qed

section \<open>Writing\<close>

lemma add_entry_host_inv:
  assumes inv: "spool_inv s" and u: "map_of (index s) (e_id e) = None"
  shows "host_inv (add_entry e s)"
proof -
  let ?s = "add_entry e s" and ?p = "length (heap s)" and ?h = "e_hostID e"
  note lists = host_list_facts [OF inv]
  have lt: "q < ?p" if "map_of (index s) v = Some q" for v q
    using inv that by (auto simp: spool_inv_def index_inv_def)
  have hl: "host_list ?s h = (if h = ?h then host_list s h @ [?p] else host_list s h)" for h
    by (simp add: host_list_def add_entry_def)
  have old: "ent ?s q = ent s q" if "q < ?p" for q using that by (simp add: add_entry_def nth_append)
  have new: "ent ?s ?p = e" by (simp add: add_entry_def)
  have idx: "map_of (index ?s) = (map_of (index s))(e_id e \<mapsto> ?p)" by (simp add: add_entry_def)
  have member: "e_hostID (ent ?s q) = h \<and> map_of (index ?s) (e_id (ent ?s q)) = Some q \<and> (q = ?p \<or> q < ?p)"
    if "q \<in> set (host_list ?s h)" for h q
  proof (cases "q = ?p \<and> h = ?h")
    case False
    then have q: "q \<in> set (host_list s h)" using that hl by (auto split: if_splits)
    then have f: "e_hostID (ent s q) = h" "map_of (index s) (e_id (ent s q)) = Some q" using lists(2) by blast+
    then show ?thesis using lt [OF f(2)] old idx u by auto
  qed (simp add: new idx)
  have "distinct (host_list ?s h)" for h
  proof -
    have "?p \<notin> set (host_list s h)" using lists(2) [of ?p h] lt by blast
    then show ?thesis using hl lists(1) by auto
  qed
  moreover have "map_of (byHost ?s) h = Some ps \<Longrightarrow> ps \<noteq> []" for h ps
    using inv by (auto simp: add_entry_def spool_inv_def host_inv_def split: if_splits)
  moreover have "map_of (byHost ?s) h = Some ps \<Longrightarrow> host_list ?s h = ps" for h ps
    by (simp add: host_list_def)
  moreover have "distinct (map fst (byHost ?s))"
    using inv distinct_update by (auto simp: add_entry_def spool_inv_def host_inv_def)
  moreover have "q \<in> set (host_list ?s (e_hostID (ent ?s q)))" if "map_of (index ?s) v = Some q" for v q
  proof (cases "v = e_id e")
    case True
    then show ?thesis using that idx new hl by simp
  next
    case False
    then have v: "map_of (index s) v = Some q" using that idx by simp
    then have "q \<in> set (host_list s (e_hostID (ent s q)))" using inv by (auto simp: spool_inv_def host_inv_def)
    then show ?thesis using old [OF lt [OF v]] hl by auto
  qed
  ultimately show ?thesis unfolding host_inv_def using member by metis
qed

lemma retains_add_entry:
  assumes inv: "spool_inv s" and u: "map_of (index s) (e_id e) = None" "(kindTombstone, e_id e) \<notin> logged s" and d: "describes e r"
    and f: "map_of (disk s) (e_segment e) = Some f" "stored f (e_offset e) r"
    and st: "map_of (segments s) (e_segment e) = Some st" "int (in_segment s (e_segment e)) + 1 \<le> st_live st"
  shows "retains {} s (add_entry e s)" and "map_of (index (add_entry e s)) (e_id e) = Some (length (heap s))"
    and "holds (add_entry e s) (length (heap s)) r"
proof -
  let ?s = "add_entry e s" and ?p = "length (heap s)"
  have lt: "q < ?p" "e_id (ent s q) = v" if "map_of (index s) v = Some q" for v q
    using inv that by (auto simp: spool_inv_def index_inv_def)
  have old: "ent ?s q = ent s q" if "q < ?p" for q using that by (simp add: add_entry_def nth_append)
  have new: "ent ?s ?p = e" by (simp add: add_entry_def)
  have u': "e_id e \<notin> fst ` set (index s)" using u(1) by (simp add: map_of_eq_None_iff)
  then have idx: "index ?s = index s @ [(e_id e, ?p)]" by (simp add: add_entry_def alist_update_new)
  have oldi: "ent ?s q = ent s q" if "(v, q) \<in> set (index s)" for v q
  proof -
    have "map_of (index s) v = Some q" using inv that by (simp add: spool_inv_def index_inv_def map_of_eq_Some_iff)
    then show ?thesis using lt old by blast
  qed
  have h: "holds ?s q x" if "holds s q x" "q < ?p" for q x
    using that old by (simp add: holds_def) (simp add: add_entry_def)
  show hp: "holds ?s ?p r" using d f new by (simp add: holds_def) (simp add: add_entry_def)
  have cnt: "in_segment ?s j = in_segment s j + (if j = e_segment e then 1 else 0)" for j
  proof -
    have "filter (\<lambda>(v, q). e_segment (ent ?s q) = j) (index s) = filter (\<lambda>(v, q). e_segment (ent s q) = j) (index s)"
      using oldi by (intro filter_cong) auto
    then show ?thesis by (auto simp: in_segment_def idx new)
  qed
  have "index_inv ?s"
  proof -
    have "distinct (map fst (index ?s))" using inv u' by (simp add: idx spool_inv_def index_inv_def)
    moreover have "q < length (heap ?s) \<and> e_id (ent ?s q) = v" if "map_of (index ?s) v = Some q" for v q
    proof (cases "v = e_id e")
      case True
      then have "q = ?p" using that by (simp add: add_entry_def)
      then show ?thesis using new True by (simp add: add_entry_def)
    next
      case False
      then have "map_of (index s) v = Some q" using that by (simp add: add_entry_def)
      from lt [OF this] show ?thesis using old by (simp add: add_entry_def nth_append)
    qed
    ultimately show ?thesis unfolding index_inv_def by blast
  qed
  moreover have "live_inv ?s"
  proof -
    have eq: "(\<Sum>(v, q) \<leftarrow> index s. int (e_size (ent ?s q))) = (\<Sum>(v, q) \<leftarrow> index s. int (e_size (ent s q)))"
      using oldi by (intro arg_cong [where f = sum_list] map_cong) auto
    have "sp_live ?s = sp_live s + int (e_size e)" by (simp add: add_entry_def)
    then show ?thesis using inv new eq by (simp add: spool_inv_def live_inv_def idx)
  qed
  moreover have "stored_inv ?s"
  proof -
    have seg: "segments ?s = segments s" by (simp add: add_entry_def)
    have "(\<exists>x. holds ?s q x) \<and> map_of (segments ?s) (e_segment (ent ?s q)) \<noteq> None" if "map_of (index ?s) v = Some q" for v q
    proof (cases "v = e_id e")
      case True
      then have "q = ?p" using that by (simp add: add_entry_def)
      then show ?thesis using hp st(1) new seg by auto
    next
      case False
      then have v: "map_of (index s) v = Some q" using that by (simp add: add_entry_def)
      then have "(\<exists>x. holds s q x) \<and> map_of (segments s) (e_segment (ent s q)) \<noteq> None"
        using inv unfolding spool_inv_def stored_inv_def by blast
      then show ?thesis using h lt(1) [OF v] old [OF lt(1) [OF v]] seg by auto
    qed
    then show ?thesis unfolding stored_inv_def by blast
  qed
  moreover have "count_inv ?s"
    using inv st by (auto simp: spool_inv_def count_inv_def cnt) (auto simp: add_entry_def)
  moreover have "files_inv ?s" "clean_io ?s" "active_inv ?s"
    using inv by (auto simp: spool_inv_def files_inv_def clean_io_def active_inv_def seg_file_def add_entry_def split: option.splits)
  moreover have "log_inv ?s"
    using inv u(2) by (auto simp: spool_inv_def log_inv_def logged_def add_entry_def)
  ultimately have "spool_inv ?s" using add_entry_host_inv [OF inv u(1)] by (simp add: spool_inv_def)
  moreover have "map_of (index ?s) v = Some q \<and> holds ?s q x" if "map_of (index s) v = Some q" "holds s q x" for v q x
  proof -
    have "v \<noteq> e_id e" using that u by auto
    then show ?thesis using that h lt(1) [OF that(1)] by (simp add: add_entry_def)
  qed
  ultimately show "retains {} s ?s" unfolding retains_def by (simp add: add_entry_def)
  show "map_of (index ?s) (e_id e) = Some ?p" by (simp add: add_entry_def)
qed

end
