(* ===== verification/Spool_Runs.thy ===== *)
theory Spool_Runs
  imports Spool_Ops
begin

text \<open>
  Runs of the spool: every exported operation as a step, what each may forget, and the properties
  of any sequence of them.
\<close>

section \<open>Bytes in use\<close>

lemma sp_live_sum: "spool_inv s \<Longrightarrow> sp_live s = (\<Sum>(u, p) \<in> set (index s). int (e_size (ent s p)))"
  by (simp add: spool_inv_def live_inv_def index_inv_def sum_list_distinct_conv_sum_set distinct_map)

lemma keeps_live:
  assumes inv: "spool_inv s" and k: "keeps D s s'"
  shows "sp_live s' \<le> sp_live s"
proof -
  have pairs: "(u, p) \<in> set (index s)" "p < length (heap s)" if "(u, p) \<in> set (index s')" for u p
  proof -
    have "map_of (index s') u = Some p"
      using keeps_inv [OF k] that by (simp add: spool_inv_def index_inv_def map_of_eq_Some_iff)
    then have "map_of (index s) u = Some p" using k unfolding keeps_def by blast
    then show "(u, p) \<in> set (index s)" "p < length (heap s)"
      using inv map_of_SomeD by (force, auto simp: spool_inv_def index_inv_def)
  qed
  have "sp_live s' = (\<Sum>(u, p) \<in> set (index s'). int (e_size (ent s' p)))"
    by (rule sp_live_sum [OF keeps_inv [OF k]])
  also have "\<dots> = (\<Sum>(u, p) \<in> set (index s'). int (e_size (ent s p)))"
    using core_fields(9) [OF keeps_core(1) [OF k pairs(2)]] by (intro sum.cong) auto
  also have "\<dots> \<le> (\<Sum>(u, p) \<in> set (index s). int (e_size (ent s p)))"
    using pairs(1) by (intro sum_mono2) auto
  finally show ?thesis using sp_live_sum [OF inv] by simp
qed

text \<open>A record that goes frees its bytes.\<close>

lemma delete_live:
  assumes inv: "spool_inv s" and k: "keeps {u} s s'" and u: "map_of (index s) u = Some p" "map_of (index s') u = None"
  shows "sp_live s' \<le> sp_live s - int (e_size (ent s p))"
proof -
  have k1: "keeps {u} s (drop_entry p s)" by (rule keeps_drop_entry(1) [OF inv u(1)])
  let ?f = "\<lambda>(v, q). int (e_size (ent s q))"
  have id: "e_id (ent s p) = u" using inv u(1) by (auto simp: spool_inv_def index_inv_def)
  have pairs: "(v, q) \<in> set (index (drop_entry p s))" "q < length (heap s)" if "(v, q) \<in> set (index s')" for v q
  proof -
    have v: "map_of (index s') v = Some q"
      using keeps_inv [OF k] that by (simp add: spool_inv_def index_inv_def map_of_eq_Some_iff)
    then have "map_of (index s) v = Some q" "v \<noteq> u" using k u(2) unfolding keeps_def by (blast, auto)
    then show "(v, q) \<in> set (index (drop_entry p s))" "q < length (heap s)"
      using inv map_of_SomeD id by (force simp: alist_delete_filter, auto simp: spool_inv_def index_inv_def)
  qed
  have "sp_live s' = (\<Sum>(v, q) \<in> set (index s'). int (e_size (ent s' q)))" by (rule sp_live_sum [OF keeps_inv [OF k]])
  also have "\<dots> = (\<Sum>x \<in> set (index s'). ?f x)"
    using core_fields(9) [OF keeps_core(1) [OF k pairs(2)]] by (intro sum.cong) auto
  also have "\<dots> \<le> (\<Sum>x \<in> set (index (drop_entry p s)). ?f x)" using pairs(1) by (intro sum_mono2) auto
  also have "\<dots> = sp_live (drop_entry p s)" using sp_live_sum [OF keeps_inv [OF k1]] by simp
  finally show ?thesis by simp
qed

section \<open>Writing a record\<close>

lemma frames_about_disjoint:
  assumes "D \<inter> D' = {}"
  shows "frames_about D \<inter> frames_about D' = {}"
proof -
  have "x \<notin> frames_about D'" if "x \<in> frames_about D" for x
  proof -
    have "(\<exists>u. x = (kindTombstone, u) \<and> u \<in> D) \<or> (\<exists>r. x = (kindRecord, encode r) \<and> fits r \<and> r_ID r \<in> D)"
      using that by (auto simp: frames_about_def)
    then show ?thesis using assms by auto
  qed
  then show ?thesis by blast
qed

lemma indexed_written:
  assumes "spool_inv s" "map_of (index s) u = Some p"
  shows "u \<in> written s"
proof -
  obtain r where r: "holds s p r" using assms unfolding spool_inv_def stored_inv_def by blast
  have "e_id (ent s p) = u" using assms by (auto simp: spool_inv_def index_inv_def)
  then have "r_ID r = u" using r by (auto simp: holds_def describes_def)
  then show ?thesis using written_record holds_logged [OF r] by blast
qed

lemma indexed_None: "spool_inv s \<Longrightarrow> u \<notin> written s \<Longrightarrow> map_of (index s) u = None"
  using indexed_written by (cases "map_of (index s) u") auto

lemma written_mono: "logged s' \<subseteq> logged s \<union> frames_about D \<Longrightarrow> written s' \<subseteq> written s \<union> D"
  using frames_about_disjoint [of D] unfolding written_def by blast

lemma keeps_fresh:
  assumes "spool_inv s" "keeps D s s'" "D \<subseteq> {u. map_of (index s) u \<noteq> None}" "u \<notin> written s"
  shows "u \<notin> written s'"
proof -
  have "u \<notin> D" using assms(1,3,4) indexed_written by blast
  then show ?thesis using written_mono [of s' s D] assms(2,4) unfolding keeps_def by blast
qed

lemma describes_entry_of: "fits r \<Longrightarrow> describes (entry_of env r (length (frame kindRecord (encode r))) i off) r"
  using fits_size [of r] by (simp add: describes_def entry_of_def Size_def headerSize_def)

lemma retains_absent:
  assumes "retains D s s'" "\<And>u. u \<in> D \<Longrightarrow> map_of (index s) u = None"
  shows "retains {} s s'"
  using assms unfolding retains_def by (metis option.distinct(1))

lemma retains_write:
  assumes inv: "spool_inv s" and r: "fits r" "r_ID r \<notin> written s"
    and w: "writeLocked env r s = (err, s')"
  shows "retains {} s s'" and "sp_live s' \<le> sp_live s + int (Size r)"
    and "err = None \<Longrightarrow> \<exists>p. map_of (index s') (r_ID r) = Some p \<and> holds s' p r"
proof -
  let ?fr = "frame kindRecord (encode r)"
  obtain err1 s1 where ro: "roll_if_full s = (err1, s1)" by (cases "roll_if_full s")
  have k1: "keeps {} s s1" by (rule keeps_roll_if_full [OF inv ro])
  note inv1 = keeps_inv [OF k1]
  consider (stop) "s' = s1" "err \<noteq> None"
    | (torn) a e where "active s1 = Some a" "append_frame ?fr a s1 = (Inl e, s')" "err \<noteq> None"
    | (kept) a off s2 where "active s1 = Some a" "append_frame ?fr a s1 = (Inr off, s2)" "err = None"
        "s' = add_entry (entry_of env r (length ?fr) (sg_id a) off)
           (set_state (sg_id a) (\<lambda>st. st\<lparr>st_size := sg_size a + length ?fr, st_live := st_live st + 1\<rparr>) s2)"
    using w ro by (auto simp: writeLocked_def Let_def split: option.splits prod.splits sum.splits)
  then have "retains {} s s' \<and> sp_live s' \<le> sp_live s + int (Size r)
    \<and> (err = None \<longrightarrow> (\<exists>p. map_of (index s') (r_ID r) = Some p \<and> holds s' p r))"
  proof cases
    case stop
    then show ?thesis using keeps_retains [OF k1] keeps_live [OF inv k1] by auto
  next
    case torn
    have k2: "keeps {} s1 s'" by (rule keeps_append_failed [OF inv1 torn(1,2)])
    then show ?thesis
      using torn(3) keeps_retains [OF keeps_trans [OF k1 k2]] keeps_live [OF inv k1] keeps_live [OF inv1 k2] by auto
  next
    case kept
    have new: "r_ID r \<notin> written s1" using keeps_fresh [OF inv k1 _ r(2)] by simp
    have k2: "keeps {r_ID r} s1 s2"
      using r(1) new fits_size [OF r(1)] by (intro keeps_append_frame [OF inv1 kept(1,2)]) (auto simp: may_append_def)
    let ?e = "entry_of env r (length ?fr) (sg_id a) off"
    let ?g = "\<lambda>st. st\<lparr>st_size := sg_size a + length ?fr, st_live := st_live st + 1\<rparr> :: segmentState"
    let ?t = "set_state (sg_id a) ?g s2"
    note inv2 = keeps_inv [OF k2]
    have k3: "keeps {} s2 ?t"
      using inv2 by (intro keeps_set_state [OF inv2]) (force simp: spool_inv_def count_inv_def)
    have k: "keeps {r_ID r} s ?t" using keeps_trans [OF keeps_trans [OF k1 k2] k3] by simp
    note fl = active_file [OF inv1 kept(1)]
    obtain l where off: "off = sg_size a" and s2: "disk s2 = AList.update (sg_id a) (seg_file s1 (sg_id a) @ ?fr) (disk s1)"
      "segments s2 = segments s1" "index s2 = index s1"
      using append_frame_Inr [OF kept(2)] by auto
    obtain st where st: "map_of (segments s2) (sg_id a) = Some st" using fl(3) s2 by auto
    have cnt: "int (in_segment s2 (sg_id a)) \<le> st_live st" using inv2 st unfolding spool_inv_def count_inv_def by blast
    have id: "e_id ?e = r_ID r" "e_segment ?e = sg_id a" "e_offset ?e = off" by (simp_all add: entry_of_def)
    have lt: "logged ?t = insert (kindRecord, encode r) (logged s1)"
      using logged_append [OF fl(1,4) _ s2(1)] fits_size [OF r(1)] log_inv_cong(2) [of ?t s2] by simp
    have "(kindTombstone, r_ID r) \<notin> logged s1" using new by (auto simp: written_def)
    then have u2: "(kindTombstone, e_id ?e) \<notin> logged ?t" unfolding lt id(1) by simp
    have u1: "map_of (index ?t) (e_id ?e) = None" using indexed_None [OF inv1 new] s2(3) unfolding id(1) by simp
    have f: "map_of (disk ?t) (e_segment ?e) = Some (seg_file s1 (sg_id a) @ ?fr)" using s2 id by simp
    have sto: "stored (seg_file s1 (sg_id a) @ ?fr) (e_offset ?e) r"
      using stored_at_end [OF fl(4) r(1)] fl(2) off id by simp
    have st': "map_of (segments ?t) (e_segment ?e) = Some (?g st)" using st id by (simp add: map_of_set_state)
    have cnt': "int (in_segment ?t (e_segment ?e)) + 1 \<le> st_live (?g st)" using cnt id by (simp add: in_segment_def)
    note add = retains_add_entry [OF keeps_inv [OF k] u1 u2 describes_entry_of [OF r(1)] f sto st' cnt']
    have "sp_live s' = sp_live ?t + int (Size r)"
      using fits_size [OF r(1)] by (simp add: kept(4) add_entry_def entry_of_def Size_def)
    moreover have "retains {} s s'"
      using retains_trans [OF keeps_retains [OF k] add(1)] kept(4) indexed_None [OF inv r(2)]
      by (intro retains_absent [of "{r_ID r}"]) auto
    moreover have "map_of (index s') (r_ID r) = Some (length (heap ?t))" "holds s' (length (heap ?t)) r"
      using add(2,3) kept(4) id by simp_all
    ultimately show ?thesis using keeps_live [OF inv k] by auto
  qed
  then show "retains {} s s'" "sp_live s' \<le> sp_live s + int (Size r)"
    "err = None \<Longrightarrow> \<exists>p. map_of (index s') (r_ID r) = Some p \<and> holds s' p r" by blast+
qed

section \<open>Appending a record\<close>

definition sited :: "spool \<Rightarrow> spool_record \<Rightarrow> spool_record" where
  "sited s r = (if r_Site r = [] then r\<lparr>r_Site := o_Site (sp_options s)\<rparr> else r)"

lemma sited_fields [simp]:
  "r_ID (sited s r) = r_ID r" "r_HostID (sited s r) = r_HostID r" "r_Stream (sited s r) = r_Stream r"
  "r_Priority (sited s r) = r_Priority r"
  by (simp_all add: sited_def)

definition unsent_inventory :: "string \<Rightarrow> entry \<Rightarrow> bool" where
  "unsent_inventory h e = ((e_stream e = StreamInventory \<and> e_sentAt e = None) \<and> e_hostID e = h)"

definition unsent_metric :: "entry \<Rightarrow> bool" where
  "unsent_metric e = (e_stream e = StreamMetric \<and> e_sentAt e = None)"

lemma placeless_host: "placeless (\<lambda>e. e_hostID e = h)"
  unfolding placeless_def using core_fields(2) by metis

lemma placeless_unsent: "placeless (\<lambda>e. e_stream e = w \<and> e_sentAt e = None)"
  unfolding placeless_def using core_fields(4,10) by metis

lemma hosts_own: "spool_inv s \<Longrightarrow> \<forall>p \<in> set (host_list s h). e_hostID (ent s p) = h"
  using host_list_facts(2) by blast

lemma keeps_coalesce:
  assumes "spool_inv s" "env_ok env"
  shows "keeps (forgotten (unsent_inventory h) s) s (coalesceInventoryLocked env h s)"
  unfolding coalesceInventoryLocked_def unsent_inventory_def [abs_def]
  by (rule keeps_delete_each [OF assms listed_hosts [OF assms(1)] placeless_unsent placeless_host hosts_own [OF assms(1)]])

lemma keeps_evict_oldest:
  assumes inv: "spool_inv s" and env: "env_ok env" and ev: "evictOldestMetricLocked env n s = (b, s')"
  shows "keeps (forgotten unsent_metric s) s s'"
proof -
  let ?ps = "sort_key (\<lambda>p. e_createdAt (ent s p))
    (filter (\<lambda>p. e_stream (ent s p) = StreamMetric \<and> e_sentAt (ent s p) = None) (shuffle env (map snd (index s))))"
  have "p < length (heap s) \<and> map_of (index s) (e_id (ent s p)) = Some p" if "p \<in> set ?ps" for p
  proof -
    have "p \<in> set (map snd (index s))" using that env_ok_set [OF env] by auto
    then obtain u where "(u, p) \<in> set (index s)" by auto
    then have "map_of (index s) u = Some p" using inv by (simp add: spool_inv_def index_inv_def map_of_eq_Some_iff)
    then show ?thesis using inv by (auto simp: spool_inv_def index_inv_def)
  qed
  then have "listed s ?ps" by (simp add: listed_def)
  moreover have "\<forall>p \<in> set ?ps. unsent_metric (ent s p)" by (simp add: unsent_metric_def)
  moreover have "placeless unsent_metric" unfolding unsent_metric_def [abs_def] by (rule placeless_unsent)
  moreover have "evict_metrics env n ?ps False s = (b, s')" using ev by (simp only: evictOldestMetricLocked_def)
  ultimately show ?thesis by (intro keeps_evict [OF inv env])
qed

text \<open>Room checked is room enough.\<close>

lemma roomLocked_None:
  "roomLocked env pr n s = None \<Longrightarrow> 0 \<le> CriticalReserveBytes (sp_options s) \<Longrightarrow> sp_live s + int n \<le> MaxBytes (sp_options s)"
  by (auto simp: roomLocked_def Let_def split: if_splits)

definition append_forgets :: "spool_env \<Rightarrow> spool_record \<Rightarrow> spool \<Rightarrow> string set" where
  "append_forgets env r s =
     (if Full env (sited s r) then forgotten (unsent_inventory (r_HostID r)) s else {})
     \<union> (if r_Stream r = StreamMetric then forgotten unsent_metric s else {})"

lemma forgotten_indexed: "forgotten P s \<subseteq> {u. map_of (index s) u \<noteq> None}"
  by (auto simp: forgotten_def)

text \<open>What happens before the room is checked the last time.\<close>

definition make_room :: "spool_env \<Rightarrow> spool_record \<Rightarrow> spool \<Rightarrow> spool_error option \<times> spool" where
  "make_room env r s0 =
     (let s = (if r_Stream r = StreamInventory \<and> Full env r
               then coalesceInventoryLocked env (r_HostID r) s0 else s0);
          refused = roomLocked env (r_Priority r) (Size r) s;
          (evicted, s) = (if refused \<noteq> None \<and> r_Stream r = StreamMetric
                          then evictOldestMetricLocked env (Size r) s else (False, s))
      in (if evicted then roomLocked env (r_Priority r) (Size r) s else refused, s))"

lemma Append_make_room:
  "Append env r0 s0 =
     (if closed s0 then (Some ErrClosed, s0)
      else case make_room env (sited s0 r0) s0 of
          (Some e, s) \<Rightarrow> notKeptLocked (sited s0 r0) e (s\<lparr>dropped := dropped s + 1\<rparr>)
        | (None, s) \<Rightarrow>
            (case writeLocked env (sited s0 r0) s of
               (Some e, s) \<Rightarrow> notKeptLocked (sited s0 r0) e s
             | (None, s) \<Rightarrow>
                 if Durable (r_Stream (sited s0 r0)) then
                   (case (case active s of None \<Rightarrow> (Some IOError, s) | Some a \<Rightarrow> sync_segment a s) of
                      (Some e, s) \<Rightarrow> (Some e, s\<lparr>flushErr := Some e\<rparr>)
                    | (None, s) \<Rightarrow> (None, s\<lparr>flushErr := None, dirty := False\<rparr>))
                 else (None, s\<lparr>dirty := True\<rparr>)))"
  unfolding Append_def make_room_def sited_def Let_def by (simp only: case_prod_beta fst_conv snd_conv)

lemma append_forgets_indexed: "append_forgets env r s \<subseteq> {u. map_of (index s) u \<noteq> None}"
  using forgotten_indexed unfolding append_forgets_def by simp

lemma keeps_make_room:
  assumes inv: "spool_inv s" and env: "env_ok env" and m: "make_room env (sited s r) s = (refused, s')"
  shows "keeps (append_forgets env r s) s s'"
    and "refused = None \<Longrightarrow> roomLocked env (r_Priority r) (Size (sited s r)) s' = None"
proof -
  let ?r = "sited s r"
  define s1 where "s1 = (if r_Stream r = StreamInventory \<and> Full env ?r then coalesceInventoryLocked env (r_HostID r) s else s)"
  define ref1 where "ref1 = roomLocked env (r_Priority r) (Size ?r) s1"
  obtain ev where ev: "(if ref1 \<noteq> None \<and> r_Stream r = StreamMetric then evictOldestMetricLocked env (Size ?r) s1 else (False, s1)) = (ev, s')"
    and ref: "refused = (if ev then roomLocked env (r_Priority r) (Size ?r) s' else ref1)"
    using m unfolding make_room_def Let_def sited_fields s1_def [symmetric] ref1_def [symmetric]
    by (auto split: prod.splits)
  have k1: "keeps (if Full env ?r then forgotten (unsent_inventory (r_HostID r)) s else {}) s s1"
    using keeps_coalesce [OF inv env, of "r_HostID r"] keeps_refl [OF inv] by (simp add: s1_def)
  have k2: "keeps (if r_Stream r = StreamMetric then forgotten unsent_metric s else {}) s1 s'"
  proof (cases "ref1 \<noteq> None \<and> r_Stream r = StreamMetric")
    case True
    have "keeps (forgotten unsent_metric s1) s1 s'"
      using True ev by (intro keeps_evict_oldest [OF keeps_inv [OF k1] env]) simp
    moreover have "forgotten unsent_metric s1 \<subseteq> forgotten unsent_metric s"
      using placeless_unsent by (intro forgotten_keeps [OF inv k1]) (simp add: unsent_metric_def [abs_def])
    ultimately show ?thesis using True keeps_mono by simp
  next
    case False
    then have "s' = s1" using ev by auto
    then show ?thesis using keeps_refl [OF keeps_inv [OF k1]] by simp
  qed
  show "keeps (append_forgets env r s) s s'" using keeps_trans [OF k1 k2] by (simp add: append_forgets_def)
  show "roomLocked env (r_Priority r) (Size ?r) s' = None" if "refused = None"
    using that ref ev by (cases ev) (auto simp: ref1_def split: if_splits)
qed

lemma keeps_sync_or_fail:
  assumes "spool_inv s" "(case active s of None \<Rightarrow> (Some IOError, s) | Some a \<Rightarrow> sync_segment a s) = (err, s')"
  shows "keeps {} s s'"
  using assms keeps_sync keeps_refl by (cases "active s") fastforce+

lemma append_tail:
  assumes inv: "spool_inv s" and t: "(if durable then
     (case (case active s of None \<Rightarrow> (Some IOError, s) | Some a \<Rightarrow> sync_segment a s) of
        (Some e, s) \<Rightarrow> (Some e, s\<lparr>flushErr := Some e\<rparr>)
      | (None, s) \<Rightarrow> (None, s\<lparr>flushErr := None, dirty := False\<rparr>))
     else (None, s\<lparr>dirty := True\<rparr>)) = (err, s')"
  shows "keeps {} s s'"
proof (cases durable)
  case True
  obtain err1 s1 where y: "(case active s of None \<Rightarrow> (Some IOError, s) | Some a \<Rightarrow> sync_segment a s) = (err1, s1)"
    by (cases "(case active s of None \<Rightarrow> (Some IOError, s) | Some a \<Rightarrow> sync_segment a s)")
  have k1: "keeps {} s s1" by (rule keeps_sync_or_fail [OF inv y])
  have "s' = s1\<lparr>flushErr := err1\<rparr> \<or> s' = s1\<lparr>flushErr := None, dirty := False\<rparr>"
    using t True y by (auto split: option.splits)
  then show ?thesis
    using keeps_then_count(4) [OF k1] keeps_then_count(3) [OF keeps_then_count(4) [OF k1]] by auto
next
  case False
  then show ?thesis using t keeps_count(3) [OF inv] by auto
qed

lemma keeps_not_kept:
  "keeps D s s' \<Longrightarrow> notKeptLocked r e s' = (err, s'') \<Longrightarrow> keeps D s s'' \<and> err \<noteq> None"
  using keeps_then_count(4) by (auto simp: notKeptLocked_def split: if_splits)

lemma retains_append:
  assumes inv: "spool_inv s" and env: "env_ok env"
    and r: "fits (sited s r)" "r_ID r \<notin> written s"
    and ap: "Append env r s = (err, s')"
  shows "retains (append_forgets env r s) s s'
    \<and> (0 \<le> CriticalReserveBytes (sp_options s) \<longrightarrow>
          sp_live s' \<le> (if err = None then MaxBytes (sp_options s) else max (MaxBytes (sp_options s)) (sp_live s)))
    \<and> (err = None \<longrightarrow> (\<exists>p. map_of (index s') (r_ID r) = Some p \<and> holds s' p (sited s r)))"
proof (cases "closed s")
  case True
  then show ?thesis using ap keeps_retains [OF keeps_refl [OF inv]] by (auto simp: Append_make_room)
next
  case opened: False
  let ?r = "sited s r" and ?D = "append_forgets env r s"
  obtain refused s1 where m: "make_room env ?r s = (refused, s1)" by (cases "make_room env ?r s")
  note k1 = keeps_make_room(1) [OF inv env m]
  note l1 = keeps_live [OF inv k1]
  show ?thesis
  proof (cases refused)
    case (Some e)
    then have "notKeptLocked ?r e (s1\<lparr>dropped := dropped s1 + 1\<rparr>) = (err, s')"
      using ap opened m by (simp add: Append_make_room)
    with keeps_not_kept [OF keeps_then_count(1) [OF k1]] have k: "keeps ?D s s'" "err \<noteq> None" by blast+
    then show ?thesis using keeps_retains [OF k(1)] keeps_live [OF inv k(1)] by auto
  next
    case None
    obtain err2 s2 where w: "writeLocked env ?r s1 = (err2, s2)" by (cases "writeLocked env ?r s1")
    have fresh: "r_ID ?r \<notin> written s1"
      using keeps_fresh [OF inv k1 append_forgets_indexed r(2)] by simp
    note wr = retains_write [OF keeps_inv [OF k1] r(1) fresh w]
    have inv2: "spool_inv s2" using wr(1) by (simp add: retains_def)
    have k3: "keeps {} s2 s' \<and> (err = None \<longrightarrow> err2 = None)"
    proof (cases err2)
      case None
      then show ?thesis using ap opened m w \<open>refused = None\<close> append_tail [OF inv2] by (simp add: Append_make_room)
    next
      case (Some e)
      then have "notKeptLocked ?r e s2 = (err, s')" using ap opened m w \<open>refused = None\<close> by (simp add: Append_make_room)
      then show ?thesis using keeps_not_kept [OF keeps_refl [OF inv2]] by blast
    qed
    have "retains ?D s s'"
      using retains_trans [OF retains_trans [OF keeps_retains [OF k1] wr(1)] keeps_retains] k3 by fastforce
    moreover have "sp_live s' \<le> MaxBytes (sp_options s)" if "0 \<le> CriticalReserveBytes (sp_options s)"
    proof -
      have "sp_options s1 = sp_options s" using k1 by (simp add: keeps_def)
      then have "sp_live s1 + int (Size ?r) \<le> MaxBytes (sp_options s)"
        using roomLocked_None keeps_make_room(2) [OF inv env m None] that by metis
      then show ?thesis using wr(2) keeps_live [OF inv2] k3 by fastforce
    qed
    moreover have "\<exists>p. map_of (index s') (r_ID r) = Some p \<and> holds s' p ?r" if ok: "err = None"
    proof -
      obtain p where p: "map_of (index s2) (r_ID r) = Some p" "holds s2 p ?r" using wr(3) k3 ok by auto
      then have "map_of (index s') (r_ID r) = Some p" using keeps_nothing_index k3 by metis
      then show ?thesis using p k3 unfolding keeps_def by blast
    qed
    ultimately show ?thesis by (auto simp: le_max_iff_disj)
  qed
qed

section \<open>Sending\<close>

definition calls_succeed :: "spool \<Rightarrow> bool" where
  "calls_succeed s = (\<forall>x \<in> set (io s). x = Done)"

lemma readLocked_live:
  assumes "holds s p r" "readLocked p s = (res, s')"
  shows "res = Inr r \<or> \<not> calls_succeed s"
proof -
  obtain x t where t: "syscall s = (x, t)" by (cases "syscall s")
  have "record_at t p = Some r" using holds_record_at [OF assms(1)] syscall_shape [OF t] record_at_cong [of t s p] by auto
  then show ?thesis
    using assms(2) t by (auto simp: readLocked_def calls_succeed_def syscall_def split: outcome.splits list.splits)
qed

definition indexed :: "spool \<Rightarrow> nat list \<Rightarrow> string set" where
  "indexed s ps = {u. \<exists>p \<in> set ps. map_of (index s) u = Some p}"

lemma indexed_listed:
  assumes "spool_inv s" "\<forall>p \<in> set ps. \<exists>u. map_of (index s) u = Some p"
  shows "listed s ps"
  using assms by (fastforce simp: listed_def spool_inv_def index_inv_def)

text \<open>Reading one record, and marking it sent or dropping it.\<close>

lemma retains_send_one:
  assumes inv: "spool_inv s" and env: "env_ok env" and p: "map_of (index s) u = Some p" and rd: "readLocked p s = (res, s1)"
    and s': "s' = (case res of Inl e \<Rightarrow> snd (deleteLocked env p (s1\<lparr>dropped := dropped s1 + 1\<rparr>)) | Inr r \<Rightarrow> mark_sent now p s1)"
  shows "retains (if calls_succeed s then {} else {u}) s s'" and "sp_live s' \<le> sp_live s"
    and "\<And>r. res = Inr r \<Longrightarrow> record_at s p = Some r" and "calls_succeed s \<Longrightarrow> \<exists>r. res = Inr r"
    and "\<And>v q. map_of (index s') v = Some q \<Longrightarrow> map_of (index s) v = Some q"
proof -
  obtain l where l: "s1 = s\<lparr>io := l\<rparr>" "set l \<subseteq> set (io s)" using readLocked_shape(1) [OF rd] by blast
  have k1: "keeps {} s s1" using inv l by (intro keeps_quiet) simp_all
  obtain r0 where r0: "holds s p r0" using inv p unfolding spool_inv_def stored_inv_def by blast
  show "\<And>r. res = Inr r \<Longrightarrow> record_at s p = Some r" by (rule readLocked_shape(2) [OF rd])
  show "calls_succeed s \<Longrightarrow> \<exists>r. res = Inr r" using readLocked_live [OF r0 rd] by blast
  show "retains (if calls_succeed s then {} else {u}) s s'" "sp_live s' \<le> sp_live s"
    "\<And>v q. map_of (index s') v = Some q \<Longrightarrow> map_of (index s) v = Some q"
  proof (atomize(full), cases res)
    case (Inr r)
    then have t: "s' = mark_sent now p s1" using s' by simp
    have "retains {} s s'" unfolding t
      using retains_trans [OF keeps_retains [OF k1] retains_mark_sent [OF keeps_inv [OF k1]]] by simp
    moreover have "sp_live s' = sp_live s" "index s' = index s" by (simp_all add: t l mark_sent_def)
    ultimately show "retains (if calls_succeed s then {} else {u}) s s' \<and> sp_live s' \<le> sp_live s
        \<and> (\<forall>v q. map_of (index s') v = Some q \<longrightarrow> map_of (index s) v = Some q)"
      using retains_mono [of "{}"] by simp
  next
    case (Inl e)
    let ?t = "s1\<lparr>dropped := dropped s1 + 1\<rparr>"
    have fail: "\<not> calls_succeed s" using readLocked_live [OF r0 rd] Inl by simp
    have k2: "keeps {} s ?t" by (rule keeps_then_count(1) [OF k1])
    have pt: "map_of (index ?t) u = Some p" using p keeps_nothing_index [OF k2] by simp
    obtain err where "deleteLocked env p ?t = (err, s')" using s' Inl by (cases "deleteLocked env p ?t") simp
    from keeps_trans [OF k2 keeps_delete [OF keeps_inv [OF k2] env pt this]] have k: "keeps {u} s s'" by simp
    show "retains (if calls_succeed s then {} else {u}) s s' \<and> sp_live s' \<le> sp_live s
        \<and> (\<forall>v q. map_of (index s') v = Some q \<longrightarrow> map_of (index s) v = Some q)"
      using keeps_retains [OF k] keeps_live [OF inv k] fail k by (simp add: keeps_def)
  qed
qed

lemma retains_calls: "retains D s s' \<Longrightarrow> calls_succeed s \<Longrightarrow> calls_succeed s'"
  unfolding retains_def calls_succeed_def by blast

lemma retains_record_at:
  assumes "spool_inv s" "retains D s s'" "map_of (index s) u = Some p" "u \<notin> D"
  shows "record_at s' p = record_at s p" and "map_of (index s') u = Some p"
proof -
  obtain r where r: "holds s p r" using assms(1,3) unfolding spool_inv_def stored_inv_def by blast
  then have "map_of (index s') u = Some p \<and> holds s' p r" using assms(2-4) unfolding retains_def by blast
  then show "record_at s' p = record_at s p" "map_of (index s') u = Some p"
    using holds_record_at r by auto
qed

lemma retains_send:
  assumes inv: "spool_inv s" and env: "env_ok env" and ps: "distinct ps" "\<forall>p \<in> set ps. \<exists>u. map_of (index s) u = Some p"
    and snd: "send_each env ps s = (rs, s')"
  shows "retains (if calls_succeed s then {} else indexed s ps) s s' \<and> sp_live s' \<le> sp_live s
    \<and> (calls_succeed s \<longrightarrow> map Some rs = map (record_at s) ps)"
  using inv ps snd
proof (induction ps arbitrary: s rs)
  case Nil
  then show ?case using keeps_retains [OF keeps_refl [OF Nil.prems(1)]] by auto
next
  case (Cons p ps)
  obtain u where u: "map_of (index s) u = Some p" using Cons.prems(3) by auto
  obtain res s1 where rd: "readLocked p s = (res, s1)" by (cases "readLocked p s")
  define t where "t = (case res of Inl e \<Rightarrow> snd (deleteLocked env p (s1\<lparr>dropped := dropped s1 + 1\<rparr>)) | Inr r \<Rightarrow> mark_sent (env_now env) p s1)"
  note one = retains_send_one [OF Cons.prems(1) env u rd t_def]
  have inv1: "spool_inv t" using one(1) by (simp add: retains_def)
  obtain rs1 where rs1: "send_each env ps t = (rs1, s')" and rs: "rs = (case res of Inl e \<Rightarrow> rs1 | Inr r \<Rightarrow> r # rs1)"
    using Cons.prems(4) rd by (cases res) (auto simp: t_def split: prod.splits)
  have stay: "map_of (index t) v = Some q \<and> record_at t q = record_at s q" if "q \<in> set ps" "map_of (index s) v = Some q" for v q
  proof -
    have "q \<noteq> p" using Cons.prems(2) that(1) by auto
    then have "v \<notin> (if calls_succeed s then {} else {u})" using u that(2) by auto
    then show ?thesis using retains_record_at [OF Cons.prems(1) one(1) that(2)] by simp
  qed
  have ps1: "\<forall>q \<in> set ps. \<exists>v. map_of (index t) v = Some q" using stay Cons.prems(3) by fastforce
  note IH = Cons.IH [OF inv1 _ ps1 rs1]
  have sub: "indexed t ps \<subseteq> indexed s (p # ps)" using one(5) by (auto simp: indexed_def)
  show ?case
  proof (cases "calls_succeed s")
    case True
    then have "calls_succeed t" using retains_calls [OF one(1)] by blast
    moreover obtain r where "res = Inr r" "record_at s p = Some r" using one(3,4) True by blast
    moreover have "map (record_at t) ps = map (record_at s) ps" using stay Cons.prems(3) by fastforce
    ultimately show ?thesis
      using IH Cons.prems(2) retains_trans [OF one(1), of "{}" s'] one(2) True rs by auto
  next
    case False
    have ih: "retains (if calls_succeed t then {} else indexed t ps) t s'" "sp_live s' \<le> sp_live t"
      using IH Cons.prems(2) by simp_all
    have a: "retains (indexed s (p # ps)) s t"
      using False u by (intro retains_mono [OF one(1)]) (auto simp: indexed_def)
    have b: "retains (indexed s (p # ps)) t s'"
      using sub by (intro retains_mono [OF ih(1)]) simp
    show ?thesis using retains_trans [OF a b] False ih(2) one(2) by simp
  qed
qed

definition next_forgets :: "spool_env \<Rightarrow> string \<Rightarrow> spool \<Rightarrow> string set" where
  "next_forgets env h s =
     forgotten (\<lambda>e. past_expiry (env_now env) e \<and> e_hostID e = h) s
     \<union> (if calls_succeed s then {} else forgotten (\<lambda>e. e_hostID e = h) s)"

lemma keeps_expire:
  assumes "spool_inv s" "env_ok env"
  shows "keeps (forgotten (\<lambda>e. past_expiry (env_now env) e \<and> e_hostID e = h) s) s (expireLocked env h s)"
  unfolding expireLocked_def
  by (rule keeps_expire_each [OF assms listed_hosts [OF assms(1)] placeless_host hosts_own [OF assms(1)]])

text \<open>The entries \<open>Next\<close> sends, and how many it may.\<close>

definition next_room :: "spool_env \<Rightarrow> string \<Rightarrow> int \<Rightarrow> spool \<Rightarrow> int" where
  "next_room env h limit s =
     (let free = MaxInflightPerHost (sp_options s) - int (length (filter (\<lambda>p. in_flight env s (ent s p)) (host_list s h)))
      in if limit > 0 \<and> limit < free then limit else free)"

definition next_due :: "spool_env \<Rightarrow> string \<Rightarrow> int \<Rightarrow> spool \<Rightarrow> nat list" where
  "next_due env h limit s =
     take (nat (next_room env h limit s))
       (sort_key (\<lambda>p. send_key (ent s p)) (filter (\<lambda>p. \<not> in_flight env s (ent s p)) (host_list s h)))"

lemma Next_unfold:
  "Next env h limit s0 =
     (if closed s0 then (Inl ErrClosed, s0)
      else let (rs, s) = send_each env (next_due env h limit (expireLocked env h s0)) (expireLocked env h s0) in (Inr rs, s))"
  by (auto simp: Next_def next_due_def next_room_def Let_def case_prod_beta)

lemma next_due_facts:
  assumes "spool_inv s"
  shows "distinct (next_due env h limit s)"
    and "p \<in> set (next_due env h limit s) \<Longrightarrow> p \<in> set (host_list s h)"
    and "sorted (map (\<lambda>p. send_key (ent s p)) (next_due env h limit s))"
    and "length (next_due env h limit s) \<le> nat (next_room env h limit s)"
proof -
  show "distinct (next_due env h limit s)" using host_list_facts(1) [OF assms] by (simp add: next_due_def)
  show "p \<in> set (next_due env h limit s) \<Longrightarrow> p \<in> set (host_list s h)"
    by (auto simp: next_due_def dest!: in_set_takeD)
  show "sorted (map (\<lambda>p. send_key (ent s p)) (next_due env h limit s))"
    unfolding next_due_def take_map [symmetric] by (rule sorted_wrt_take) simp
  show "length (next_due env h limit s) \<le> nat (next_room env h limit s)" by (simp add: next_due_def)
qed

text \<open>What waits and is not sent comes after what is, and only when the room is used up.\<close>

lemma next_due_left:
  assumes "q \<in> set (host_list s h) - set (next_due env h limit s)" "\<not> in_flight env s (ent s q)"
  shows "p \<in> set (next_due env h limit s) \<Longrightarrow> send_key (ent s p) \<le> send_key (ent s q)"
    and "length (next_due env h limit s) = nat (next_room env h limit s)"
proof -
  let ?due = "sort_key (\<lambda>p. send_key (ent s p)) (filter (\<lambda>p. \<not> in_flight env s (ent s p)) (host_list s h))"
  let ?n = "nat (next_room env h limit s)"
  have "q \<in> set ?due" using assms by simp
  then have q: "q \<in> set (drop ?n ?due)" using assms(1) by (metis DiffE UnE append_take_drop_id next_due_def set_append)
  have "sorted (map (\<lambda>p. send_key (ent s p)) (take ?n ?due @ drop ?n ?due))" by simp
  then show "send_key (ent s p) \<le> send_key (ent s q)" if "p \<in> set (next_due env h limit s)"
    using that q unfolding map_append sorted_append next_due_def by (auto simp del: append_take_drop_id)
  have "drop ?n ?due \<noteq> []" using q by auto
  then show "length (next_due env h limit s) = ?n" by (simp add: next_due_def)
qed

lemma retains_next:
  assumes inv: "spool_inv s" and env: "env_ok env" and nx: "Next env h limit s = (res, s')"
  shows "retains (next_forgets env h s) s s' \<and> sp_live s' \<le> sp_live s"
proof (cases "closed s")
  case True
  then show ?thesis using nx keeps_retains [OF keeps_refl [OF inv]] by (simp add: Next_unfold)
next
  case False
  let ?s1 = "expireLocked env h s" and ?F = "forgotten (\<lambda>e. e_hostID e = h)"
  let ?ps = "next_due env h limit ?s1"
  note k1 = keeps_expire [OF inv env, of h]
  note inv1 = keeps_inv [OF k1]
  obtain rs where sd: "send_each env ?ps ?s1 = (rs, s')" using nx False by (auto simp: Next_unfold split: prod.splits)
  have ix: "\<forall>p \<in> set ?ps. \<exists>u. map_of (index ?s1) u = Some p"
    using next_due_facts(2) [OF inv1] host_list_facts(2) [OF inv1] by blast
  note sends = retains_send [OF inv1 env next_due_facts(1) [OF inv1] ix sd]
  have "e_hostID (ent ?s1 p) = h" if "p \<in> set ?ps" for p
    using next_due_facts(2) [OF inv1 that] host_list_facts(2) [OF inv1] by blast
  then have "indexed ?s1 ?ps \<subseteq> ?F ?s1" by (auto simp: indexed_def forgotten_def)
  also have "\<dots> \<subseteq> ?F s" by (rule forgotten_keeps [OF inv k1 placeless_host])
  finally have "indexed ?s1 ?ps \<subseteq> ?F s" .
  moreover have "calls_succeed s \<Longrightarrow> calls_succeed ?s1" using k1 by (auto simp: keeps_def calls_succeed_def)
  ultimately have "(if calls_succeed ?s1 then {} else indexed ?s1 ?ps) \<subseteq> (if calls_succeed s then {} else ?F s)" by auto
  then have "retains (if calls_succeed s then {} else ?F s) ?s1 s'" using sends retains_mono by blast
  from retains_trans [OF keeps_retains [OF k1] this] show ?thesis
    using sends keeps_live [OF inv k1] by (simp add: next_forgets_def)
qed

section \<open>Steps\<close>

datatype spool_op =
    OpAppend spool_env spool_record
  | OpNext spool_env string int
  | OpMarkSent spool_env string
  | OpUnsend string
  | OpAck spool_env string string "64 word"
  | OpAckID spool_env string string
  | OpForget spool_env string int int
  | OpDelete spool_env string
  | OpFlush
  | OpClose

fun spool_step :: "spool_op \<Rightarrow> spool \<Rightarrow> spool" where
  "spool_step (OpAppend env r) s = snd (Append env r s)"
| "spool_step (OpNext env h limit) s = snd (Next env h limit s)"
| "spool_step (OpMarkSent env u) s = MarkSent env u s"
| "spool_step (OpUnsend h) s = Unsend h s"
| "spool_step (OpAck env h session seq) s = snd (Ack env h session seq s)"
| "spool_step (OpAckID env h u) s = snd (AckID env h u s)"
| "spool_step (OpForget env h grace lastNamed) s = snd (ForgetUnacknowledged env h grace lastNamed s)"
| "spool_step (OpDelete env u) s = snd (Delete env u s)"
| "spool_step OpFlush s = flush_tick s"
| "spool_step OpClose s = snd (Close s)"

text \<open>A record that is appended fits the layout and has an identifier that was never used.\<close>

fun op_ok :: "spool_op \<Rightarrow> spool \<Rightarrow> bool" where
  "op_ok (OpAppend env r) s =
     (env_ok env \<and> fits (sited s r) \<and> r_ID r \<notin> written s)"
| "op_ok (OpNext env _ _) s = env_ok env"
| "op_ok (OpAck env _ _ _) s = env_ok env"
| "op_ok (OpAckID env _ _) s = env_ok env"
| "op_ok (OpForget env _ _ _) s = env_ok env"
| "op_ok (OpDelete env _) s = env_ok env"
| "op_ok _ s = True"

fun may_forget :: "spool_op \<Rightarrow> spool \<Rightarrow> string set" where
  "may_forget (OpAppend env r) s = append_forgets env r s"
| "may_forget (OpNext env h _) s = next_forgets env h s"
| "may_forget (OpAck _ h session seq) s =
     forgotten (\<lambda>e. e_hostID e = h \<and> e_sessionID e = session \<and> e_sequence e = seq \<and> seq \<noteq> 0) s"
| "may_forget (OpAckID _ h u) s = forgotten (\<lambda>e. e_hostID e = h \<and> e_id e = u) s"
| "may_forget (OpForget env h grace lastNamed) s =
     forgotten (\<lambda>e. forgettable (env_now env) grace lastNamed e \<and> e_hostID e = h) s"
| "may_forget (OpDelete _ u) s = {u}"
| "may_forget _ s = {}"

lemma keeps_ack:
  assumes inv: "spool_inv s" and env: "env_ok env"
  shows "keeps (may_forget (OpAck env h session seq) s) s (spool_step (OpAck env h session seq) s)"
proof -
  let ?P = "\<lambda>e. e_hostID e = h \<and> e_sessionID e = session \<and> e_sequence e = seq \<and> seq \<noteq> 0"
  let ?hit = "find (\<lambda>p. e_sessionID (ent s p) = session \<and> e_sequence (ent s p) = seq \<and> e_sequence (ent s p) \<noteq> 0) (host_list s h)"
  show ?thesis
  proof (cases "closed s \<or> ?hit = None")
    case True
    then have "spool_step (OpAck env h session seq) s = s" by (auto simp: Ack_def)
    then show ?thesis using keeps_refl [OF inv] by simp
  next
    case False
    then obtain p where hit: "?hit = Some p" by blast
    then have p: "p \<in> set (host_list s h)" "e_sessionID (ent s p) = session" "e_sequence (ent s p) = seq" "seq \<noteq> 0"
      by (auto simp: find_Some_iff)
    have "listed s [p]" using listed_hosts [OF inv, of h] p(1) by (auto simp: listed_def)
    moreover have "?P (ent s p)" using p host_list_facts(2) [OF inv p(1)] by simp
    moreover have "deleteLocked env p s = (fst (deleteLocked env p s), spool_step (OpAck env h session seq) s)"
      using False hit by (simp add: Ack_def case_prod_beta)
    ultimately show ?thesis using keeps_delete_listed [where P = ?P, OF inv env] by simp
  qed
qed

lemma keeps_ack_id:
  assumes inv: "spool_inv s" and env: "env_ok env"
  shows "keeps (may_forget (OpAckID env h u) s) s (spool_step (OpAckID env h u) s)"
proof (cases "\<exists>p. \<not> closed s \<and> map_of (index s) u = Some p \<and> e_hostID (ent s p) = h")
  case True
  then obtain p where p: "\<not> closed s" "map_of (index s) u = Some p" "e_hostID (ent s p) = h" by blast
  have "e_id (ent s p) = u" using inv p(2) by (auto simp: spool_inv_def index_inv_def)
  then have "u \<in> forgotten (\<lambda>e. e_hostID e = h \<and> e_id e = u) s" using p by (auto simp: forgotten_def)
  moreover have "deleteLocked env p s = (fst (deleteLocked env p s), spool_step (OpAckID env h u) s)"
    using p by (simp add: AckID_def case_prod_beta)
  ultimately show ?thesis using keeps_mono [OF keeps_delete [OF inv env p(2)]] by simp
next
  case False
  then have "spool_step (OpAckID env h u) s = s" by (auto simp: AckID_def split: option.splits)
  then show ?thesis using keeps_refl [OF inv] by simp
qed

lemma keeps_forget:
  assumes inv: "spool_inv s" and env: "env_ok env"
  shows "keeps (may_forget (OpForget env h grace lastNamed) s) s (spool_step (OpForget env h grace lastNamed) s)"
proof (cases "closed s")
  case True
  then show ?thesis using keeps_refl [OF inv] by (simp add: ForgetUnacknowledged_def)
next
  case False
  obtain res s' where "forget_each env grace lastNamed (host_list s h) 0 s = (res, s')"
    by (cases "forget_each env grace lastNamed (host_list s h) 0 s")
  with False show ?thesis
    using keeps_forget_each [OF inv env listed_hosts [OF inv] placeless_host hosts_own [OF inv]]
    by (simp add: ForgetUnacknowledged_def)
qed

lemma keeps_Delete:
  assumes inv: "spool_inv s" and env: "env_ok env"
  shows "keeps (may_forget (OpDelete env u) s) s (spool_step (OpDelete env u) s)"
proof (cases "\<exists>p. \<not> closed s \<and> map_of (index s) u = Some p")
  case True
  then obtain p where p: "\<not> closed s" "map_of (index s) u = Some p" by blast
  then show ?thesis
    using keeps_delete [OF inv env p(2), of "fst (deleteLocked env p s)" "snd (deleteLocked env p s)"] by (simp add: Delete_def)
next
  case False
  then have "spool_step (OpDelete env u) s = s" by (auto simp: Delete_def split: option.splits)
  then show ?thesis using keeps_refl [OF inv] by simp
qed

lemma keeps_flush:
  assumes inv: "spool_inv s"
  shows "keeps {} s (flush_tick s)"
proof (cases "dirty s \<and> active s \<noteq> None")
  case True
  then obtain a where a: "active s = Some a" by blast
  obtain err s1 where y: "sync_segment a s = (err, s1)" by (cases "sync_segment a s")
  have "flush_tick s = s1\<lparr>flushErr := err, dirty := False\<rparr>" using True a y by (simp add: flush_tick_def)
  then show ?thesis
    using keeps_then_count(3) [OF keeps_then_count(4) [OF conjunct1 [OF keeps_sync [OF inv y]]]] by simp
next
  case False
  then have "flush_tick s = s" by (auto simp: flush_tick_def split: option.splits)
  then show ?thesis using keeps_refl [OF inv] by simp
qed

lemma retains_shut:
  assumes "spool_inv s"
  shows "retains {} s (s\<lparr>closed := b\<rparr>)" and "retains {} s (s\<lparr>active := None\<rparr>)"
proof -
  have "host_list (s\<lparr>closed := b\<rparr>) h = host_list s h" "host_list (s\<lparr>active := None\<rparr>) h = host_list s h" for h
    by (simp_all add: host_list_def)
  then have "spool_inv (s\<lparr>closed := b\<rparr>)" "spool_inv (s\<lparr>active := None\<rparr>)"
    using assms by (simp_all add: inv_defs logged_def holds_def seg_file_def cong: option.case_cong)
  then show "retains {} s (s\<lparr>closed := b\<rparr>)" "retains {} s (s\<lparr>active := None\<rparr>)"
    by (simp_all add: retains_def holds_def)
qed

lemma retains_close:
  assumes inv: "spool_inv s"
  shows "retains {} s (spool_step OpClose s) \<and> sp_live (spool_step OpClose s) = sp_live s"
proof (cases "closed s")
  case True
  then show ?thesis using keeps_retains [OF keeps_refl [OF inv]] by (simp add: Close_def)
next
  case False
  let ?s1 = "s\<lparr>closed := True\<rparr>"
  note r1 = retains_shut(1) [OF inv, of True]
  have inv1: "spool_inv ?s1" using r1 by (simp only: retains_def)
  show ?thesis
  proof (cases "active s")
    case None
    then show ?thesis using False r1 by (simp add: Close_def)
  next
    case (Some a)
    obtain err s2 where c: "close_segment a ?s1 = (err, s2)" by (cases "close_segment a ?s1")
    have k: "keeps {} ?s1 s2" using keeps_close_segment(1) [OF inv1 _ c] Some by simp
    have step: "spool_step OpClose s = s2\<lparr>active := None\<rparr>" using False Some c by (simp add: Close_def)
    have "sp_live s2 = sp_live s"
      using c by (auto simp: close_segment_def syscall_def split: if_splits list.splits)
    then show ?thesis
      using retains_trans [OF retains_trans [OF r1 keeps_retains [OF k]] retains_shut(2) [OF keeps_inv [OF k]]] step by simp
  qed
qed

lemma keeps_step:
  assumes "spool_inv s" "keeps (may_forget op s) s (spool_step op s)"
  shows "retains (may_forget op s) s (spool_step op s)
    \<and> (0 \<le> CriticalReserveBytes (sp_options s) \<longrightarrow>
        sp_live (spool_step op s) \<le> max (MaxBytes (sp_options s)) (sp_live s))"
  using keeps_retains [OF assms(2)] keeps_live [OF assms] by (simp add: le_max_iff_disj)

lemma Unsend_live: "sp_live (Unsend h s) = sp_live s"
proof -
  have "sp_live (foldl (\<lambda>s p. s\<lparr>heap := (heap s)[p := (ent s p)\<lparr>e_sentAt := None, e_firstSentAt := None\<rparr>]\<rparr>) s ps) = sp_live s"
    for ps by (induction ps arbitrary: s) simp_all
  then show ?thesis by (simp add: Unsend_def)
qed

text \<open>Every step: nothing is forgotten but what it may forget, and the bytes grow no further than the
  limit.\<close>

lemma retains_step:
  assumes inv: "spool_inv s" and ok: "op_ok op s"
  shows "retains (may_forget op s) s (spool_step op s)
    \<and> (0 \<le> CriticalReserveBytes (sp_options s) \<longrightarrow>
        sp_live (spool_step op s) \<le> max (MaxBytes (sp_options s)) (sp_live s))"
proof (cases op)
  case (OpAppend env r)
  then show ?thesis
    using retains_append [OF inv, of env r "fst (Append env r s)" "snd (Append env r s)"] ok by (auto split: if_splits)
next
  case (OpNext env h limit)
  then show ?thesis
    using retains_next [OF inv, of env h limit "fst (Next env h limit s)" "snd (Next env h limit s)"] ok by (simp add: le_max_iff_disj)
next
  case (OpMarkSent env u)
  then show ?thesis
    using retains_mark_sent [OF inv, of "env_now env"] keeps_retains [OF keeps_refl [OF inv]]
    by (auto simp: MarkSent_def mark_sent_def split: option.splits)
next
  case (OpUnsend h)
  then show ?thesis using retains_unsend [OF inv, of "host_list s h"] Unsend_live [of h s] by (simp add: Unsend_def)
next
  case (OpAck env h session seq)
  have "keeps (may_forget op s) s (spool_step op s)" unfolding OpAck by (rule keeps_ack [OF inv]) (use ok OpAck in simp)
  then show ?thesis by (rule keeps_step [OF inv])
next
  case (OpAckID env h u)
  have "keeps (may_forget op s) s (spool_step op s)" unfolding OpAckID by (rule keeps_ack_id [OF inv]) (use ok OpAckID in simp)
  then show ?thesis by (rule keeps_step [OF inv])
next
  case (OpForget env h grace lastNamed)
  have "keeps (may_forget op s) s (spool_step op s)" unfolding OpForget by (rule keeps_forget [OF inv]) (use ok OpForget in simp)
  then show ?thesis by (rule keeps_step [OF inv])
next
  case (OpDelete env u)
  have "keeps (may_forget op s) s (spool_step op s)" unfolding OpDelete by (rule keeps_Delete [OF inv]) (use ok OpDelete in simp)
  then show ?thesis by (rule keeps_step [OF inv])
next
  case OpFlush
  then have "keeps (may_forget op s) s (spool_step op s)" using keeps_flush [OF inv] by simp
  then show ?thesis by (rule keeps_step [OF inv])
next
  case OpClose
  then show ?thesis using retains_close [OF inv] by simp
qed

section \<open>Runs\<close>

fun spool_run :: "spool_op list \<Rightarrow> spool \<Rightarrow> spool" where
  "spool_run [] s = s"
| "spool_run (op # ops) s = spool_run ops (spool_step op s)"

fun permitted :: "spool_op list \<Rightarrow> spool \<Rightarrow> bool" where
  "permitted [] s = True"
| "permitted (op # ops) s = (op_ok op s \<and> permitted ops (spool_step op s))"

text \<open>No step of the run may forget the record.\<close>

fun spares :: "string \<Rightarrow> spool_op list \<Rightarrow> spool \<Rightarrow> bool" where
  "spares u [] s = True"
| "spares u (op # ops) s = (u \<notin> may_forget op s \<and> spares u ops (spool_step op s))"

lemma rebuild_empty:
  assumes "rebuild env s = (None, s')" "disk s = []" "nextID s = 0"
  shows "\<exists>l. s' = s\<lparr>io := l\<rparr> \<and> set l \<subseteq> set (io s)"
proof -
  obtain x t where t: "syscall s = (x, t)" by (cases "syscall s")
  then obtain l where l: "t = s\<lparr>io := l\<rparr>" "set l \<subseteq> set (io s)" using syscall_shape by blast
  have "s' = t" using assms t l by (cases x) (auto simp: rebuild_def listSegments_def)
  then show ?thesis using l by blast
qed

lemma Open_empty:
  assumes "Open env opts [] outcomes = Inr s"
  shows "\<exists>l. s = new_spool opts [] l \<and> set l \<subseteq> set outcomes"
proof -
  let ?s0 = "new_spool opts [] outcomes"
  obtain x1 s1 where s1: "syscall ?s0 = (x1, s1)" by (cases "syscall ?s0")
  obtain x2 s2 where s2: "syscall s1 = (x2, s2)" by (cases "syscall s1")
  obtain l1 where l1: "s1 = ?s0\<lparr>io := l1\<rparr>" "set l1 \<subseteq> set outcomes"
    using syscall_shape [OF s1] by (auto simp: new_spool_def)
  obtain l2 where l2: "s2 = ?s0\<lparr>io := l2\<rparr>" "set l2 \<subseteq> set outcomes" using syscall_shape [OF s2] l1 by auto
  have rb: "rebuild env s2 = (None, s)"
    using assms s1 s2 by (auto simp: Open_def split: if_splits prod.splits option.splits)
  have "disk s2 = []" "nextID s2 = 0" using l2 by (simp_all add: new_spool_def)
  from rebuild_empty [OF rb this] obtain l where "s = s2\<lparr>io := l\<rparr>" "set l \<subseteq> set (io s2)" by blast
  then show ?thesis using l2 by (auto simp: new_spool_def)
qed

lemma fill_bounds: "0 < MaxBytes (fill o0)" "0 \<le> CriticalReserveBytes (fill o0)" "CriticalReserveBytes (fill o0) \<le> MaxBytes (fill o0)"
  by (simp_all add: fill_def Let_def DefaultMaxBytes_def DefaultCriticalReserveBytes_def)

end
