(* ===== verification/Spool_Recovery.thy ===== *)
theory Spool_Recovery
  imports Spool_Runs
begin

text \<open>
  Opening a spool over the files another run left: the index is rebuilt to every record whose
  frame is on disk and whose identifier no tombstone on disk names, whatever was cut off at the
  end of a file.
\<close>

section \<open>Cutting the torn tail\<close>

lemma ReadFull_split: "ReadFull n s = Some (a, b) \<longleftrightarrow> s = a @ b \<and> length a = n"
  by (auto simp: ReadFull_def split: if_splits)

lemma readFrame_cut_rest:
  assumes "readFrame s = Frame kind body rest"
  shows "readFrame (take (headerSize + length body) s @ x) = Frame kind body x"
proof -
  obtain h s1 where h: "ReadFull headerSize s = Some (h, s1)" "take 4 h = magic"
      "\<not> maxRecordBytes < get_le (take 4 (drop 5 h))" "ReadFull (get_le (take 4 (drop 5 h))) s1 = Some (body, rest)"
      "unat (crc32c body) = get_le (take 4 (drop 9 h))" "kind = h ! 4"
    using assms by (auto simp: readFrame_def Let_def split: if_splits option.splits)
  have cut: "take (headerSize + length body) s @ x = h @ body @ x" using h(1,4) by (auto simp: ReadFull_split)
  have "ReadFull headerSize (h @ body @ x) = Some (h, body @ x)"
    "ReadFull (get_le (take 4 (drop 5 h))) (body @ x) = Some (body, x)"
    using h(1,4) by (auto simp: ReadFull_split)
  then show ?thesis unfolding cut using h by (auto simp: readFrame_def headerSize_def ReadFull_split)
qed

lemma walk_Nil [simp]: "walk off [] = ([], off, False)"
  by (simp add: walk.simps [of off "[]"])

lemma walk_trim:
  assumes "walk off s = (vs, k, torn)"
  shows "off \<le> k \<and> k \<le> off + length s \<and> walk off (take (k - off) s) = (vs, k, False) \<and> (\<not> torn \<longrightarrow> k = off + length s)"
  using assms
proof (induction off s arbitrary: vs k torn rule: walk.induct)
  case (1 off s)
  show ?case
  proof (cases "readFrame s")
    case EOF
    then show ?thesis using 1(2) by (simp add: readFrame_EOF)
  next
    case Torn
    then have "vs = []" "k = off" "torn" using 1(2) by (simp_all add: walk.simps [of off s])
    then show ?thesis by simp
  next
    case (Frame kind body rest)
    let ?n = "headerSize + length body"
    obtain vs1 where w: "walk (off + ?n) rest = (vs1, k, torn)" "vs = (kind, body, off, ?n) # vs1"
      using 1(2) Frame by (auto simp: walk.simps [of off s] Let_def split: prod.splits)
    note IH = 1(1) [OF Frame refl w(1)]
    have len: "rest = drop ?n s" "?n \<le> length s" using readFrame_rest [OF Frame] by auto
    have "take (k - off) s = take ?n s @ take (k - (off + ?n)) rest"
    proof -
      have "k - off = ?n + (k - (off + ?n))" using IH by arith
      then show ?thesis by (simp only: len(1) take_add)
    qed
    then have "readFrame (take (k - off) s) = Frame kind body (take (k - (off + ?n)) rest)"
      using readFrame_cut_rest [OF Frame] by simp
    then show ?thesis
      using IH w(2) len by (auto simp: walk.simps [of off "take (k - off) s"] Let_def)
  qed
qed

definition trim :: "string \<Rightarrow> string" where
  "trim f = take (fst (snd (walk 0 f))) f"

lemma trim_whole: "whole (trim f)" "fst (walk 0 (trim f)) = fst (walk 0 f)"
proof -
  obtain vs k torn where w: "walk 0 f = (vs, k, torn)" by (cases "walk 0 f")
  have "k \<le> length f" "walk 0 (take k f) = (vs, k, False)" using walk_trim [OF w] by simp_all
  then show "whole (trim f)" "fst (walk 0 (trim f)) = fst (walk 0 f)" using w by (simp_all add: trim_def whole_def)
qed

lemma trim_kept: "\<not> snd (snd (walk 0 f)) \<Longrightarrow> trim f = f"
  using walk_trim [of 0 f] by (cases "walk 0 f") (simp add: trim_def)

section \<open>Calls that succeed\<close>

lemma syscall_succeeds:
  assumes "calls_succeed s"
  shows "syscall s = (Done, s\<lparr>io := tl (io s)\<rparr>)" and "calls_succeed (s\<lparr>io := tl (io s)\<rparr>)"
proof -
  show "syscall s = (Done, s\<lparr>io := tl (io s)\<rparr>)"
  proof (cases "io s")
    case Nil
    then have "s = s\<lparr>io := tl (io s)\<rparr>" by simp
    then show ?thesis using Nil by (simp add: syscall_def)
  qed (use assms in \<open>simp add: syscall_def calls_succeed_def\<close>)
  show "calls_succeed (s\<lparr>io := tl (io s)\<rparr>)" using assms by (cases "io s") (simp_all add: calls_succeed_def)
qed

text \<open>A step that only reads, cutting torn tails.\<close>

definition reads :: "spool \<Rightarrow> spool \<Rightarrow> bool" where
  "reads s s' =
     (s' = s\<lparr>io := io s', disk := disk s'\<rparr> \<and> calls_succeed s' \<and> map fst (disk s') = map fst (disk s)
      \<and> (\<forall>j. map_of (disk s') j = map_of (disk s) j \<or> map_of (disk s') j = map_option trim (map_of (disk s) j)))"

lemma reads_refl: "calls_succeed s \<Longrightarrow> reads s s"
  by (simp add: reads_def)

lemma trim_trim [simp]: "trim (trim f) = trim f"
  using trim_whole [of f] trim_kept [of "trim f"] by (simp add: whole_def)

lemma reads_trans:
  assumes "reads s s'" "reads s' s''"
  shows "reads s s''"
proof -
  have e: "s' = s\<lparr>io := io s', disk := disk s'\<rparr>" "s'' = s'\<lparr>io := io s'', disk := disk s''\<rparr>"
    using assms unfolding reads_def by blast+
  have "s'' = (s\<lparr>io := io s', disk := disk s'\<rparr>)\<lparr>io := io s'', disk := disk s''\<rparr>"
    using e(2) by (simp only: e(1) [symmetric])
  then have "s'' = s\<lparr>io := io s'', disk := disk s''\<rparr>" by simp
  moreover have "map_of (disk s'') j = map_of (disk s) j \<or> map_of (disk s'') j = map_option trim (map_of (disk s) j)" for j
  proof -
    have "map_of (disk s') j = map_of (disk s) j \<or> map_of (disk s') j = map_option trim (map_of (disk s) j)"
      "map_of (disk s'') j = map_of (disk s') j \<or> map_of (disk s'') j = map_option trim (map_of (disk s') j)"
      using assms unfolding reads_def by blast+
    then show ?thesis by (cases "map_of (disk s) j") auto
  qed
  ultimately show ?thesis using assms unfolding reads_def by simp
qed

lemma update_keys: "map_of al k \<noteq> None \<Longrightarrow> map fst (AList.update k v al) = map fst al"
  by (induction al) (auto split: if_splits)

lemma walkSegment_succeeds:
  assumes ok: "calls_succeed s" and f: "map_of (disk s) i = Some f"
  shows "\<exists>s'. walkSegment i s = (Inr (fst (walk 0 f)), s') \<and> reads s s' \<and> map_of (disk s') i = Some (trim f)"
proof -
  obtain vs k torn where w: "walk 0 f = (vs, k, torn)" by (cases "walk 0 f")
  let ?s1 = "s\<lparr>io := tl (io s)\<rparr>"
  let ?s2 = "?s1\<lparr>io := tl (io ?s1)\<rparr>"
  have c1: "syscall s = (Done, ?s1)" "calls_succeed ?s1" by (rule syscall_succeeds [OF ok])+
  have c2: "syscall ?s1 = (Done, ?s2)" "calls_succeed ?s2" by (rule syscall_succeeds [OF c1(2)])+
  have sf: "seg_file ?s2 i = f" using f by (simp add: seg_file_def)
  show ?thesis
  proof (cases torn)
    case False
    then have "trim f = f" using trim_kept [of f] w by simp
    moreover have "walkSegment i s = (Inr vs, ?s2)"
      unfolding walkSegment_def using c1 c2 f sf w False by simp
    moreover have "reads s ?s2" using c2(2) by (simp add: reads_def)
    ultimately show ?thesis using f w by auto
  next
    case True
    let ?s3 = "?s2\<lparr>io := tl (io ?s2)\<rparr>"
    have c3: "syscall ?s2 = (Done, ?s3)" "calls_succeed ?s3" by (rule syscall_succeeds [OF c2(2)])+
    let ?s4 = "?s3\<lparr>disk := AList.update i (take k f) (disk ?s3)\<rparr>"
    have ok4: "calls_succeed ?s4" using c3(2) by (simp add: calls_succeed_def)
    let ?s5 = "?s4\<lparr>io := tl (io ?s4)\<rparr>"
    have c4: "syscall ?s4 = (Done, ?s5)" "calls_succeed ?s5" by (rule syscall_succeeds [OF ok4])+
    have "trim f = take k f" using w by (simp add: trim_def)
    moreover have "walkSegment i s = (Inr vs, ?s5)"
      unfolding walkSegment_def using c1(1) c2(1) c3(1) c4(1) f sf w True by simp
    moreover have "reads s ?s5" using c4(2) f update_keys [of "disk s" i] w by (simp add: reads_def trim_def)
    ultimately show ?thesis using w by auto
  qed
qed

section \<open>Collecting the tombstones\<close>

abbreviation seen :: "spool \<Rightarrow> nat \<Rightarrow> visited" where
  "seen s i \<equiv> fst (walk 0 (seg_file s i))"

lemma reads_seen:
  assumes "reads s s'"
  shows "seen s' i = seen s i" and "logged s' = logged s"
proof -
  have d: "map_of (disk s') j = map_of (disk s) j \<or> map_of (disk s') j = map_option trim (map_of (disk s) j)" for j
    using assms unfolding reads_def by blast
  then show "seen s' i = seen s i" using d [of i] trim_whole(2) by (cases "map_of (disk s) i") (auto simp: seg_file_def)
  have "(\<exists>f. map_of (disk s') j = Some f \<and> x \<in> set (fst (walk 0 f)))
      = (\<exists>f. map_of (disk s) j = Some f \<and> x \<in> set (fst (walk 0 f)))" for j x
    using d [of j] trim_whole(2) by (cases "map_of (disk s) j") auto
  then show "logged s' = logged s" unfolding logged_def by blast
qed

lemma reads_dom: "reads s s' \<Longrightarrow> map_of (disk s') j = None \<longleftrightarrow> map_of (disk s) j = None"
  unfolding reads_def by (metis map_option_is_None)

lemma collect_succeeds:
  assumes "calls_succeed s" "\<forall>i \<in> set ids. map_of (disk s) i \<noteq> None"
  shows "\<exists>T s'. collect_tombs ids tombs s = (Inr T, s') \<and> reads s s'
    \<and> set T = set tombs \<union> (\<Union>i \<in> set ids. set (tombs_of (seen s i)))
    \<and> (\<forall>i \<in> set ids. map_of (disk s') i = map_option trim (map_of (disk s) i))"
  using assms
proof (induction ids arbitrary: tombs s)
  case Nil
  then show ?case using reads_refl by auto
next
  case (Cons i ids)
  obtain f where f: "map_of (disk s) i = Some f" using Cons.prems(2) by auto
  from walkSegment_succeeds [OF Cons.prems(1) f] obtain s1 where
    w: "walkSegment i s = (Inr (fst (walk 0 f)), s1)" "reads s s1" "map_of (disk s1) i = Some (trim f)" by blast
  have sf: "seg_file s i = f" using f by (simp add: seg_file_def)
  have "calls_succeed s1" "\<forall>j \<in> set ids. map_of (disk s1) j \<noteq> None"
    using w(2) reads_dom [OF w(2)] Cons.prems(2) by (auto simp: reads_def)
  from Cons.IH [OF this, of "tombs @ tombs_of (fst (walk 0 f))"] obtain T s2 where
    c: "collect_tombs ids (tombs @ tombs_of (fst (walk 0 f))) s1 = (Inr T, s2)" "reads s1 s2"
      "set T = set (tombs @ tombs_of (fst (walk 0 f))) \<union> (\<Union>i \<in> set ids. set (tombs_of (seen s1 i)))"
      "\<forall>j \<in> set ids. map_of (disk s2) j = map_option trim (map_of (disk s1) j)" by blast
  have "map_of (disk s2) j = map_option trim (map_of (disk s) j)" if "j \<in> set (i # ids)" for j
  proof -
    have j1: "map_of (disk s1) j = map_of (disk s) j \<or> map_of (disk s1) j = map_option trim (map_of (disk s) j)"
      and j2: "map_of (disk s2) j = map_of (disk s1) j \<or> map_of (disk s2) j = map_option trim (map_of (disk s1) j)"
      using w(2) c(2) unfolding reads_def by blast+
    show ?thesis
    proof (cases "j = i")
      case True
      then show ?thesis using j2 w(3) f by auto
    next
      case False
      then have "map_of (disk s2) j = map_option trim (map_of (disk s1) j)" using c(4) that by simp
      then show ?thesis using j1 by (cases "map_of (disk s) j") auto
    qed
  qed
  then show ?case using w(1) c reads_trans [OF w(2) c(2)] reads_seen(1) [OF w(2)] sf by auto
qed

section \<open>Indexing a frame\<close>

text \<open>
  While a segment is loaded its account is not in the map yet; \<open>ghost\<close> is the spool with the
  account as it stands and with the number of the newest segment.
\<close>

definition ghost :: "nat \<Rightarrow> nat \<Rightarrow> int \<Rightarrow> spool \<Rightarrow> spool" where
  "ghost N i n s = s\<lparr>segments := AList.update i \<lparr>st_size = 0, st_live = n\<rparr> (segments s), nextID := N\<rparr>"

lemma ghost_fields [simp]:
  "index (ghost N i n s) = index s" "byHost (ghost N i n s) = byHost s" "heap (ghost N i n s) = heap s"
  "sp_live (ghost N i n s) = sp_live s" "active (ghost N i n s) = active s" "nextID (ghost N i n s) = N"
  "disk (ghost N i n s) = disk s" "io (ghost N i n s) = io s" "sp_options (ghost N i n s) = sp_options s"
  "closed (ghost N i n s) = closed s" "map_of (segments (ghost N i n s)) = (map_of (segments s))(i \<mapsto> \<lparr>st_size = 0, st_live = n\<rparr>)"
  "holds (ghost N i n s) p r = holds s p r" "logged (ghost N i n s) = logged s" "in_segment (ghost N i n s) j = in_segment s j"
  "host_list (ghost N i n s) h = host_list s h"
  by (simp_all add: ghost_def holds_def logged_def in_segment_def host_list_def)

text \<open>Accounts that are as high, in any order.\<close>

lemma spool_inv_accounts:
  assumes inv: "spool_inv s"
    and s': "index s' = index s" "byHost s' = byHost s" "heap s' = heap s" "sp_live s' = sp_live s"
      "active s' = active s" "nextID s' = nextID s" "disk s' = disk s" "io s' = io s"
      "sp_options s' = sp_options s" "closed s' = closed s"
    and d: "distinct (map fst (segments s'))"
    and dom: "\<And>j. map_of (segments s') j = None \<longleftrightarrow> map_of (segments s) j = None"
    and le: "\<And>j st'. map_of (segments s') j = Some st' \<Longrightarrow> int (in_segment s j) \<le> st_live st'"
  shows "spool_inv s'"
proof -
  have "in_segment s' j = in_segment s j" for j by (simp add: in_segment_def s')
  then have "count_inv s'" using le by (simp add: count_inv_def)
  from keeps_states [OF inv s' d dom this] show ?thesis by (rule keeps_inv)
qed

lemma update_keys_distinct:
  "distinct (map fst (AList.update i x al)) \<Longrightarrow> distinct (map fst (AList.update i y al))"
  by (induction al) (auto simp: dom_update split: if_splits)

lemma update_keys_less: "distinct (map fst (AList.update i x al)) \<Longrightarrow> distinct (map fst al)"
  by (induction al) (auto simp: dom_update split: if_splits)

text \<open>The entry of an indexed record is the one a record read from its place gets.\<close>

definition pristine :: "spool_env \<Rightarrow> spool \<Rightarrow> bool" where
  "pristine env s =
     (\<forall>u p. map_of (index s) u = Some p \<longrightarrow>
        (\<exists>r k off. holds s p r \<and> ent s p = entry_of env r (Size r) k off))"

lemma relocate_leaves:
  assumes inv: "spool_inv s" and p: "map_of (index s) u = Some p" and j: "e_segment (ent s p) = j" "j \<noteq> i"
  shows "in_segment (relocate p i off s) j + 1 = in_segment s j"
proof -
  let ?s = "relocate p i off s"
  have lt: "p < length (heap s)" "e_id (ent s p) = u" and d: "distinct (map fst (index s))"
    using inv p by (auto simp: spool_inv_def index_inv_def)
  have "q \<noteq> p" if "(v, q) \<in> set (AList.delete u (index s))" for v q
  proof
    assume "q = p"
    then have v: "(v, p) \<in> set (index s)" "v \<noteq> u" using that by (auto simp: alist_delete_filter)
    then have "map_of (index s) v = Some p" using d by (simp add: map_of_eq_Some_iff)
    then show False using inv lt v(2) by (auto simp: spool_inv_def index_inv_def)
  qed
  then have same: "filter (\<lambda>(v, q). e_segment (ent ?s q) = j) (AList.delete u (index s))
      = filter (\<lambda>(v, q). e_segment (ent s q) = j) (AList.delete u (index s))"
    using relocate_ent [OF lt(1)] by (intro filter_cong) auto
  have "e_segment (ent ?s p) \<noteq> j" using j relocate_ent [OF lt(1)] by simp
  then have a: "length (filter (\<lambda>(v, q). e_segment (ent ?s q) = j) (AList.delete u (index s)))
      = length (filter (\<lambda>(v, q). e_segment (ent ?s q) = j) (index s))"
    using length_filter_delete [OF d p, of "\<lambda>(v, q). e_segment (ent ?s q) = j"] by simp
  have b: "length (filter (\<lambda>(v, q). e_segment (ent s q) = j) (AList.delete u (index s))) + 1
      = length (filter (\<lambda>(v, q). e_segment (ent s q) = j) (index s))"
    using length_filter_delete [OF d p, of "\<lambda>(v, q). e_segment (ent s q) = j"] j(1) by simp
  have "index ?s = index s" by (simp add: relocate_def)
  then show ?thesis using a b unfolding same in_segment_def by simp
qed

lemma ghost_count:
  assumes "spool_inv (ghost N i n s)"
  shows "int (in_segment s i) \<le> n"
    and "map_of (segments s) j = Some st \<Longrightarrow> j \<noteq> i \<Longrightarrow> int (in_segment s j) \<le> st_live st"
proof -
  have c: "int (in_segment s k) \<le> st_live x" if "map_of (segments (ghost N i n s)) k = Some x" for k x
    using assms that unfolding spool_inv_def count_inv_def by simp
  show "int (in_segment s i) \<le> n" using c [of i "\<lparr>st_size = 0, st_live = n\<rparr>"] by simp
  show "map_of (segments s) j = Some st \<Longrightarrow> j \<noteq> i \<Longrightarrow> int (in_segment s j) \<le> st_live st" using c [of j st] by simp
qed

lemma ghost_more:
  assumes "spool_inv (ghost N i n s)" "n \<le> m"
  shows "spool_inv (ghost N i m s)"
proof (rule spool_inv_accounts [OF assms(1)])
  show "distinct (map fst (segments (ghost N i m s)))"
    using assms(1) update_keys_distinct unfolding spool_inv_def files_inv_def ghost_def by fastforce
  show "int (in_segment (ghost N i n s) j) \<le> st_live st" if "map_of (segments (ghost N i m s)) j = Some st" for j st
    using ghost_count [OF assms(1)] that assms(2) by (cases "j = i") force+
qed simp_all

lemma ghost_add: "ghost N i n (add_entry e s) = add_entry e (ghost N i n s)"
  by (simp add: ghost_def add_entry_def host_list_def)

text \<open>What indexing a frame leaves alone.\<close>

definition same_files :: "spool \<Rightarrow> spool \<Rightarrow> bool" where
  "same_files s s' =
     (disk s' = disk s \<and> io s' = io s \<and> active s' = active s \<and> nextID s' = nextID s \<and> closed s' = closed s
      \<and> sp_options s' = sp_options s \<and> (\<forall>j. map_of (segments s') j = None \<longleftrightarrow> map_of (segments s) j = None))"

lemma same_files_trans: "same_files s s' \<Longrightarrow> same_files s' s'' \<Longrightarrow> same_files s s''"
  by (simp add: same_files_def)

lemma load_new:
  assumes inv: "spool_inv (ghost N i n s)" and pr: "pristine env s"
    and f: "map_of (disk s) i = Some f" "(kindRecord, encode r, off, bytes) \<in> set (fst (walk 0 f))" "fits r"
    and u: "map_of (index s) (r_ID r) = None" "(kindTombstone, r_ID r) \<notin> logged s"
    and s': "s' = add_entry (entry_of env r bytes i off) s"
  shows "spool_inv (ghost N i (n + 1) s')" and "pristine env s'" and "same_files s s'"
    and "map_of (index s') = (map_of (index s))(r_ID r \<mapsto> length (heap s))"
proof -
  let ?t = "ghost N i (n + 1) s"
  let ?e = "entry_of env r bytes i off"
  have bytes: "bytes = Size r" using walk_visit [OF f(2)] fits_size [OF f(3)] by (simp add: Size_def)
  have id: "e_id ?e = r_ID r" "e_segment ?e = i" "e_offset ?e = off" by (simp_all add: entry_of_def)
  have inv1: "spool_inv ?t" by (rule ghost_more [OF inv]) simp
  have d: "describes ?e r" using describes_entry_of [OF f(3), of env i off] fits_size [OF f(3)] bytes by (simp add: Size_def)
  have "stored f off r" using f walk_visit [OF f(2)] by (auto simp: stored_def)
  moreover have "int (in_segment s i) \<le> n" by (rule ghost_count [OF inv])
  ultimately have "spool_inv (add_entry ?e ?t)" and h: "holds (add_entry ?e ?t) (length (heap ?t)) r"
    using retains_add_entry [OF inv1 _ _ d, of f "\<lparr>st_size = 0, st_live = n + 1\<rparr>"] u f(1) id by (simp_all add: retains_def)
  then show "spool_inv (ghost N i (n + 1) s')" by (simp add: s' ghost_add)
  have hp: "holds s' (length (heap s)) r" using h by (simp add: s' ghost_add [symmetric])
  show ix: "map_of (index s') = (map_of (index s))(r_ID r \<mapsto> length (heap s))" by (simp add: s' add_entry_def id)
  show "same_files s s'" by (simp add: same_files_def s' add_entry_def)
  show "pristine env s'" unfolding pristine_def
  proof (intro allI impI)
    fix v p
    assume v: "map_of (index s') v = Some p"
    show "\<exists>r k off. holds s' p r \<and> ent s' p = entry_of env r (Size r) k off"
    proof (cases "v = r_ID r")
      case True
      then have "p = length (heap s)" using v ix by simp
      moreover from this have "ent s' p = entry_of env r (Size r) i off" using bytes by (simp add: s' add_entry_def)
      ultimately show ?thesis using hp by blast
    next
      case False
      then have v0: "map_of (index s) v = Some p" using v ix by simp
      then have "p < length (heap s)" using inv by (auto simp: spool_inv_def index_inv_def)
      then have "ent s' p = ent s p" by (simp add: s' add_entry_def nth_append)
      moreover obtain r0 k o0 where r0: "holds s p r0" "ent s p = entry_of env r0 (Size r0) k o0"
        using pr v0 unfolding pristine_def by blast
      moreover have "disk s' = disk s" by (simp add: s' add_entry_def)
      ultimately have "holds s' p r0" by (simp add: holds_def)
      then show ?thesis using r0(2) \<open>ent s' p = ent s p\<close> by metis
    qed
  qed
qed

text \<open>The copy of a compaction that stopped: the entry moves to the later place.\<close>

lemma load_again:
  assumes inv: "spool_inv (ghost N i n s)" and pr: "pristine env s" and none: "map_of (segments s) i = None"
    and f: "map_of (disk s) i = Some f" "(kindRecord, encode r, off, bytes) \<in> set (fst (walk 0 f))" "fits r"
    and q: "map_of (index s) (r_ID r) = Some q"
    and s': "s' = (set_state (e_segment (ent s q)) (\<lambda>st. st\<lparr>st_live := st_live st - 1\<rparr>) s)
       \<lparr>sp_live := sp_live s - int (e_size (ent s q)) + int bytes, heap := (heap s)[q := entry_of env r bytes i off]\<rparr>"
  shows "spool_inv (ghost N i (n + 1) s')" and "pristine env s'" and "same_files s s'" and "index s' = index s"
proof -
  let ?t = "ghost N i n s" and ?j = "e_segment (ent s q)" and ?g = "\<lambda>st. st\<lparr>st_live := st_live st + 1\<rparr> :: segmentState"
  let ?T = "set_state i ?g (relocate q i off ?t)"
  have bytes: "bytes = Size r" using walk_visit [OF f(2)] fits_size [OF f(3)] by (simp add: Size_def)
  have log: "log_inv s" using inv log_inv_cong(1) [of ?t s] by (simp add: spool_inv_def)
  obtain r0 k0 o0 where r0: "holds s q r0" "ent s q = entry_of env r0 (Size r0) k0 o0"
    using pr q unfolding pristine_def by blast
  have lt: "q < length (heap s)" "e_id (ent s q) = r_ID r" using inv q by (auto simp: spool_inv_def index_inv_def)
  have "r_ID r0 = r_ID r" using r0(1) lt(2) by (auto simp: holds_def describes_def)
  moreover have "(kindRecord, encode r) \<in> logged s" using f by (auto simp: logged_def)
  ultimately have "r0 = r" using log_invD(3) [OF log _ f(3)] holds_logged [OF r0(1)] by blast
  note r = r0 [unfolded this]
  have moved: "entry_of env r bytes i off = (ent s q)\<lparr>e_segment := i, e_offset := off\<rparr>"
    using r(2) bytes by (simp add: entry_of_def)
  have live: "sp_live s - int (e_size (ent s q)) + int bytes = sp_live s" using r(2) bytes by (simp add: entry_of_def)
  have s'': "s' = relocate q i off (set_state ?j (\<lambda>st. st\<lparr>st_live := st_live st - 1\<rparr>) s)"
    unfolding s' live moved by (simp add: relocate_def set_state_def split: option.splits)
  show "index s' = index s" by (simp add: s'' relocate_def)
  show "same_files s s'" by (auto simp: same_files_def s'' relocate_def map_of_set_state)
  have "stored f off r" using f walk_visit [OF f(2)] by (auto simp: stored_def)
  moreover have "int (in_segment s i) \<le> n" by (rule ghost_count [OF inv])
  ultimately have k: "keeps {} ?t ?T"
    using keeps_relocate [OF inv _ _ _ _, of "r_ID r" q r i f off _ ?g] q r(1) f(1) by simp
  have T: "spool_inv ?T" by (rule keeps_inv [OF k])
  have ixT: "index ?T = index s" "heap ?T = heap s'" "disk ?T = disk s'" by (simp_all add: s'' relocate_def)
  have keep: "holds s' p x" if "map_of (index s) v = Some p" "holds s p x" for v p x
  proof -
    have "map_of (index ?T) v = Some p" "holds ?t p x" using that ixT(1) by simp_all
    then have "holds ?T p x" using k unfolding keeps_def by blast
    then show ?thesis using ixT by (simp add: holds_def)
  qed
  show "spool_inv (ghost N i (n + 1) s')"
  proof (rule spool_inv_accounts [OF T])
    have "distinct (map fst (segments s'))"
      using inv distinct_set_state by (auto simp: s'' relocate_def spool_inv_def files_inv_def ghost_def dest: update_keys_less)
    then show "distinct (map fst (segments (ghost N i (n + 1) s')))" using distinct_update by (auto simp: ghost_def)
  next
    fix j st
    assume st: "map_of (segments (ghost N i (n + 1) s')) j = Some st"
    have cT: "in_segment ?T j = in_segment (relocate q i off ?t) j" by (simp add: in_segment_def)
    note cnt = relocate_count [OF inv, of "r_ID r" q i off j]
    consider "j = i" "st_live st = n + 1" | "j \<noteq> i" "j \<noteq> ?j" "map_of (segments s) j = Some st"
      | st0 where "j \<noteq> i" "j = ?j" "map_of (segments s) j = Some st0" "st_live st = st_live st0 - 1"
      using st by (auto simp: s'' relocate_def map_of_set_state split: if_splits)
    then show "int (in_segment ?T j) \<le> st_live st"
    proof cases
      case 1
      then show ?thesis using cnt ghost_count(1) [OF inv] q unfolding cT by simp
    next
      case 2
      then show ?thesis using cnt ghost_count(2) [OF inv 2(3,1)] q unfolding cT by simp
    next
      case 3
      then show ?thesis
        using relocate_leaves [OF inv, of "r_ID r" q j i off] ghost_count(2) [OF inv 3(3,1)] q unfolding cT by simp
    qed
  qed (auto simp: s'' relocate_def map_of_set_state)
  show "pristine env s'" unfolding pristine_def
  proof (intro allI impI)
    fix v p
    assume v: "map_of (index s') v = Some p"
    then have v0: "map_of (index s) v = Some p" using \<open>index s' = index s\<close> by simp
    then obtain x k off1 where x: "holds s p x" "ent s p = entry_of env x (Size x) k off1" using pr unfolding pristine_def by blast
    have "ent s' p = entry_of env x (Size x) (if p = q then i else k) (if p = q then off else off1)"
    proof (cases "p = q")
      case True
      then have "ent s' p = (ent s p)\<lparr>e_segment := i, e_offset := off\<rparr>" using lt(1) by (simp add: s'' relocate_def)
      then show ?thesis using True x(2) by (simp add: entry_of_def)
    next
      case False
      then have "ent s' p = ent s p" by (simp add: s'' relocate_def)
      then show ?thesis using False x(2) by simp
    qed
    then show "\<exists>r k off. holds s' p r \<and> ent s' p = entry_of env r (Size r) k off" using keep [OF v0 x(1)] by blast
  qed
qed

section \<open>Loading the segments\<close>

definition loaded :: "string list \<Rightarrow> visited \<Rightarrow> string set" where
  "loaded tombs vs =
     {u. u \<notin> set tombs \<and> (\<exists>r off n. fits r \<and> r_ID r = u \<and> (kindRecord, encode r, off, n) \<in> set vs)}"

text \<open>The tombstones in the list are those on disk, as far as identifiers of records go.\<close>

definition tombs_ok :: "string list \<Rightarrow> spool \<Rightarrow> bool" where
  "tombs_ok tombs s = (\<forall>r. fits r \<longrightarrow> (r_ID r \<in> set tombs \<longleftrightarrow> (kindTombstone, r_ID r) \<in> logged s))"

lemma load_frame:
  assumes inv: "spool_inv (ghost N i n s)" and pr: "pristine env s" and none: "map_of (segments s) i = None"
    and f: "map_of (disk s) i = Some f" "v \<in> set (fst (walk 0 f))" and tombs: "tombs_ok tombs s"
    and ix: "index_frame env i tombs (s, n) v = (s', n')"
  shows "spool_inv (ghost N i n' s') \<and> pristine env s' \<and> same_files s s'
    \<and> {u. map_of (index s') u \<noteq> None} = {u. map_of (index s) u \<noteq> None} \<union> loaded tombs [v]"
proof -
  obtain kind body off bytes where v: "v = (kind, body, off, bytes)" by (cases v) auto
  have log: "log_inv s" using inv log_inv_cong(1) [of "ghost N i n s" s] by (simp add: spool_inv_def)
  show ?thesis
  proof (cases "kind = kindRecord")
    case False
    then have "s' = s" "n' = n" "loaded tombs [v] = {}" using ix v by (auto simp: loaded_def)
    then show ?thesis using inv pr by (simp add: same_files_def)
  next
    case True
    then have "(kindRecord, body) \<in> logged s" using f v by (auto simp: logged_def)
    then obtain r where r: "fits r" "body = encode r" using log_invD(2) [OF log] by blast
    have dec: "decode body = Inr r" using decode_encode_append [OF r(1), of "[]"] r(2) by simp
    have vr: "(kindRecord, encode r, off, bytes) \<in> set (fst (walk 0 f))" using f(2) v True r(2) by simp
    have ld: "loaded tombs [v] = (if r_ID r \<in> set tombs then {} else {r_ID r})"
      using r encode_inject True v by (auto simp: loaded_def)
    show ?thesis
    proof (cases "r_ID r \<in> set tombs")
      case True
      then have "s' = s" "n' = n" using ix v dec \<open>kind = kindRecord\<close> by (auto split: if_splits)
      then show ?thesis using inv pr ld True by (simp add: same_files_def)
    next
      case dead: False
      then have tomb: "(kindTombstone, r_ID r) \<notin> logged s" using tombs r(1) by (simp add: tombs_ok_def)
      show ?thesis
      proof (cases "map_of (index s) (r_ID r)")
        case None
        then have e: "s' = add_entry (entry_of env r bytes i off) s" "n' = n + 1"
          using ix v dec \<open>kind = kindRecord\<close> dead by (auto simp: Let_def)
        note new = load_new [OF inv pr f(1) vr r(1) None tomb e(1)]
        then show ?thesis using ld dead e(2) by auto
      next
        case (Some q)
        then have e: "s' = (set_state (e_segment (ent s q)) (\<lambda>st. st\<lparr>st_live := st_live st - 1\<rparr>) s)
            \<lparr>sp_live := sp_live s - int (e_size (ent s q)) + int bytes, heap := (heap s)[q := entry_of env r bytes i off]\<rparr>" "n' = n + 1"
          using ix v dec \<open>kind = kindRecord\<close> dead by (auto simp: Let_def)
        note again = load_again [OF inv pr none f(1) vr r(1) Some e(1)]
        then show ?thesis using ld dead e(2) Some by auto
      qed
    qed
  qed
qed

lemma tombs_ok_same: "same_files s s' \<Longrightarrow> tombs_ok tombs s \<Longrightarrow> tombs_ok tombs s'"
  using log_inv_cong(2) [of s "s\<lparr>index := index s'\<rparr>"] by (simp add: same_files_def tombs_ok_def logged_def)

lemma load_frames:
  assumes "spool_inv (ghost N i n s)" "pristine env s" "map_of (segments s) i = None"
    and "map_of (disk s) i = Some f" "set vs \<subseteq> set (fst (walk 0 f))" "tombs_ok tombs s"
    and "foldl (index_frame env i tombs) (s, n) vs = (s', n')"
  shows "spool_inv (ghost N i n' s') \<and> pristine env s' \<and> same_files s s'
    \<and> {u. map_of (index s') u \<noteq> None} = {u. map_of (index s) u \<noteq> None} \<union> loaded tombs vs"
  using assms
proof (induction vs arbitrary: s n)
  case Nil
  then show ?case by (auto simp: same_files_def loaded_def)
next
  case (Cons v vs)
  obtain s1 n1 where ix: "index_frame env i tombs (s, n) v = (s1, n1)" by (cases "index_frame env i tombs (s, n) v")
  have v: "v \<in> set (fst (walk 0 f))" using Cons.prems(5) by simp
  note one = load_frame [OF Cons.prems(1-4) v Cons.prems(6) ix]
  have same: "same_files s s1" using one by blast
  then have "map_of (segments s1) i = None" "map_of (disk s1) i = Some f" using Cons.prems(3,4) by (simp_all add: same_files_def)
  moreover have "foldl (index_frame env i tombs) (s1, n1) vs = (s', n')" using Cons.prems(7) ix by simp
  ultimately have IH: "spool_inv (ghost N i n' s') \<and> pristine env s' \<and> same_files s1 s'
    \<and> {u. map_of (index s') u \<noteq> None} = {u. map_of (index s1) u \<noteq> None} \<union> loaded tombs vs"
    using Cons.IH [of n1 s1] one Cons.prems(5) tombs_ok_same [OF same Cons.prems(6)] by simp
  have "loaded tombs (v # vs) = loaded tombs [v] \<union> loaded tombs vs" by (auto simp: loaded_def)
  then show ?case using IH one same_files_trans [OF same] by auto
qed

lemma walkSegment_whole:
  assumes ok: "calls_succeed s" and f: "map_of (disk s) i = Some f" "whole f"
  shows "\<exists>l. walkSegment i s = (Inr (fst (walk 0 f)), s\<lparr>io := l\<rparr>) \<and> set l \<subseteq> set (io s)"
proof -
  let ?s1 = "s\<lparr>io := tl (io s)\<rparr>"
  let ?s2 = "?s1\<lparr>io := tl (io ?s1)\<rparr>"
  have c1: "syscall s = (Done, ?s1)" "calls_succeed ?s1" by (rule syscall_succeeds [OF ok])+
  have c2: "syscall ?s1 = (Done, ?s2)" "calls_succeed ?s2" by (rule syscall_succeeds [OF c1(2)])+
  have sf: "seg_file ?s2 i = f" using f by (simp add: seg_file_def)
  have "walkSegment i s = (Inr (fst (walk 0 f)), ?s2)"
    unfolding walkSegment_def using c1(1) c2(1) f sf by (cases "walk 0 f") (simp add: whole_def)
  moreover have "set (tl (tl (io s))) \<subseteq> set (io s)" by (metis list.set_sel(2) list.sel(2) subsetI)
  ultimately show ?thesis by auto
qed

lemma ghost_start:
  assumes inv: "spool_inv (s\<lparr>nextID := N\<rparr>)" and i: "map_of (segments s) i = None" "map_of (disk s) i \<noteq> None"
  shows "spool_inv (ghost N i 0 s)"
proof -
  let ?s = "s\<lparr>nextID := N\<rparr>" and ?t = "ghost N i 0 s"
  have "in_segment ?s i = 0" using i(1) by (intro in_segment_0 [OF inv]) simp
  then have z: "in_segment s i = 0" by (simp add: in_segment_def)
  have maps: "index_inv ?t = index_inv ?s" "host_inv ?t = host_inv ?s" "live_inv ?t = live_inv ?s"
    by (rule maps_inv_cong; simp)+
  have h: "holds ?s p r = holds s p r" for p r by (rule holds_cong) simp_all
  have "files_inv ?t"
    using inv i(2) distinct_update by (auto simp: spool_inv_def files_inv_def) (simp add: ghost_def distinct_update)
  moreover have "stored_inv ?t" using inv by (auto simp: spool_inv_def stored_inv_def h)
  moreover have "count_inv ?t"
    using inv z by (auto simp: spool_inv_def count_inv_def in_segment_def)
  moreover have "active_inv ?t" using inv by (auto simp: spool_inv_def active_inv_def seg_file_def split: option.splits)
  moreover have "log_inv ?t = log_inv ?s" by (rule log_inv_cong) simp_all
  moreover have "clean_io ?t" using inv by (simp add: spool_inv_def clean_io_def)
  ultimately show ?thesis using inv by (simp add: spool_inv_def maps)
qed

lemma spool_inv_io:
  assumes "spool_inv s" "set l \<subseteq> set (io s)"
  shows "spool_inv (s\<lparr>io := l\<rparr>)"
  using assms by (intro keeps_inv [OF keeps_quiet [OF assms(1)]]) simp_all

lemma calls_succeed_io: "calls_succeed s \<Longrightarrow> set (io s') \<subseteq> set (io s) \<Longrightarrow> calls_succeed s'"
  unfolding calls_succeed_def by blast

lemma tombs_ok_cong: "disk s' = disk s \<Longrightarrow> tombs_ok tombs s' = tombs_ok tombs s"
  by (simp add: tombs_ok_def logged_def)

lemma pristine_cong: "index s' = index s \<Longrightarrow> heap s' = heap s \<Longrightarrow> disk s' = disk s \<Longrightarrow> pristine env s' = pristine env s"
  using holds_cong [of s' s] by (simp add: pristine_def)

text \<open>The account of a segment, once it is loaded.\<close>

lemma ghost_stored:
  assumes "spool_inv (ghost N i n s)" "segments s' = AList.update i \<lparr>st_size = k, st_live = n\<rparr> (segments s)"
    "index s' = index s" "byHost s' = byHost s" "heap s' = heap s" "sp_live s' = sp_live s" "active s' = active s"
    "nextID s' = N" "disk s' = disk s" "io s' = io s" "sp_options s' = sp_options s" "closed s' = closed s"
  shows "spool_inv s'"
proof (rule spool_inv_accounts [OF assms(1)])
  show "distinct (map fst (segments s'))"
    using assms(1,2) update_keys_distinct unfolding spool_inv_def files_inv_def ghost_def by fastforce
  show "int (in_segment (ghost N i n s) j) \<le> st_live st" if "map_of (segments s') j = Some st" for j st
    using ghost_count [OF assms(1)] that assms(2) by (cases "j = i") force+
qed (simp_all add: assms)

lemma load_segments_succeeds:
  assumes "spool_inv (s\<lparr>nextID := N\<rparr>)" "pristine env s" "calls_succeed s" "tombs_ok tombs s" "distinct ids"
    and "\<forall>i \<in> set ids. map_of (segments s) i = None \<and> map_of (disk s) i \<noteq> None"
  shows "\<exists>s'. load_segments env tombs ids s = (None, s') \<and> spool_inv (s'\<lparr>nextID := N\<rparr>) \<and> calls_succeed s'
    \<and> disk s' = disk s \<and> active s' = active s \<and> closed s' = closed s \<and> sp_options s' = sp_options s
    \<and> nextID s' = fold max ids (nextID s)
    \<and> (\<forall>j. map_of (segments s') j = None \<longleftrightarrow> map_of (segments s) j = None \<and> j \<notin> set ids)
    \<and> {u. map_of (index s') u \<noteq> None} = {u. map_of (index s) u \<noteq> None} \<union> (\<Union>i \<in> set ids. loaded tombs (seen s i))"
  using assms
proof (induction ids arbitrary: s)
  case Nil
  then show ?case by simp
next
  case (Cons i ids)
  obtain f where f: "map_of (disk s) i = Some f" using Cons.prems(6) by auto
  have "log_inv (s\<lparr>nextID := N\<rparr>)" using Cons.prems(1) by (simp add: spool_inv_def)
  from log_invD(1) [OF this, of i f] have w: "whole f" using f by simp
  obtain l where l: "walkSegment i s = (Inr (fst (walk 0 f)), s\<lparr>io := l\<rparr>)" "set l \<subseteq> set (io s)"
    using walkSegment_whole [OF Cons.prems(3) f w] by blast
  let ?s1 = "s\<lparr>io := l\<rparr>"
  obtain s2 n where fr: "foldl (index_frame env i tombs) (?s1, 0) (fst (walk 0 f)) = (s2, n)"
    by (cases "foldl (index_frame env i tombs) (?s1, 0) (fst (walk 0 f))")
  have eq: "?s1\<lparr>nextID := N\<rparr> = (s\<lparr>nextID := N\<rparr>)\<lparr>io := l\<rparr>" by simp
  have base1: "spool_inv (?s1\<lparr>nextID := N\<rparr>)" unfolding eq by (rule spool_inv_io [OF Cons.prems(1)]) (simp add: l(2))
  have g1: "spool_inv (ghost N i 0 ?s1)" by (rule ghost_start [OF base1]) (use Cons.prems(6) in simp_all)
  have "pristine env ?s1" "tombs_ok tombs ?s1" using Cons.prems(2,4) pristine_cong [of ?s1 s] tombs_ok_cong [of ?s1 s] by simp_all
  note lf = load_frames [OF g1 this(1) _ _ order_refl this(2) fr]
  have lf: "spool_inv (ghost N i n s2)" "pristine env s2" "same_files ?s1 s2"
    "{u. map_of (index s2) u \<noteq> None} = {u. map_of (index s) u \<noteq> None} \<union> loaded tombs (fst (walk 0 f))"
    using load_frames [OF g1 \<open>pristine env ?s1\<close> _ _ order_refl \<open>tombs_ok tombs ?s1\<close> fr] Cons.prems(6) f by auto
  have io2: "calls_succeed s2" using lf(3) l(2) Cons.prems(3) by (auto simp: same_files_def calls_succeed_def)
  let ?l = "tl (io s2)"
  have sy: "syscall s2 = (Done, s2\<lparr>io := ?l\<rparr>)" "calls_succeed (s2\<lparr>io := ?l\<rparr>)" by (rule syscall_succeeds [OF io2])+
  define s3 where "s3 = s2\<lparr>io := ?l, segments := AList.update i \<lparr>st_size = length (seg_file s2 i), st_live = n\<rparr> (segments s2),
      nextID := max (nextID s2) i\<rparr>"
  have step: "load_segments env tombs (i # ids) s = load_segments env tombs ids s3"
    using l(1) fr sy(1) by (simp add: s3_def seg_file_def)
  have sub: "set ?l \<subseteq> set (io s2)" by (cases "io s2") auto
  have "spool_inv (s2\<lparr>segments := AList.update i \<lparr>st_size = length (seg_file s2 i), st_live = n\<rparr> (segments s2), nextID := N\<rparr>)"
    by (rule ghost_stored [OF lf(1)]) simp_all
  note acc = this
  have eq3: "s3\<lparr>nextID := N\<rparr> = (s2\<lparr>segments := AList.update i \<lparr>st_size = length (seg_file s2 i), st_live = n\<rparr> (segments s2), nextID := N\<rparr>)\<lparr>io := ?l\<rparr>"
    by (simp add: s3_def)
  have inv3: "spool_inv (s3\<lparr>nextID := N\<rparr>)" unfolding eq3 by (rule spool_inv_io [OF acc]) (simp add: sub)
  have d3: "disk s3 = disk s" "active s3 = active s" "closed s3 = closed s" "sp_options s3 = sp_options s" "nextID s3 = max i (nextID s)"
    using lf(3) by (simp_all add: s3_def same_files_def max.commute)
  have dom3: "map_of (segments s3) j = None \<longleftrightarrow> map_of (segments s) j = None \<and> j \<noteq> i" for j
    using lf(3) by (auto simp: s3_def same_files_def)
  have "pristine env s3" using lf(2) pristine_cong [of s3 s2] by (simp add: s3_def)
  moreover have "calls_succeed s3" using sy(2) by (simp add: s3_def calls_succeed_def)
  moreover have "tombs_ok tombs s3" using Cons.prems(4) tombs_ok_cong [OF d3(1)] by simp
  moreover have "\<forall>j \<in> set ids. map_of (segments s3) j = None \<and> map_of (disk s3) j \<noteq> None"
    using Cons.prems(5,6) dom3 d3(1) by auto
  ultimately obtain s' where IH: "load_segments env tombs ids s3 = (None, s')" "spool_inv (s'\<lparr>nextID := N\<rparr>)" "calls_succeed s'"
      "disk s' = disk s3" "active s' = active s3" "closed s' = closed s3" "sp_options s' = sp_options s3"
      "nextID s' = fold max ids (nextID s3)" "\<forall>j. map_of (segments s') j = None \<longleftrightarrow> map_of (segments s3) j = None \<and> j \<notin> set ids"
      "{u. map_of (index s') u \<noteq> None} = {u. map_of (index s3) u \<noteq> None} \<union> (\<Union>i \<in> set ids. loaded tombs (seen s3 i))"
    using Cons.IH [OF inv3] Cons.prems(5) by auto
  have "seen s3 j = seen s j" for j by (simp add: seg_file_def d3(1))
  moreover have "index s3 = index s2" by (simp add: s3_def)
  moreover have "seg_file s i = f" using f by (simp add: seg_file_def)
  ultimately have "{u. map_of (index s') u \<noteq> None} = {u. map_of (index s) u \<noteq> None} \<union> (\<Union>j \<in> set (i # ids). loaded tombs (seen s j))"
    using IH(10) lf(4) by auto
  then show ?case using IH step d3 dom3 by auto
qed

section \<open>Removing and reopening\<close>

lemma remove_dead_succeeds:
  assumes "spool_inv s" "active s = None" "calls_succeed s"
  shows "\<exists>s'. remove_dead ids s = (None, s') \<and> keeps {} s s' \<and> active s' = None \<and> calls_succeed s' \<and> nextID s' = nextID s
    \<and> map_of (segments s') (nextID s) = map_of (segments s) (nextID s)"
  using assms
proof (induction ids arbitrary: s)
  case Nil
  then show ?case using keeps_refl by auto
next
  case (Cons i ids)
  show ?case
  proof (cases "(\<exists>st. map_of (segments s) i = Some st \<and> st_live st = 0) \<and> i \<noteq> nextID s")
    case False
    then have "remove_dead (i # ids) s = remove_dead ids s" by auto
    then show ?thesis using Cons by simp
  next
    case True
    then obtain st where st: "map_of (segments s) i = Some st" "st_live st = 0" by blast
    have "int (in_segment s i) \<le> st_live st" using Cons.prems(1) st(1) unfolding spool_inv_def count_inv_def by blast
    then have none: "e_segment (ent s p) \<noteq> i" if "map_of (index s) u = Some p" for u p
      using in_segment_positive [OF Cons.prems(1) that] st(2) by auto
    let ?t = "s\<lparr>io := tl (io s)\<rparr>"
    have rm: "remove_file i s = (None, ?t\<lparr>disk := AList.delete i (disk s)\<rparr>)"
      using syscall_succeeds(1) [OF Cons.prems(3)] by (simp add: remove_file_def)
    define s1 where "s1 = ?t\<lparr>disk := AList.delete i (disk s), segments := AList.delete i (segments s)\<rparr>"
    have k1: "keeps {} s s1"
      using Cons.prems(2) by (intro keeps_remove_dead [OF Cons.prems(1) none _ rm]) (simp_all add: s1_def)
    have s1: "active s1 = None" "calls_succeed s1" "nextID s1 = nextID s"
      "map_of (segments s1) (nextID s) = map_of (segments s) (nextID s)"
      using Cons.prems(2) syscall_succeeds(2) [OF Cons.prems(3)] True by (simp_all add: s1_def calls_succeed_def)
    have "remove_dead (i # ids) s = remove_dead ids s1" using True rm by (auto simp: s1_def)
    then show ?thesis using Cons.IH [OF keeps_inv [OF k1] s1(1,2)] s1(3,4) keeps_trans [OF k1] by fastforce
  qed
qed

lemma openSegment_succeeds:
  assumes inv: "spool_inv s" and ok: "calls_succeed s" and i: "map_of (segments s) i \<noteq> None"
  shows "\<exists>g s1. openSegment i s = (Inr g, s1) \<and> sg_id g = i
    \<and> keeps {} s (set_state i (\<lambda>st. st\<lparr>st_size := sg_size g\<rparr>) (s1\<lparr>active := Some g\<rparr>))"
proof -
  have "map_of (disk s) i \<noteq> None" using inv i unfolding spool_inv_def files_inv_def by blast
  then obtain f where f: "map_of (disk s) i = Some f" by blast
  then have w: "whole f" using inv log_invD(1) by (auto simp: spool_inv_def)
  obtain l where l: "walkSegment i s = (Inr (fst (walk 0 f)), s\<lparr>io := l\<rparr>)" "set l \<subseteq> set (io s)"
    using walkSegment_whole [OF ok f w] by blast
  let ?s1 = "s\<lparr>io := l\<rparr>"
  have ok1: "calls_succeed ?s1" using ok l(2) by (auto simp: calls_succeed_def)
  let ?s2 = "?s1\<lparr>io := tl (io ?s1)\<rparr>"
  let ?s3 = "?s2\<lparr>io := tl (io ?s2)\<rparr>"
  have c2: "syscall ?s1 = (Done, ?s2)" "calls_succeed ?s2" by (rule syscall_succeeds [OF ok1])+
  have c3: "syscall ?s2 = (Done, ?s3)" by (rule syscall_succeeds [OF c2(2)])
  let ?g = "\<lparr>sg_id = i, sg_size = length f, sg_open = True\<rparr>"
  have "seg_file ?s3 i = f" using f by (simp add: seg_file_def)
  then have op: "openSegment i s = (Inr ?g, ?s3)" unfolding openSegment_def using l(1) c2(1) c3 by simp
  have "active_inv (?s3\<lparr>active := Some ?g\<rparr>)" using i f by (simp add: active_inv_def seg_file_def)
  moreover have "set (tl (tl l)) \<subseteq> set (io s)" using l(2) by (metis list.set_sel(2) list.sel(2) subset_iff)
  ultimately have k: "keeps {} s (?s3\<lparr>active := Some ?g\<rparr>)" by (intro keeps_handles [OF inv]) simp_all
  have "keeps {} (?s3\<lparr>active := Some ?g\<rparr>) (set_state i (\<lambda>st. st\<lparr>st_size := sg_size ?g\<rparr>) (?s3\<lparr>active := Some ?g\<rparr>))"
    by (rule keeps_set_state [OF keeps_inv [OF k]]) (use keeps_inv [OF k] in \<open>simp add: spool_inv_def count_inv_def\<close>)
  then show ?thesis using op keeps_trans [OF k] by fastforce
qed

section \<open>Opening\<close>

text \<open>Every record frame is the encoding of a record, and an identifier has one record.\<close>

definition sound_log :: "(char \<times> string) set \<Rightarrow> bool" where
  "sound_log L =
     ((\<forall>body. (kindRecord, body) \<in> L \<longrightarrow> (\<exists>r. fits r \<and> body = encode r))
      \<and> (\<forall>r r'. fits r \<longrightarrow> fits r' \<longrightarrow> (kindRecord, encode r) \<in> L \<longrightarrow> (kindRecord, encode r') \<in> L
           \<longrightarrow> r_ID r = r_ID r' \<longrightarrow> r = r'))"

definition living :: "(char \<times> string) set \<Rightarrow> spool_record set" where
  "living L = {r. fits r \<and> (kindRecord, encode r) \<in> L \<and> (kindTombstone, r_ID r) \<notin> L}"

lemma in_tombs_of: "u \<in> set (tombs_of vs) \<longleftrightarrow> length u = 16 \<and> (\<exists>off n. (kindTombstone, u, off, n) \<in> set vs)"
  by (auto simp: tombs_of_def)

lemma logged_seen: "(kind, body) \<in> logged s \<longleftrightarrow> (\<exists>i \<in> fst ` set (disk s). \<exists>off n. (kind, body, off, n) \<in> set (seen s i))"
proof -
  have "map_of (disk s) i = Some (seg_file s i)" if "i \<in> fst ` set (disk s)" for i
    using that by (auto simp: seg_file_def map_of_eq_None_iff split: option.splits)
  moreover have "i \<in> fst ` set (disk s) \<and> seg_file s i = f" if "map_of (disk s) i = Some f" for i f
    using that map_of_SomeD [OF that] by (auto simp: seg_file_def image_iff intro!: bexI [of _ "(i, f)"])
  ultimately show ?thesis unfolding logged_def by blast
qed

lemma rebuild_start:
  assumes s0: "s0 = new_spool opts d l" and ok: "calls_succeed s0" and d: "distinct (map fst d)"
    and log: "sound_log (logged s0)" and r: "reads s0 s1" and whole: "\<forall>i f. map_of (disk s1) i = Some f \<longrightarrow> whole f"
    and N: "\<forall>i. map_of (disk s1) i \<noteq> None \<longrightarrow> i \<le> N"
  shows "spool_inv (s1\<lparr>nextID := N\<rparr>) \<and> pristine env s1"
proof -
  have e: "s1 = s0\<lparr>io := io s1, disk := disk s1\<rparr>" using r unfolding reads_def by blast
  have f: "index s1 = []" "byHost s1 = []" "segments s1 = []" "active s1 = None" "heap s1 = []" "sp_live s1 = 0"
    by (subst e, simp add: s0 new_spool_def)+
  have l1: "logged (s1\<lparr>nextID := N\<rparr>) = logged s0"
    using reads_seen(2) [OF r] by (simp add: logged_def)
  have "log_inv (s1\<lparr>nextID := N\<rparr>)"
    using log whole by (intro log_invI) (simp_all add: l1 sound_log_def f)
  moreover have "files_inv (s1\<lparr>nextID := N\<rparr>)"
    using r d N by (simp add: files_inv_def reads_def s0 new_spool_def f)
  moreover have "clean_io (s1\<lparr>nextID := N\<rparr>)" using r by (simp add: reads_def calls_succeed_def clean_io_def)
  ultimately show ?thesis
    by (simp add: spool_inv_def index_inv_def host_inv_def live_inv_def stored_inv_def count_inv_def active_inv_def f pristine_def)
qed

lemma fold_max: "(\<forall>i \<in> set ids. i \<le> fold max ids k) \<and> k \<le> fold max ids k \<and> (fold max ids k = k \<or> fold max ids k \<in> set ids)"
  for k :: nat
  by (induction ids arbitrary: k) (auto, (meson dual_order.trans max.cobounded1 max.cobounded2 | metis max_def)+)

lemma loaded_living:
  assumes "tombs_ok T s" "set ids = fst ` set (disk s)"
  shows "(\<Union>i \<in> set ids. loaded T (seen s i)) = r_ID ` living (logged s)"
proof (rule set_eqI)
  fix u
  have t: "(r_ID r \<in> set T) = ((kindTombstone, r_ID r) \<in> logged s)" if "fits r" for r
    using assms(1) that unfolding tombs_ok_def by blast
  have "u \<in> (\<Union>i \<in> set ids. loaded T (seen s i))
      \<longleftrightarrow> (\<exists>r. fits r \<and> r_ID r = u \<and> r_ID r \<notin> set T \<and> (kindRecord, encode r) \<in> logged s)"
    unfolding loaded_def logged_seen assms(2) by blast
  also have "\<dots> \<longleftrightarrow> (\<exists>r. fits r \<and> r_ID r = u \<and> (kindTombstone, r_ID r) \<notin> logged s \<and> (kindRecord, encode r) \<in> logged s)"
    by (intro ex_cong1) (auto simp: t)
  also have "\<dots> \<longleftrightarrow> u \<in> r_ID ` living (logged s)" by (auto simp: living_def)
  finally show "u \<in> (\<Union>i \<in> set ids. loaded T (seen s i)) \<longleftrightarrow> u \<in> r_ID ` living (logged s)" .
qed

lemma rebuild_succeeds:
  assumes s0: "s0 = new_spool opts d l" and ok: "calls_succeed s0" and d: "distinct (map fst d)" and log: "sound_log (logged s0)"
  shows "\<exists>s. rebuild env s0 = (None, s) \<and> spool_inv s \<and> sp_options s = fill opts \<and> \<not> closed s \<and> logged s \<subseteq> logged s0
    \<and> {u. map_of (index s) u \<noteq> None} = r_ID ` living (logged s0)"
proof -
  let ?ids = "sort (map fst d)"
  let ?s1 = "s0\<lparr>io := tl (io s0)\<rparr>"
  have ls: "listSegments s0 = (Inr ?ids, ?s1)"
    using syscall_succeeds(1) [OF ok] by (simp add: listSegments_def s0 new_spool_def)
  have ok1: "calls_succeed ?s1" by (rule syscall_succeeds [OF ok])
  have r1: "reads s0 ?s1" using ok1 by (simp add: reads_def)
  have in_ids: "i \<in> set ?ids \<longleftrightarrow> map_of (disk s0) i \<noteq> None" for i by (simp add: s0 new_spool_def map_of_eq_None_iff)
  then have "\<forall>i \<in> set ?ids. map_of (disk ?s1) i \<noteq> None" by simp
  from collect_succeeds [OF ok1 this, of "[]"] obtain T s2 where c: "collect_tombs ?ids [] ?s1 = (Inr T, s2)" "reads ?s1 s2"
    "set T = (\<Union>i \<in> set ?ids. set (tombs_of (seen ?s1 i)))"
    "\<forall>i \<in> set ?ids. map_of (disk s2) i = map_option trim (map_of (disk s0) i)" by auto
  have r2: "reads s0 s2" by (rule reads_trans [OF r1 c(2)])
  define N where "N = fold max ?ids 0"
  have dom2: "map_of (disk s2) i \<noteq> None \<longleftrightarrow> i \<in> set ?ids" for i using reads_dom [OF r2, of i] in_ids [of i] by simp
  have whole2: "whole f" if "map_of (disk s2) i = Some f" for i f
  proof -
    have "i \<in> set ?ids" using that dom2 by force
    then have "map_option trim (map_of (disk s0) i) = Some f" using bspec [OF c(4)] that by metis
    then show ?thesis using trim_whole(1) by auto
  qed
  have start: "spool_inv (s2\<lparr>nextID := N\<rparr>)" "pristine env s2"
  proof -
    have "\<forall>i f. map_of (disk s2) i = Some f \<longrightarrow> whole f" using whole2 by blast
    moreover have "\<forall>i. map_of (disk s2) i \<noteq> None \<longrightarrow> i \<le> N"
      using conjunct1 [OF fold_max [of ?ids 0]] unfolding dom2 N_def by blast
    ultimately show "spool_inv (s2\<lparr>nextID := N\<rparr>)" "pristine env s2"
      using rebuild_start [OF s0 ok d log r2, of N env] by blast+
  qed
  have e2: "s2 = s0\<lparr>io := io s2, disk := disk s2\<rparr>" using r2 unfolding reads_def by blast
  have f2: "index s2 = []" "segments s2 = []" "active s2 = None" "nextID s2 = 0" "closed s2 = False" "sp_options s2 = fill opts"
    by (subst e2, simp add: s0 new_spool_def)+
  note l2 = reads_seen(2) [OF r2]
  have tombs: "tombs_ok T s2" unfolding tombs_ok_def
  proof (intro allI impI)
    fix r
    assume "fits r"
    then have "length (r_ID r) = 16" by (simp add: fits_def)
    then show "r_ID r \<in> set T \<longleftrightarrow> (kindTombstone, r_ID r) \<in> logged s2"
      using reads_seen(1) [OF r1] by (simp add: c(3) in_tombs_of l2 logged_seen s0 new_spool_def)
  qed
  have "calls_succeed s2" using r2 by (simp add: reads_def)
  from load_segments_succeeds [OF start this tombs, of ?ids] obtain s3 where
    ld: "load_segments env T ?ids s2 = (None, s3)" "spool_inv (s3\<lparr>nextID := N\<rparr>)" "calls_succeed s3" "disk s3 = disk s2"
      "active s3 = None" "\<not> closed s3" "sp_options s3 = fill opts" "nextID s3 = N"
      "\<forall>j. map_of (segments s3) j = None \<longleftrightarrow> j \<notin> set ?ids"
      "{u. map_of (index s3) u \<noteq> None} = (\<Union>i \<in> set ?ids. loaded T (seen s2 i))"
    using d dom2 f2 by (auto simp: N_def)
  have inv3: "spool_inv s3" using ld(2,8) by (metis spool.surjective spool.update_convs(6))
  from remove_dead_succeeds [OF inv3 ld(5,3), of ?ids] obtain s4 where
    rd: "remove_dead ?ids s3 = (None, s4)" "keeps {} s3 s4" "active s4 = None" "calls_succeed s4" "nextID s4 = N"
      "map_of (segments s4) N = map_of (segments s3) N" using ld(8) by auto
  have "\<exists>s. rebuild env s0 = (None, s) \<and> keeps {} s3 s"
  proof (cases "N > 0")
    case False
    then have "rebuild env s0 = (None, s4)" using ls c(1) ld(1) rd(1,5) by (simp add: rebuild_def)
    then show ?thesis using rd(2) by blast
  next
    case True
    then have "N \<in> set ?ids" using fold_max [of ?ids 0] by (auto simp: N_def)
    then have "map_of (segments s4) N \<noteq> None" using ld(9) rd(6) by simp
    from openSegment_succeeds [OF keeps_inv [OF rd(2)] rd(4) this] obtain g s5 where
      op: "openSegment N s4 = (Inr g, s5)" "sg_id g = N"
        "keeps {} s4 (set_state N (\<lambda>st. st\<lparr>st_size := sg_size g\<rparr>) (s5\<lparr>active := Some g\<rparr>))" by blast
    then show ?thesis using True ls c(1) ld(1) rd(1,5) keeps_trans [OF rd(2) op(3)] by (simp add: rebuild_def)
  qed
  then obtain s where s: "rebuild env s0 = (None, s)" "keeps {} s3 s" by blast
  have "logged s \<subseteq> logged s3" using s(2) by (simp add: keeps_def)
  moreover have "logged s3 = logged s0" using l2 ld(4) by (simp add: logged_def)
  moreover have "{u. map_of (index s) u \<noteq> None} = r_ID ` living (logged s0)"
  proof -
    have "map fst (disk s2) = map fst d" using r2 by (simp add: reads_def s0 new_spool_def)
    then have "set ?ids = fst ` set (disk s2)" by (metis set_map set_sort)
    from loaded_living [OF tombs this] show ?thesis using keeps_nothing_index [OF s(2)] ld(10) l2 by simp
  qed
  moreover have "sp_options s = fill opts" "\<not> closed s" using s(2) ld(6,7) by (simp_all add: keeps_def)
  ultimately show ?thesis using s keeps_inv by blast
qed

end
