(* ===== verification/Spool_Map.thy ===== *)
theory Spool_Map
  imports Spool_Recovery
begin

text \<open>
  The spool as a map from identifiers to records, what every operation does to it, and what a
  restart over the files of a run finds.
\<close>

section \<open>Opening over the files of a run\<close>

lemma calls_succeed_new: "set l \<subseteq> {Done} \<Longrightarrow> calls_succeed (new_spool opts d l)"
  by (auto simp: calls_succeed_def new_spool_def)

lemma logged_new: "logged (new_spool opts d l) = logged (new_spool opts d [])"
  by (simp add: logged_def new_spool_def)

lemma Open_succeeds:
  assumes "set outcomes \<subseteq> {Done}" "distinct (map fst d)" "sound_log (logged (new_spool opts d []))"
  shows "\<exists>s. Open env opts d outcomes = Inr s \<and> spool_inv s \<and> sp_options s = fill opts \<and> \<not> closed s
    \<and> logged s \<subseteq> logged (new_spool opts d [])
    \<and> {u. map_of (index s) u \<noteq> None} = r_ID ` living (logged (new_spool opts d []))"
proof -
  let ?n = "\<lambda>l. new_spool opts d l"
  have c0: "calls_succeed (?n outcomes)" using assms(1) by (rule calls_succeed_new)
  have io: "(?n l)\<lparr>io := l'\<rparr> = ?n l'" "io (?n l) = l" for l l' by (simp_all add: new_spool_def)
  have s1: "syscall (?n outcomes) = (Done, ?n (tl outcomes))" "calls_succeed (?n (tl outcomes))"
    using syscall_succeeds [OF c0] by (simp_all add: io)
  have s2: "syscall (?n (tl outcomes)) = (Done, ?n (tl (tl outcomes)))" "calls_succeed (?n (tl (tl outcomes)))"
    using syscall_succeeds [OF s1(2)] by (simp_all add: io)
  have "sound_log (logged (?n (tl (tl outcomes))))" using assms(3) logged_new by metis
  from rebuild_succeeds [OF refl s2(2) assms(2) this, of env] obtain s where
    "rebuild env (?n (tl (tl outcomes))) = (None, s)" "spool_inv s" "sp_options s = fill opts" "\<not> closed s"
    "logged s \<subseteq> logged (?n [])" "{u. map_of (index s) u \<noteq> None} = r_ID ` living (logged (?n []))"
    unfolding logged_new [of opts d "tl (tl outcomes)"] by blast
  moreover from this(1) have "Open env opts d outcomes = Inr s" using s1(1) s2(1) by (simp add: Open_def)
  ultimately show ?thesis by blast
qed

text \<open>What a stop in the middle of a write leaves: each file, with the start of a frame behind it.\<close>

definition interrupted :: "spool \<Rightarrow> (nat \<times> string) list \<Rightarrow> bool" where
  "interrupted s d =
     (map fst d = map fst (disk s)
      \<and> (\<forall>i f. map_of (disk s) i = Some f \<longrightarrow>
           (\<exists>kind body n. length body \<le> maxRecordBytes \<and> n < length (frame kind body)
              \<and> map_of d i = Some (f @ take n (frame kind body)))))"

lemma walk_interrupted:
  assumes "whole f" "length body \<le> maxRecordBytes" "n < length (frame kind body)"
  shows "fst (walk 0 (f @ take n (frame kind body))) = fst (walk 0 f)"
proof -
  have "fst (walk off (g @ take n (frame kind body))) = fst (walk off g)" if "snd (walk off g) = (off + length g, False)" for off g
    using that
  proof (induction off g rule: walk.induct)
    case (1 off g)
    have cut: "readFrame (take n (frame kind body)) \<in> {EOF, Torn}" using readFrame_cut [OF assms(3,2)] by auto
    show ?case
    proof (cases "readFrame g")
      case EOF
      then show ?thesis using cut by (auto simp: readFrame_EOF walk.simps [of off "take n (frame kind body)"])
    next
      case Torn
      then show ?thesis using 1(2) by (simp add: walk.simps [of off g])
    next
      case (Frame k b rest)
      let ?o = "off + (headerSize + length b)"
      have len: "length g = headerSize + length b + length rest" using readFrame_rest [OF Frame] by auto
      have "snd (walk ?o rest) = (?o + length rest, False)"
        using 1(2) Frame len by (simp add: walk.simps [of off g] Let_def case_prod_beta)
      from 1(1) [OF Frame refl this] show ?thesis
        using Frame readFrame_more [OF Frame] by (simp add: walk.simps [of off] Let_def case_prod_beta)
    qed
  qed
  from this [of 0 f] show ?thesis using assms(1) by (simp add: whole_def)
qed

lemma logged_interrupted:
  assumes "spool_inv s" "interrupted s d"
  shows "logged (new_spool opts d []) = logged s"
proof -
  have "(\<exists>g. map_of d i = Some g \<and> x \<in> set (fst (walk 0 g))) = (\<exists>f. map_of (disk s) i = Some f \<and> x \<in> set (fst (walk 0 f)))" for i x
  proof (cases "map_of (disk s) i")
    case None
    then have "i \<notin> set (map fst d)" using assms(2) by (simp add: interrupted_def map_of_eq_None_iff)
    then show ?thesis using None by (simp add: map_of_eq_None_iff [symmetric])
  next
    case (Some f)
    then obtain kind body n where "length body \<le> maxRecordBytes" "n < length (frame kind body)"
      "map_of d i = Some (f @ take n (frame kind body))" using assms(2) unfolding interrupted_def by blast
    moreover have "whole f" using assms(1) Some log_invD(1) by (auto simp: spool_inv_def)
    ultimately show ?thesis using Some walk_interrupted by auto
  qed
  then show ?thesis unfolding logged_def new_spool_def by simp blast
qed

lemma log_inv_sound: "log_inv s \<Longrightarrow> sound_log (logged s)"
  unfolding sound_log_def using log_invD(2,3) by blast

lemma indexed_living:
  assumes inv: "spool_inv s" and u: "map_of (index s) u = Some p" "holds s p r"
  shows "r \<in> living (logged s)" and "r_ID r = u"
proof -
  have "e_id (ent s p) = u" using inv u(1) by (auto simp: spool_inv_def index_inv_def)
  then show id: "r_ID r = u" using u(2) by (auto simp: holds_def describes_def)
  have "(kindTombstone, u) \<notin> logged s" using inv u(1) log_invD(4) [of s u] by (auto simp: spool_inv_def)
  then show "r \<in> living (logged s)" using holds_logged [OF u(2)] id by (simp add: living_def)
qed

lemma reopened_holds:
  assumes "spool_inv s'" "logged s' \<subseteq> L" "sound_log L" "r \<in> living L" "map_of (index s') (r_ID r) = Some p"
  shows "record_at s' p = Some r"
proof -
  obtain r' where r': "holds s' p r'" using assms(1,5) unfolding spool_inv_def stored_inv_def by blast
  have "r_ID r' = r_ID r" using indexed_living(2) [OF assms(1,5) r'] .
  moreover have "(kindRecord, encode r') \<in> L" "fits r'" using holds_logged [OF r'] assms(2) by blast+
  moreover have "(kindRecord, encode r) \<in> L" "fits r" using assms(4) by (simp_all add: living_def)
  ultimately have "r' = r" using assms(3) unfolding sound_log_def by blast
  then show ?thesis using holds_record_at [OF r'] by simp
qed

section \<open>The spool as a map\<close>

text \<open>The abstract state: the record an identifier names, if the spool holds one.\<close>

definition spool_map :: "spool \<Rightarrow> string \<Rightarrow> spool_record option" where
  "spool_map s u = (case map_of (index s) u of None \<Rightarrow> None | Some p \<Rightarrow> record_at s p)"

text \<open>A step that adds no record and leaves those it keeps readable.\<close>

definition shrinks :: "spool \<Rightarrow> spool \<Rightarrow> bool" where
  "shrinks s s' =
     ((\<forall>u p. map_of (index s') u = Some p \<longrightarrow> map_of (index s) u = Some p)
      \<and> (\<forall>u p r. map_of (index s') u = Some p \<longrightarrow> holds s p r \<longrightarrow> holds s' p r))"

lemma shrinks_trans: "shrinks s s' \<Longrightarrow> shrinks s' s'' \<Longrightarrow> shrinks s s''"
  unfolding shrinks_def by blast

lemma keeps_shrinks: "keeps D s s' \<Longrightarrow> shrinks s s'"
  by (simp add: keeps_def shrinks_def)

lemma shrinks_same: "index s' = index s \<Longrightarrow> holds s' = holds s \<Longrightarrow> shrinks s s'"
  by (simp add: shrinks_def)

lemma shrinks_map:
  assumes inv: "spool_inv s" and r: "retains D s s'" and n: "shrinks s s'"
  shows "\<exists>D' \<subseteq> D. spool_map s' = spool_map s |` (- D')"
proof (intro exI conjI)
  let ?D = "{u. map_of (index s) u \<noteq> None \<and> map_of (index s') u = None}"
  have readable: "\<exists>x. holds s p x" if "map_of (index s) u = Some p" for u p
    using inv that unfolding spool_inv_def stored_inv_def by blast
  show "?D \<subseteq> D"
  proof
    fix u
    assume "u \<in> ?D"
    then obtain p where u: "map_of (index s) u = Some p" "map_of (index s') u = None" by auto
    obtain x where "holds s p x" using readable [OF u(1)] by blast
    then show "u \<in> D" using r u unfolding retains_def by force
  qed
  show "spool_map s' = spool_map s |` (- ?D)"
  proof
    fix u
    show "spool_map s' u = (spool_map s |` (- ?D)) u"
    proof (cases "map_of (index s') u")
      case None
      then show ?thesis by (auto simp: spool_map_def restrict_map_def split: option.splits)
    next
      case (Some p)
      then have u: "map_of (index s) u = Some p" using n by (simp add: shrinks_def)
      then obtain x where x: "holds s p x" using readable by blast
      then have "holds s' p x" using n Some unfolding shrinks_def by blast
      then show ?thesis using Some u holds_record_at x by (simp add: spool_map_def restrict_map_def)
    qed
  qed
qed

lemma holds_marked:
  assumes "\<And>q. unmarked (ent s' q) = unmarked (ent s q)" "disk s' = disk s"
  shows "holds s' = holds s"
  by (intro ext) (simp add: holds_def unmarked_fields [OF assms(1)] assms(2))

lemma shrinks_mark: "shrinks s (mark_sent now p s)"
  by (rule shrinks_same [OF _ holds_marked]) (simp_all add: mark_sent_def unmarked_update)

lemma shrinks_unsend:
  "shrinks s (foldl (\<lambda>s p. s\<lparr>heap := (heap s)[p := (ent s p)\<lparr>e_sentAt := None, e_firstSentAt := None\<rparr>]\<rparr>) s ps)"
proof (induction ps arbitrary: s)
  case (Cons p ps)
  have "shrinks s (s\<lparr>heap := (heap s)[p := (ent s p)\<lparr>e_sentAt := None, e_firstSentAt := None\<rparr>]\<rparr>)"
    by (rule shrinks_same [OF _ holds_marked]) (simp_all add: unmarked_update)
  then show ?case using shrinks_trans Cons.IH by (simp only: foldl_Cons)
qed (simp add: shrinks_def)

lemma shrinks_send:
  assumes "spool_inv s" "env_ok env" "distinct ps" "\<forall>p \<in> set ps. \<exists>u. map_of (index s) u = Some p"
    and "send_each env ps s = (rs, s')"
  shows "shrinks s s'"
  using assms
proof (induction ps arbitrary: s rs)
  case Nil
  then show ?case by (simp add: shrinks_def)
next
  case (Cons p ps)
  obtain u where u: "map_of (index s) u = Some p" using Cons.prems(4) by auto
  obtain res s1 where rd: "readLocked p s = (res, s1)" by (cases "readLocked p s")
  define t where "t = (case res of Inl e \<Rightarrow> snd (deleteLocked env p (s1\<lparr>dropped := dropped s1 + 1\<rparr>)) | Inr r \<Rightarrow> mark_sent (env_now env) p s1)"
  note one = retains_send_one [OF Cons.prems(1,2) u rd t_def]
  obtain l where l: "s1 = s\<lparr>io := l\<rparr>" "set l \<subseteq> set (io s)" using readLocked_shape(1) [OF rd] by blast
  have k1: "keeps {} s s1" using Cons.prems(1) l by (intro keeps_quiet) simp_all
  have sh: "shrinks s t"
  proof (cases res)
    case (Inr r)
    then show ?thesis using shrinks_trans [OF keeps_shrinks [OF k1] shrinks_mark] by (simp add: t_def)
  next
    case (Inl e)
    have k2: "keeps {} s (s1\<lparr>dropped := dropped s1 + 1\<rparr>)" by (rule keeps_then_count(1) [OF k1])
    have "map_of (index (s1\<lparr>dropped := dropped s1 + 1\<rparr>)) u = Some p" using u keeps_nothing_index [OF k2] by simp
    from keeps_delete [OF keeps_inv [OF k2] Cons.prems(2) this] show ?thesis
      using shrinks_trans [OF keeps_shrinks [OF k2] keeps_shrinks] Inl by (metis prod.collapse sum.case(1) t_def)
  qed
  have inv1: "spool_inv t" using one(1) by (simp add: retains_def)
  obtain rs1 where rs1: "send_each env ps t = (rs1, s')"
    using Cons.prems(5) rd by (cases res) (auto simp: t_def split: prod.splits)
  have "\<exists>v. map_of (index t) v = Some q" if q: "q \<in> set ps" for q
  proof -
    obtain v where v: "map_of (index s) v = Some q" using Cons.prems(4) q by auto
    have "q \<noteq> p" using Cons.prems(3) q by auto
    then have "v \<notin> (if calls_succeed s then {} else {u})" using u v by auto
    then show ?thesis using retains_record_at(2) [OF Cons.prems(1) one(1) v] by blast
  qed
  then show ?case using shrinks_trans [OF sh] Cons.IH [OF inv1 Cons.prems(2) _ _ rs1] Cons.prems(3) by simp
qed

lemma shrinks_step:
  assumes inv: "spool_inv s" and ok: "op_ok op s" and op: "\<And>env r. op \<noteq> OpAppend env r"
  shows "shrinks s (spool_step op s)"
proof (cases op)
  case (OpAppend env r)
  then show ?thesis using op by blast
next
  case (OpNext env h limit)
  let ?s1 = "expireLocked env h s"
  have env: "env_ok env" using ok OpNext by simp
  note k1 = keeps_expire [OF inv env, of h]
  note inv1 = keeps_inv [OF k1]
  have ix: "\<forall>p \<in> set (next_due env h limit ?s1). \<exists>u. map_of (index ?s1) u = Some p"
    using next_due_facts(2) [OF inv1] host_list_facts(2) [OF inv1] by blast
  obtain rs s' where sd: "send_each env (next_due env h limit ?s1) ?s1 = (rs, s')"
    by (cases "send_each env (next_due env h limit ?s1) ?s1")
  have "spool_step op s = (if closed s then s else s')" using OpNext sd by (simp add: Next_unfold)
  then show ?thesis
    using shrinks_trans [OF keeps_shrinks [OF k1] shrinks_send [OF inv1 env next_due_facts(1) [OF inv1] ix sd]]
      keeps_shrinks [OF keeps_refl [OF inv]] by simp
next
  case (OpMarkSent env u)
  then show ?thesis using shrinks_mark keeps_shrinks [OF keeps_refl [OF inv]] by (auto simp: MarkSent_def split: option.splits)
next
  case (OpUnsend h)
  then show ?thesis using shrinks_unsend by (simp add: Unsend_def)
next
  case (OpAck env h session seq)
  then show ?thesis using keeps_shrinks [OF keeps_ack [OF inv, of env h session seq]] ok by simp
next
  case (OpAckID env h u)
  then show ?thesis using keeps_shrinks [OF keeps_ack_id [OF inv, of env h u]] ok by simp
next
  case (OpForget env h grace lastNamed)
  then show ?thesis using keeps_shrinks [OF keeps_forget [OF inv, of env h grace lastNamed]] ok by simp
next
  case (OpDelete env u)
  then show ?thesis using keeps_shrinks [OF keeps_Delete [OF inv, of env u]] ok by simp
next
  case OpFlush
  then show ?thesis using keeps_shrinks [OF keeps_flush [OF inv]] by simp
next
  case OpClose
  have "index (spool_step OpClose s) = index s \<and> heap (spool_step OpClose s) = heap s \<and> disk (spool_step OpClose s) = disk s"
    by (auto simp: Close_def close_segment_def syscall_def Let_def split: option.splits list.splits)
  then show ?thesis using OpClose shrinks_same [of "spool_step OpClose s" s] holds_cong [of "spool_step OpClose s" s] by (auto simp: fun_eq_iff)
qed

lemma write_index:
  assumes inv: "spool_inv s" and w: "writeLocked env r s = (err, s')"
  shows "dom (map_of (index s')) = dom (map_of (index s)) \<union> (if err = None then {r_ID r} else {})"
proof -
  let ?fr = "frame kindRecord (encode r)"
  obtain err1 s1 where ro: "roll_if_full s = (err1, s1)" by (cases "roll_if_full s")
  have k1: "keeps {} s s1" by (rule keeps_roll_if_full [OF inv ro])
  note ix = keeps_nothing_index [OF k1]
  consider (stop) "s' = s1" "err \<noteq> None"
    | (torn) a e where "active s1 = Some a" "append_frame ?fr a s1 = (Inl e, s')" "err \<noteq> None"
    | (kept) a off s2 where "append_frame ?fr a s1 = (Inr off, s2)" "err = None"
        "s' = add_entry (entry_of env r (length ?fr) (sg_id a) off)
           (set_state (sg_id a) (\<lambda>st. st\<lparr>st_size := sg_size a + length ?fr, st_live := st_live st + 1\<rparr>) s2)"
    using w ro by (auto simp: writeLocked_def Let_def split: option.splits prod.splits sum.splits)
  then show ?thesis
  proof cases
    case stop
    then show ?thesis using ix by auto
  next
    case torn
    then show ?thesis
      using ix keeps_nothing_index [OF keeps_append_failed [OF keeps_inv [OF k1] torn(1,2)]] torn(3) by auto
  next
    case kept
    have "index s2 = index s1" using append_frame_Inr [OF kept(1)] by auto
    then show ?thesis using ix kept(2) by (simp add: kept(3) add_entry_def entry_of_def)
  qed
qed

lemma spool_map_holds: "map_of (index s) u = Some p \<Longrightarrow> holds s p r \<Longrightarrow> spool_map s u = Some r"
  by (simp add: spool_map_def holds_record_at)

lemma write_map:
  assumes inv: "spool_inv s" and r: "fits r" "r_ID r \<notin> written s" and w: "writeLocked env r s = (err, s')"
  shows "spool_map s' = (if err = None then (spool_map s)(r_ID r \<mapsto> r) else spool_map s)"
proof
  fix u
  note wr = retains_write [OF inv r w]
  have new: "map_of (index s) (r_ID r) = None" by (rule indexed_None [OF inv r(2)])
  show "spool_map s' u = (if err = None then (spool_map s)(r_ID r \<mapsto> r) else spool_map s) u"
  proof (cases "map_of (index s) u")
    case (Some p)
    then obtain x where x: "holds s p x" using inv unfolding spool_inv_def stored_inv_def by blast
    then have "map_of (index s') u = Some p" "holds s' p x" using wr(1) Some unfolding retains_def by blast+
    then show ?thesis using x Some new spool_map_holds by auto
  next
    case None
    then have old: "spool_map s u = None" by (simp add: spool_map_def)
    show ?thesis
    proof (cases "err = None \<and> u = r_ID r")
      case True
      then show ?thesis using wr(3) spool_map_holds by auto
    next
      case False
      then have "map_of (index s') u = None" using write_index [OF inv w] None by (auto split: if_splits)
      then show ?thesis using old False by (auto simp: spool_map_def)
    qed
  qed
qed

lemma spool_map_same: "spool_inv s \<Longrightarrow> keeps {} s s' \<Longrightarrow> spool_map s' = spool_map s"
  using shrinks_map [OF _ keeps_retains keeps_shrinks, of s "{}" s'] by auto

lemma restrict_UNIV [simp]: "m |` UNIV = m"
  by (simp add: restrict_map_def)

text \<open>What an append did to the map before the record came in.\<close>

lemma append_map:
  assumes inv: "spool_inv s" and ok: "op_ok (OpAppend env r) s" and ap: "Append env r s = (err, s')"
  shows "\<exists>D \<subseteq> append_forgets env r s.
    spool_map s' = spool_map s |` (- D) \<or> spool_map s' = (spool_map s |` (- D))(r_ID r \<mapsto> sited s r)"
    and "err = None \<Longrightarrow> spool_map s' (r_ID r) = Some (sited s r)"
proof -
  have env: "env_ok env" and r: "fits (sited s r)" "r_ID r \<notin> written s" using ok by simp_all
  show "err = None \<Longrightarrow> spool_map s' (r_ID r) = Some (sited s r)"
    using retains_append [OF inv env r ap] spool_map_holds by blast
  show "\<exists>D \<subseteq> append_forgets env r s.
    spool_map s' = spool_map s |` (- D) \<or> spool_map s' = (spool_map s |` (- D))(r_ID r \<mapsto> sited s r)"
  proof (cases "closed s")
    case True
    then have "s' = s" using ap by (simp add: Append_make_room)
    then show ?thesis by (intro exI [of _ "{}"]) simp
  next
    case opened: False
    let ?r = "sited s r"
    obtain refused s1 where m: "make_room env ?r s = (refused, s1)" by (cases "make_room env ?r s")
    note k1 = keeps_make_room(1) [OF inv env m]
    obtain D where D: "D \<subseteq> append_forgets env r s" "spool_map s1 = spool_map s |` (- D)"
      using shrinks_map [OF inv keeps_retains [OF k1] keeps_shrinks [OF k1]] by blast
    note inv1 = keeps_inv [OF k1]
    show ?thesis
    proof (cases refused)
      case (Some e)
      then have "notKeptLocked ?r e (s1\<lparr>dropped := dropped s1 + 1\<rparr>) = (err, s')"
        using ap opened m by (simp add: Append_make_room)
      with keeps_not_kept [OF keeps_count(1) [OF inv1]] have "keeps {} s1 s'" by blast
      then show ?thesis using D spool_map_same [OF inv1] by metis
    next
      case None
      obtain err2 s2 where w: "writeLocked env ?r s1 = (err2, s2)" by (cases "writeLocked env ?r s1")
      have fresh: "r_ID ?r \<notin> written s1" using keeps_fresh [OF inv k1 append_forgets_indexed r(2)] by simp
      have inv2: "spool_inv s2" using retains_write(1) [OF inv1 r(1) fresh w] by (simp add: retains_def)
      have "keeps {} s2 s'"
      proof (cases err2)
        case None
        then show ?thesis using ap opened m w \<open>refused = None\<close> append_tail [OF inv2] by (simp add: Append_make_room)
      next
        case (Some e)
        then have "notKeptLocked ?r e s2 = (err, s')" using ap opened m w \<open>refused = None\<close> by (simp add: Append_make_room)
        then show ?thesis using keeps_not_kept [OF keeps_refl [OF inv2]] by blast
      qed
      then have "spool_map s' = (if err2 = None then (spool_map s1)(r_ID r \<mapsto> ?r) else spool_map s1)"
        using spool_map_same [OF inv2] write_map [OF inv1 r(1) fresh w] by simp
      then show ?thesis using D by (intro exI [of _ D]) (simp split: if_splits)
    qed
  qed
qed

end
