(* ===== verification/Spool_Reach.thy ===== *)
theory Spool_Reach
  imports Spool_Map
begin

text \<open>
  The states a spool can be in over the lives of its process: the moves are the operations and
  the restarts over the files the process left, and an invariant holds of every state they lead
  to. Then what each operation must take out of the map of records, by the answer it gives.
\<close>

section \<open>Operations and restarts\<close>

definition spool_ready :: "spool \<Rightarrow> bool" where
  "spool_ready s = (spool_inv s \<and> 0 \<le> CriticalReserveBytes (sp_options s))"

text \<open>A spool opened in an empty directory, with calls that write nothing when they fail.\<close>

definition spool_start :: "spool \<Rightarrow> bool" where
  "spool_start s = (\<exists>env opts outcomes. Open env opts [] outcomes = Inr s \<and> set outcomes \<subseteq> {Done, Fail 0})"

text \<open>
  A restart opens the files as a stop left them, a write cut anywhere included, with any options.
  The calls of the opening succeed; those after it may fail again and write nothing when they do.
\<close>

inductive spool_move :: "spool \<Rightarrow> spool \<Rightarrow> bool" where
  move: "op_ok op s \<Longrightarrow> spool_move s (spool_step op s)"
| restart: "interrupted s d \<Longrightarrow> set outcomes \<subseteq> {Done} \<Longrightarrow> Open env opts d outcomes = Inr t \<Longrightarrow>
    set l \<subseteq> {Done, Fail 0} \<Longrightarrow> spool_move s (t\<lparr>io := l\<rparr>)"

inductive_cases spool_moveE: "spool_move s t"

text \<open>The moves that may not forget the record of an identifier.\<close>

inductive sparing :: "string \<Rightarrow> spool \<Rightarrow> spool \<Rightarrow> bool" for u where
  spare_op: "op_ok op s \<Longrightarrow> u \<notin> may_forget op s \<Longrightarrow> sparing u s (spool_step op s)"
| spare_restart: "interrupted s d \<Longrightarrow> set outcomes \<subseteq> {Done} \<Longrightarrow> Open env opts d outcomes = Inr t \<Longrightarrow>
    set l \<subseteq> {Done, Fail 0} \<Longrightarrow> sparing u s (t\<lparr>io := l\<rparr>)"

inductive_cases sparingE: "sparing u s t"

lemma new_spool_ready:
  assumes "set l \<subseteq> {Done, Fail 0}"
  shows "spool_ready (new_spool opts [] l)"
proof -
  have "spool_inv (new_spool opts [] l)"
    using assms by (auto simp: inv_defs new_spool_def logged_def host_list_def)
  then show ?thesis using fill_bounds(1,2) [of opts] by (simp add: spool_ready_def new_spool_def)
qed

lemma spool_ready_step: "spool_ready s \<Longrightarrow> op_ok op s \<Longrightarrow> spool_ready (spool_step op s)"
  using retains_step [of s op] by (simp add: spool_ready_def retains_def)

lemma spool_inv_calls:
  assumes "spool_inv s" "set l \<subseteq> {Done, Fail 0}"
  shows "spool_inv (s\<lparr>io := l\<rparr>)"
proof -
  have "host_list (s\<lparr>io := l\<rparr>) h = host_list s h" for h by (simp add: host_list_def)
  moreover have "\<forall>x \<in> set l. x = Done \<or> x = Fail 0" using assms(2) by auto
  ultimately show ?thesis using assms(1) by (simp add: inv_defs logged_def holds_def seg_file_def cong: option.case_cong)
qed

lemma spool_map_io [simp]: "spool_map (s\<lparr>io := l\<rparr>) = spool_map s"
proof -
  have "record_at (s\<lparr>io := l\<rparr>) p = record_at s p" for p by (rule record_at_cong) simp_all
  then show ?thesis by (simp add: spool_map_def fun_eq_iff split: option.splits)
qed

text \<open>An opening over the files of a spool brings back what the spool held.\<close>

lemma reopened:
  assumes inv: "spool_inv s" and d: "interrupted s d" and o: "set outcomes \<subseteq> {Done}"
  obtains t where "Open env opts d outcomes = Inr t" "spool_inv t" "sp_options t = fill opts" "spool_map s \<subseteq>\<^sub>m spool_map t"
proof -
  have log: "sound_log (logged s)" using inv log_inv_sound by (simp add: spool_inv_def)
  note same = logged_interrupted [OF inv d, of opts]
  have "distinct (map fst d)" using inv d by (simp add: interrupted_def spool_inv_def files_inv_def)
  from Open_succeeds [OF o this, of opts env] obtain t where
    t: "Open env opts d outcomes = Inr t" "spool_inv t" "sp_options t = fill opts" "logged t \<subseteq> logged s"
       "{u. map_of (index t) u \<noteq> None} = r_ID ` living (logged s)"
    using log unfolding same by blast
  have "spool_map t u = Some r" if u: "spool_map s u = Some r" for u r
  proof -
    obtain p where p: "map_of (index s) u = Some p" "record_at s p = Some r"
      using u by (auto simp: spool_map_def split: option.splits)
    obtain r' where r': "holds s p r'" using inv p(1) unfolding spool_inv_def stored_inv_def by blast
    then have h: "holds s p r" using holds_record_at p(2) by fastforce
    note l = indexed_living [OF inv p(1) h]
    then obtain q where q: "map_of (index t) u = Some q" using t(5) by blast
    then show ?thesis using reopened_holds [OF t(2,4) log l(1)] l(2) by (simp add: spool_map_def)
  qed
  then have "spool_map s \<subseteq>\<^sub>m spool_map t" by (auto simp: map_le_def)
  with t(1-3) show thesis by (rule that)
qed

lemma spool_ready_restart:
  assumes "spool_ready s" "interrupted s d" "set outcomes \<subseteq> {Done}" "Open env opts d outcomes = Inr t" "set l \<subseteq> {Done, Fail 0}"
  shows "spool_ready (t\<lparr>io := l\<rparr>)" and "spool_map s \<subseteq>\<^sub>m spool_map (t\<lparr>io := l\<rparr>)"
proof -
  have "spool_inv s" using assms(1) by (simp add: spool_ready_def)
  from reopened [OF this assms(2,3), of env opts] have t: "spool_inv t" "sp_options t = fill opts" "spool_map s \<subseteq>\<^sub>m spool_map t"
    using assms(4) by auto
  then show "spool_ready (t\<lparr>io := l\<rparr>)" using spool_inv_calls [OF t(1) assms(5)] fill_bounds(2) by (simp add: spool_ready_def)
  show "spool_map s \<subseteq>\<^sub>m spool_map (t\<lparr>io := l\<rparr>)" using t(3) by simp
qed

interpretation spoolsys: invariant_system spool_start spool_move spool_ready
proof
  fix s
  assume "spool_start s"
  then obtain env opts outcomes where o: "Open env opts [] outcomes = Inr s" "set outcomes \<subseteq> {Done, Fail 0}"
    by (auto simp: spool_start_def)
  from Open_empty [OF o(1)] obtain l where "s = new_spool opts [] l" "set l \<subseteq> {Done, Fail 0}" using o(2) by blast
  then show "spool_ready s" using new_spool_ready by blast
next
  fix s t
  assume "spool_ready s" "spool_move s t"
  then show "spool_ready t"
    by (auto elim!: spool_moveE intro: spool_ready_step spool_ready_restart(1))
qed

lemma reachable_inv: "spool_start s0 \<Longrightarrow> spool_move\<^sup>*\<^sup>* s0 s \<Longrightarrow> spool_inv s \<and> 0 \<le> CriticalReserveBytes (sp_options s)"
  using spoolsys.inv_reachable by (simp add: spool_ready_def)

lemma spool_run_moves: "permitted ops s \<Longrightarrow> spool_move\<^sup>*\<^sup>* s (spool_run ops s)"
proof (induction ops arbitrary: s)
  case (Cons op ops)
  then have "spool_move s (spool_step op s)" by (auto intro: move)
  then show ?case using Cons by (auto intro: converse_rtranclp_into_rtranclp)
qed simp

lemma spares_moves: "permitted ops s \<Longrightarrow> spares u ops s \<Longrightarrow> (sparing u)\<^sup>*\<^sup>* s (spool_run ops s)"
proof (induction ops arbitrary: s)
  case (Cons op ops)
  then have "sparing u s (spool_step op s)" by (auto intro: spare_op)
  then show ?case using Cons by (auto intro: converse_rtranclp_into_rtranclp)
qed simp

text \<open>The bytes in use grow no further than the limit while the process runs.\<close>

lemma run_live:
  assumes "spool_ready s" "permitted ops s"
  shows "sp_live (spool_run ops s) \<le> max (MaxBytes (sp_options s)) (sp_live s)"
  using assms
proof (induction ops arbitrary: s)
  case (Cons op ops)
  let ?t = "spool_step op s"
  have ok: "op_ok op s" "permitted ops ?t" using Cons.prems(2) by simp_all
  have step: "sp_options ?t = sp_options s" "sp_live ?t \<le> max (MaxBytes (sp_options s)) (sp_live s)"
    using retains_step [of s op] ok(1) Cons.prems(1) by (simp_all add: spool_ready_def retains_def)
  have "sp_live (spool_run ops ?t) \<le> max (MaxBytes (sp_options ?t)) (sp_live ?t)"
    by (rule Cons.IH [OF spool_ready_step [OF Cons.prems(1) ok(1)] ok(2)])
  then show ?case using step by simp
qed simp

text \<open>A record stays readable through the moves that may not forget it.\<close>

lemma sparing_keeps:
  assumes "spool_ready s" "spool_map s u = Some r" "sparing u s t"
  shows "spool_ready t \<and> spool_map t u = Some r"
  using assms(3)
proof (rule sparingE)
  fix op
  assume op: "t = spool_step op s" "op_ok op s" "u \<notin> may_forget op s"
  have inv: "spool_inv s" using assms(1) by (simp add: spool_ready_def)
  obtain p where p: "map_of (index s) u = Some p" "record_at s p = Some r"
    using assms(2) by (auto simp: spool_map_def split: option.splits)
  then obtain r' where "holds s p r'" using inv unfolding spool_inv_def stored_inv_def by blast
  then have "holds s p r" using holds_record_at p(2) by fastforce
  then have "map_of (index t) u = Some p \<and> holds t p r"
    using retains_step [OF inv op(2)] op(1,3) p(1) unfolding retains_def by blast
  then show ?thesis using spool_map_holds spool_ready_step [OF assms(1) op(2)] op(1) by blast
next
  fix d outcomes env opts t' l
  assume r: "t = t'\<lparr>io := l\<rparr>" "interrupted s d" "set outcomes \<subseteq> {Done}" "Open env opts d outcomes = Inr t'" "set l \<subseteq> {Done, Fail 0}"
  have "spool_ready t" "spool_map s \<subseteq>\<^sub>m spool_map t"
    unfolding r(1) by (rule spool_ready_restart [OF assms(1) r(2-5)])+
  then show ?thesis using assms(2) by (auto simp: map_le_def dom_def)
qed

lemma sparing_run:
  assumes "spool_ready s" "spool_map s u = Some r" "(sparing u)\<^sup>*\<^sup>* s t"
  shows "spool_map t u = Some r"
proof -
  from assms(3) have "spool_ready t \<and> spool_map t u = Some r"
    by (induction rule: rtranclp_induct) (use assms(1,2) sparing_keeps in blast)+
  then show ?thesis ..
qed

section \<open>What the operations take out\<close>

text \<open>
  The identifiers an operation takes out of the map: never more than it may forget. When they
  answer no error, an acknowledgement by sequence takes out one of the records it matches, if it
  matches any, and an acknowledgement by identifier, a deletion and the forgetting of what was
  sent take out all they are about.
\<close>

fun takes_out :: "spool_op \<Rightarrow> spool \<Rightarrow> string set \<Rightarrow> bool" where
  "takes_out (OpAck env h session seq) s D =
     (D \<subseteq> may_forget (OpAck env h session seq) s
      \<and> (fst (fst (Ack env h session seq s)) = None \<longrightarrow>
          (if may_forget (OpAck env h session seq) s = {} then D = {} else \<exists>u. D = {u})))"
| "takes_out (OpAckID env h u) s D =
     (D \<subseteq> may_forget (OpAckID env h u) s
      \<and> (fst (fst (AckID env h u s)) = None \<longrightarrow> D = may_forget (OpAckID env h u) s))"
| "takes_out (OpForget env h grace lastNamed) s D =
     (D \<subseteq> may_forget (OpForget env h grace lastNamed) s
      \<and> (fst (fst (ForgetUnacknowledged env h grace lastNamed s)) = None \<longrightarrow>
          D = may_forget (OpForget env h grace lastNamed) s))"
| "takes_out (OpDelete env u) s D = (D \<subseteq> {u} \<and> (fst (Delete env u s) = None \<longrightarrow> D = {u}))"
| "takes_out op s D = (D \<subseteq> may_forget op s)"

lemma exact_map:
  assumes "spool_inv s" "keeps D s s'" "\<And>u. u \<in> D \<Longrightarrow> map_of (index s') u = None"
  shows "spool_map s' = spool_map s |` (- D)"
proof -
  obtain D' where D': "D' \<subseteq> D" "spool_map s' = spool_map s |` (- D')"
    using shrinks_map [OF assms(1) keeps_retains [OF assms(2)] keeps_shrinks [OF assms(2)]] by blast
  have "spool_map s' u = None" if "u \<in> D" for u using assms(3) [OF that] by (simp add: spool_map_def)
  then show ?thesis using D' by (fastforce simp: fun_eq_iff restrict_map_def)
qed

lemma deleted_map:
  assumes "spool_inv s" "env_ok env" "map_of (index s) u = Some p" "deleteLocked env p s = (None, s')"
  shows "spool_map s' = spool_map s |` (- {u})"
  using exact_map [OF assms(1) keeps_delete [OF assms]] delete_forgets [OF assms] by simp

lemma deleted_listed:
  assumes "spool_inv s" "env_ok env" "listed s [p]" "deleteLocked env p s = (None, s')"
  shows "map_of (index s') (e_id (ent s p)) = None"
proof (cases "map_of (index s) (e_id (ent s p))")
  case None
  then show ?thesis using assms(4) by (simp add: deleteLocked_def)
next
  case (Some q)
  then show ?thesis using assms delete_forgets [OF assms(1,2) _ assms(4)] by (auto simp: listed_def)
qed

lemma keeps_gone: "keeps D s s' \<Longrightarrow> map_of (index s) u = None \<Longrightarrow> map_of (index s') u = None"
  unfolding keeps_def by (metis not_Some_eq)

text \<open>Forgetting without an error forgets every listed record that is to be forgotten.\<close>

lemma forget_each_forgets:
  assumes "spool_inv s" "env_ok env" "listed s ps" "forget_each env grace lastNamed ps n s = ((None, m), s')"
    and "p \<in> set ps" "forgettable (env_now env) grace lastNamed (ent s p)"
  shows "map_of (index s') (e_id (ent s p)) = None"
  using assms(1,3-6)
proof (induction ps arbitrary: s n)
  case (Cons q ps)
  let ?P = "forgettable (env_now env) grace lastNamed"
  note tl = listed_tl [OF Cons.prems(2)]
  show ?case
  proof (cases "?P (ent s q)")
    case False
    then have "p \<in> set ps" using Cons.prems(4,5) by auto
    then show ?thesis using Cons.IH [OF Cons.prems(1)] tl Cons.prems(3,5) False by simp
  next
    case True
    obtain s1 where d: "deleteLocked env q s = (None, s1)" and rest: "forget_each env grace lastNamed ps (n + 1) s1 = ((None, m), s')"
      using Cons.prems(3) True by (auto split: prod.splits option.splits)
    have k1: "keeps (forgotten ?P s) s s1"
      using keeps_delete_listed [where P = ?P, OF Cons.prems(1) assms(2) _ True d] tl by blast
    note inv1 = keeps_inv [OF k1]
    have l1: "listed s1 ps" using listed_keeps [OF k1] tl by blast
    show ?thesis
    proof (cases "p \<in> set ps")
      case False
      then have "map_of (index s1) (e_id (ent s p)) = None"
        using deleted_listed [OF Cons.prems(1) assms(2) _ d] tl Cons.prems(4) by auto
      moreover have "placeless (\<lambda>e. True)" by (simp add: placeless_def)
      ultimately show ?thesis
        using keeps_gone [OF keeps_forget_each [OF inv1 assms(2) l1 _ _ rest, where Q = "\<lambda>e. True"]] by simp
    next
      case mem: True
      then have "p < length (heap s)" using tl by (auto simp: listed_def)
      then have core: "core (ent s1 p) = core (ent s p)" by (rule keeps_core(1) [OF k1])
      then have "?P (ent s1 p)" using placelessD [OF placeless_forgettable] Cons.prems(5) by blast
      then show ?thesis using Cons.IH [OF inv1 l1 rest mem] core_fields(1) [OF core] by simp
    qed
  qed
qed simp

lemma ack_takes_out:
  assumes inv: "spool_inv s" and env: "env_ok env"
  shows "\<exists>D. takes_out (OpAck env h session seq) s D \<and> spool_map (spool_step (OpAck env h session seq) s) = spool_map s |` (- D)"
proof -
  let ?op = "OpAck env h session seq"
  let ?P = "\<lambda>p. e_sessionID (ent s p) = session \<and> e_sequence (ent s p) = seq \<and> e_sequence (ent s p) \<noteq> 0"
  note k = keeps_ack [OF inv env, of h session seq]
  obtain D where D: "D \<subseteq> may_forget ?op s" "spool_map (spool_step ?op s) = spool_map s |` (- D)"
    using shrinks_map [OF inv keeps_retains [OF k] keeps_shrinks [OF k]] by blast
  show ?thesis
  proof (cases "fst (fst (Ack env h session seq s)) = None")
    case False
    then show ?thesis using D by (intro exI [of _ D]) (simp del: spool_step.simps may_forget.simps not_None_eq)
  next
    case True
    then have opened: "\<not> closed s" by (auto simp: Ack_def)
    show ?thesis
    proof (cases "find ?P (host_list s h)")
      case None
      have "\<not> ?P p" if "map_of (index s) u = Some p" "e_hostID (ent s p) = h" for u p
      proof -
        have "p \<in> set (host_list s h)" using inv that by (auto simp: spool_inv_def host_inv_def)
        then show ?thesis using None by (auto simp: find_None_iff)
      qed
      then have "may_forget ?op s = {}" by (auto simp: forgotten_def)
      moreover have "spool_step ?op s = s" using opened None by (simp add: Ack_def)
      ultimately show ?thesis by (intro exI [of _ "{}"]) simp
    next
      case (Some p)
      then have p: "p \<in> set (host_list s h)" "?P p" by (auto simp: find_Some_iff)
      note own = host_list_facts(2) [OF inv p(1)]
      let ?u = "e_id (ent s p)"
      have u: "map_of (index s) ?u = Some p" using own inv by (auto simp: spool_inv_def index_inv_def)
      then have mem: "?u \<in> may_forget ?op s" using own p(2) by (auto simp: forgotten_def)
      have "deleteLocked env p s = (None, spool_step ?op s)"
        using True opened Some by (simp add: Ack_def case_prod_beta) (metis prod.collapse)
      from deleted_map [OF inv env u this] show ?thesis
        using mem by (intro exI [of _ "{?u}"]) auto
    qed
  qed
qed

lemma ack_id_takes_out:
  assumes inv: "spool_inv s" and env: "env_ok env"
  shows "\<exists>D. takes_out (OpAckID env h u) s D \<and> spool_map (spool_step (OpAckID env h u) s) = spool_map s |` (- D)"
proof -
  let ?op = "OpAckID env h u"
  note k = keeps_ack_id [OF inv env, of h u]
  obtain D where D: "D \<subseteq> may_forget ?op s" "spool_map (spool_step ?op s) = spool_map s |` (- D)"
    using shrinks_map [OF inv keeps_retains [OF k] keeps_shrinks [OF k]] by blast
  have all: "spool_map (spool_step ?op s) = spool_map s |` (- may_forget ?op s)" if ok: "fst (fst (AckID env h u s)) = None"
  proof (rule exact_map [OF inv k])
    fix v
    assume "v \<in> may_forget ?op s"
    then obtain p where v: "map_of (index s) v = Some p" "e_hostID (ent s p) = h" "e_id (ent s p) = u" by (auto simp: forgotten_def)
    then have "v = u" using inv by (auto simp: spool_inv_def index_inv_def)
    moreover have "\<not> closed s" using ok by (auto simp: AckID_def)
    ultimately have "deleteLocked env p s = (None, spool_step ?op s)"
      using ok v by (simp add: AckID_def case_prod_beta) (metis prod.collapse)
    then show "map_of (index (spool_step ?op s)) v = None" using delete_forgets [OF inv env v(1)] by blast
  qed
  show ?thesis
  proof (cases "fst (fst (AckID env h u s)) = None")
    case True
    then show ?thesis using all by (intro exI [of _ "may_forget ?op s"]) (simp del: spool_step.simps may_forget.simps not_None_eq)
  next
    case False
    then show ?thesis using D by (intro exI [of _ D]) (simp del: spool_step.simps may_forget.simps not_None_eq)
  qed
qed

lemma forget_takes_out:
  assumes inv: "spool_inv s" and env: "env_ok env"
  shows "\<exists>D. takes_out (OpForget env h grace lastNamed) s D
    \<and> spool_map (spool_step (OpForget env h grace lastNamed) s) = spool_map s |` (- D)"
proof -
  let ?op = "OpForget env h grace lastNamed"
  let ?none = "fst (fst (ForgetUnacknowledged env h grace lastNamed s)) = None"
  note k = keeps_forget [OF inv env, of h grace lastNamed]
  obtain D where D: "D \<subseteq> may_forget ?op s" "spool_map (spool_step ?op s) = spool_map s |` (- D)"
    using shrinks_map [OF inv keeps_retains [OF k] keeps_shrinks [OF k]] by blast
  have all: "spool_map (spool_step ?op s) = spool_map s |` (- may_forget ?op s)" if ok: ?none
  proof (rule exact_map [OF inv k])
    fix v
    assume "v \<in> may_forget ?op s"
    then obtain p where v: "map_of (index s) v = Some p" "forgettable (env_now env) grace lastNamed (ent s p)" "e_hostID (ent s p) = h"
      by (auto simp: forgotten_def)
    have id: "e_id (ent s p) = v" using inv v(1) by (auto simp: spool_inv_def index_inv_def)
    have "p \<in> set (host_list s h)" using inv v by (auto simp: spool_inv_def host_inv_def)
    moreover obtain n where "forget_each env grace lastNamed (host_list s h) 0 s = ((None, n), spool_step ?op s)"
      using ok by (auto simp: ForgetUnacknowledged_def split: if_splits) (metis prod.collapse)
    ultimately show "map_of (index (spool_step ?op s)) v = None"
      using forget_each_forgets [OF inv env listed_hosts [OF inv] _ _ v(2)] unfolding id by blast
  qed
  show ?thesis
  proof (cases "?none")
    case True
    then show ?thesis using all by (intro exI [of _ "may_forget ?op s"]) (simp del: spool_step.simps may_forget.simps not_None_eq)
  next
    case False
    then show ?thesis using D by (intro exI [of _ D]) (simp del: spool_step.simps may_forget.simps not_None_eq)
  qed
qed

lemma delete_takes_out:
  assumes inv: "spool_inv s" and env: "env_ok env"
  shows "\<exists>D. takes_out (OpDelete env u) s D \<and> spool_map (spool_step (OpDelete env u) s) = spool_map s |` (- D)"
proof -
  let ?op = "OpDelete env u"
  note k = keeps_Delete [OF inv env, of u]
  obtain D where D: "D \<subseteq> {u}" "spool_map (spool_step ?op s) = spool_map s |` (- D)"
    using shrinks_map [OF inv keeps_retains [OF k] keeps_shrinks [OF k]] by auto
  have all: "spool_map (spool_step ?op s) = spool_map s |` (- {u})" if ok: "fst (Delete env u s) = None"
  proof -
    have "map_of (index (spool_step ?op s)) u = None"
    proof (cases "map_of (index s) u")
      case None
      then show ?thesis by (rule keeps_gone [OF k])
    next
      case (Some p)
      moreover have "\<not> closed s" using ok by (auto simp: Delete_def)
      ultimately have "deleteLocked env p s = (None, spool_step ?op s)"
        using ok by (simp add: Delete_def) (metis prod.collapse)
      then show ?thesis using delete_forgets [OF inv env Some] by blast
    qed
    then show ?thesis using exact_map [OF inv k] by simp
  qed
  show ?thesis
  proof (cases "fst (Delete env u s) = None")
    case True
    then show ?thesis using all by (intro exI [of _ "{u}"]) (simp del: spool_step.simps may_forget.simps not_None_eq)
  next
    case False
    then show ?thesis using D by (intro exI [of _ D]) (simp del: spool_step.simps may_forget.simps not_None_eq)
  qed
qed

lemma step_takes_out:
  assumes inv: "spool_inv s" and ok: "op_ok op s" and op: "\<And>env r. op \<noteq> OpAppend env r"
  shows "\<exists>D. takes_out op s D \<and> spool_map (spool_step op s) = spool_map s |` (- D)"
proof -
  have "retains (may_forget op s) s (spool_step op s)" by (rule conjunct1 [OF retains_step [OF inv ok]])
  from shrinks_map [OF inv this shrinks_step [OF inv ok op]] have any:
    "\<exists>D \<subseteq> may_forget op s. spool_map (spool_step op s) = spool_map s |` (- D)" .
  have rest: "\<exists>D. takes_out op s D \<and> spool_map (spool_step op s) = spool_map s |` (- D)" if "takes_out op s = (\<lambda>D. D \<subseteq> may_forget op s)"
    using any that by simp
  show ?thesis
  proof (cases op)
    case (OpAck env h session seq)
    then show ?thesis using ack_takes_out [OF inv] ok by (simp only: op_ok.simps)
  next
    case (OpAckID env h u)
    then show ?thesis using ack_id_takes_out [OF inv] ok by (simp only: op_ok.simps)
  next
    case (OpForget env h grace lastNamed)
    then show ?thesis using forget_takes_out [OF inv] ok by (simp only: op_ok.simps)
  next
    case (OpDelete env u)
    then show ?thesis using delete_takes_out [OF inv] ok by (simp only: op_ok.simps)
  next
    case (OpAppend env r)
    then show ?thesis using op by blast
  qed (rule rest, simp add: fun_eq_iff)+
qed

text \<open>An append puts its record in when it answers no error, and otherwise perhaps.\<close>

lemma append_puts_in:
  assumes inv: "spool_inv s" and ok: "op_ok (OpAppend env r) s" and ap: "Append env r s = (err, s')"
  shows "\<exists>D. takes_out (OpAppend env r) s D
    \<and> (spool_map s' = (spool_map s |` (- D))(r_ID r \<mapsto> sited s r) \<or> err \<noteq> None \<and> spool_map s' = spool_map s |` (- D))"
proof -
  obtain D where D: "D \<subseteq> append_forgets env r s"
    "spool_map s' = spool_map s |` (- D) \<or> spool_map s' = (spool_map s |` (- D))(r_ID r \<mapsto> sited s r)"
    using append_map(1) [OF assms] by blast
  show ?thesis
  proof (cases "err = None \<and> spool_map s' = spool_map s |` (- D)")
    case True
    then have "spool_map s' (r_ID r) = Some (sited s r)" using append_map(2) [OF assms] by simp
    then have "spool_map s' = (spool_map s |` (- D))(r_ID r \<mapsto> sited s r)"
      using True by (metis fun_upd_triv)
    then show ?thesis using D(1) by auto
  next
    case False
    then show ?thesis using D by auto
  qed
qed

end
