(* ===== verification/Spool_Properties.thy ===== *)
theory Spool_Properties
  imports Spool_Reach
begin

text \<open>
  What the relay's spool promises, over any sequence of its operations and restarts: a record it
  took stays until an operation that may forget it, is sent in order and goes with its
  acknowledgement, and the bytes in use grow no further than the limit. A run starts from an empty
  directory. Its system calls may fail at any moment but write nothing when they do, except for a
  write that a stop of the process cuts off; the calls an opening makes succeed. The last section
  shows what happens when a write that fails leaves its first bytes.
\<close>

section \<open>A sample spool\<close>

definition sample_env :: spool_env where
  "sample_env = \<lparr>env_now = 5, freeBytes = (\<lambda>_. None), shuffle = (\<lambda>ps. ps), message_full = (\<lambda>_. False)\<rparr>"

definition sample_record :: "char \<Rightarrow> spool_record" where
  "sample_record c =
     \<lparr>r_ID = replicate 16 c, r_Site = ''a'', r_HostID = ''h'', r_SessionID = ''s'', r_Stream = StreamControl,
      r_Priority = PriorityControl, r_Sequence = 7, r_CreatedAt = 1, r_ExpiresAt = None, r_Envelope = [],
      r_Payload = [], r_PayloadHash = sha256 []\<rparr>"

definition sample_options :: Options where
  "sample_options =
     \<lparr>o_Site = ''a'', MaxBytes = 1000, CriticalReserveBytes = 100, MinFreeBytes = 0, AckTimeout = 10,
      MaxInflightPerHost = 2, SegmentBytes = 130, FlushInterval = 1\<rparr>"

abbreviation fresh_spool :: spool where
  "fresh_spool \<equiv> new_spool sample_options [] []"

lemma sample_env_ok: "env_ok sample_env"
  by (simp add: env_ok_def sample_env_def)

lemma sample_fits: "fits (sample_record c)" "Size (sample_record c) = 112" "length (encode (sample_record c)) = 99"
proof -
  show f: "fits (sample_record c)"
    by (simp add: fits_def sample_record_def StreamControl_def bodySize_def maxRecordBytes_def)
  show "Size (sample_record c) = 112" "length (encode (sample_record c)) = 99"
    using fits_size [OF f] by (simp_all add: Size_def headerSize_def bodySize_def sample_record_def StreamControl_def)
qed

lemma fill_sample [simp]: "fill sample_options = sample_options"
  by (simp add: fill_def sample_options_def Let_def)

lemma sample_options_fields [simp]: "SegmentBytes sample_options = 130" "MaxBytes sample_options = 1000"
  by (simp_all add: sample_options_def)

lemma fresh_eq:
  "fresh_spool = \<lparr>sp_options = sample_options, index = [], byHost = [], segments = [], active = None, nextID = 0, sp_live = 0,
      dropped = 0, expired = 0, dirty = False, closed = False, flushErr = None, heap = [], disk = [], io = []\<rparr>"
  by (simp add: new_spool_def)

lemma fresh_start: "spool_start fresh_spool"
  unfolding spool_start_def
  by (rule exI [of _ sample_env], rule exI [of _ sample_options], rule exI [of _ "[]"])
     (simp add: Open_def rebuild_def listSegments_def syscall_def new_spool_def)

lemma fresh_written: "written fresh_spool = {}"
  by (simp add: written_def logged_def new_spool_def)

lemma sample_fields [simp]:
  "r_ID (sample_record c) = replicate 16 c" "r_HostID (sample_record c) = ''h''" "r_Stream (sample_record c) = StreamControl"
  "r_Site (sample_record c) = ''a''" "r_Priority (sample_record c) = PriorityControl" "r_SessionID (sample_record c) = ''s''"
  "r_Sequence (sample_record c) = 7"
  by (simp_all add: sample_record_def)

lemma sample_sited: "sited s (sample_record c) = sample_record c"
  by (simp add: sited_def)

lemma sample_permitted: "permitted [OpAppend sample_env (sample_record c)] fresh_spool"
  using sample_env_ok sample_fits(1) [of c] fresh_written by (simp add: sample_sited)

lemma sample_room: "sp_live s \<le> 800 \<Longrightarrow> sp_options s = sample_options \<Longrightarrow> roomLocked sample_env PriorityControl 112 s = None"
  by (simp add: roomLocked_def sample_env_def sample_options_def PriorityControl_def PriorityJobResult_def)

text \<open>A sample record is a durable one of the control stream: no room is made for it.\<close>

lemma sample_append:
  assumes "\<not> closed s" "sp_live s \<le> 800" "sp_options s = sample_options"
  shows "Append sample_env (sample_record c) s =
     (case writeLocked sample_env (sample_record c) s of
        (Some e, s) \<Rightarrow> (Some e, s\<lparr>flushErr := Some e\<rparr>)
      | (None, s) \<Rightarrow>
          (case (case active s of None \<Rightarrow> (Some IOError, s) | Some a \<Rightarrow> sync_segment a s) of
             (Some e, s) \<Rightarrow> (Some e, s\<lparr>flushErr := Some e\<rparr>)
           | (None, s) \<Rightarrow> (None, s\<lparr>flushErr := None, dirty := False\<rparr>)))"
proof -
  have "make_room sample_env (sample_record c) s = (None, s)"
    using sample_room [OF assms(2,3)]
    by (simp add: make_room_def sample_fits StreamControl_def StreamInventory_def StreamMetric_def)
  moreover have "Durable StreamControl" by (simp add: Durable_iff)
  ultimately show ?thesis
    using assms(1) by (simp add: Append_make_room sample_sited notKeptLocked_def split: prod.splits option.splits)
qed

lemmas spool_eval = writeLocked_def roll_if_full_def rollLocked_def close_segment_def createSegment_def append_frame_def
  syscall_def seg_file_def set_state_def add_entry_def host_list_def Let_def sync_segment_def

definition one_record :: "char \<Rightarrow> spool" where
  "one_record c =
     \<lparr>sp_options = sample_options, index = [(replicate 16 c, 0)], byHost = [(''h'', [0])],
      segments = [(1, \<lparr>st_size = 112, st_live = 1\<rparr>)], active = Some \<lparr>sg_id = 1, sg_size = 112, sg_open = True\<rparr>,
      nextID = 1, sp_live = 112, dropped = 0, expired = 0, dirty = False, closed = False, flushErr = None,
      heap = [entry_of sample_env (sample_record c) 112 1 0],
      disk = [(1, frame kindRecord (encode (sample_record c)))], io = []\<rparr>"

lemma append_first: "Append sample_env (sample_record c) fresh_spool = (None, one_record c)"
proof -
  have "Append sample_env (sample_record c) fresh_spool
     = (case writeLocked sample_env (sample_record c) fresh_spool of
        (Some e, s) \<Rightarrow> (Some e, s\<lparr>flushErr := Some e\<rparr>)
      | (None, s) \<Rightarrow>
          (case (case active s of None \<Rightarrow> (Some IOError, s) | Some a \<Rightarrow> sync_segment a s) of
             (Some e, s) \<Rightarrow> (Some e, s\<lparr>flushErr := Some e\<rparr>)
           | (None, s) \<Rightarrow> (None, s\<lparr>flushErr := None, dirty := False\<rparr>)))"
    by (rule sample_append) (simp_all add: fresh_eq)
  then show ?thesis
    by (simp add: fresh_eq spool_eval sample_fits headerSize_def one_record_def entry_of_def)
qed

lemma one_record_run: "spool_run [OpAppend sample_env (sample_record c)] fresh_spool = one_record c"
  by (simp add: append_first)

lemma one_record_reached: "spool_move\<^sup>*\<^sup>* fresh_spool (one_record c)"
  using spool_run_moves [OF sample_permitted [of c]] unfolding one_record_run .


lemma one_record_map: "spool_map (one_record c) (replicate 16 c) = Some (sample_record c)"
  using append_map(2) [of fresh_spool sample_env "sample_record c" None "one_record c"] reachable_inv [OF fresh_start rtranclp.rtrancl_refl]
    sample_permitted [of c] append_first [of c]
  by (simp add: sample_sited)

text \<open>The files of one record, with the start of a frame behind it.\<close>

definition cut_files :: "(nat \<times> string) list" where
  "cut_files = [(1, frame kindRecord (encode (sample_record CHR ''x'')) @ take 5 (frame kindTombstone ''lost''))]"

lemma one_record_cut: "interrupted (one_record CHR ''x'') cut_files"
proof -
  have "\<exists>kind body n. length body \<le> maxRecordBytes \<and> n < length (frame kind body)
      \<and> take 5 (frame kindTombstone ''lost'') = take n (frame kind body)"
    by (rule exI [of _ kindTombstone], rule exI [of _ "''lost''"], rule exI [of _ 5]) (simp add: maxRecordBytes_def headerSize_def)
  then show ?thesis unfolding interrupted_def cut_files_def by (auto simp: one_record_def)
qed

section \<open>Properties\<close>



text \<open>
  C8: A spool opened over the files of any state operations and restarts lead to, even one stopped
  in the middle of a write, opens when the calls of the opening succeed and holds every record
  that state held, each as it was appended.
\<close>

theorem restart_recovers_every_record:
  assumes "spool_start s0" and "spool_move\<^sup>*\<^sup>* s0 s" and "interrupted s d" and "set outcomes \<subseteq> {Done}"
  shows "\<exists>t. Open env opts d outcomes = Inr t \<and> spool_map s \<subseteq>\<^sub>m spool_map t"
  using reopened [OF _ assms(3,4), of env opts] reachable_inv [OF assms(1,2)] by blast

theorem restart_recovers_every_record_witness:
  "\<exists>s. Open sample_env sample_options cut_files [] = Inr s
     \<and> spool_map s (replicate 16 CHR ''x'') = Some (sample_record CHR ''x'')"
proof -
  have "set [] \<subseteq> {Done}" by simp
  from restart_recovers_every_record [OF fresh_start one_record_reached one_record_cut this, of sample_env sample_options]
  show ?thesis using one_record_map [of "CHR ''x''"] unfolding map_le_def by (metis (no_types) domI)
qed



text \<open>
  C34: In any state operations and restarts lead to, the bytes the spool counts are the sizes of
  the records it holds. While the process runs they grow no further than the limit: after any
  operations they are within the limit or at most what they were, so a spool that starts empty
  stays within it, and after an append that answers no error they are within the limit. An opening checks no limit: what it finds in the files it
  holds, and a lower limit than before, or records whose tombstones are gone, may put it above.
\<close>

theorem bytes_within_the_limit:
  assumes "spool_start s0" and "spool_move\<^sup>*\<^sup>* s0 s" and "permitted ops s"
  shows "BytesUsed (stats env s) = (\<Sum>(u, p) \<in> set (index s). int (e_size (ent s p)))
    \<and> BytesUsed (stats env (spool_run ops s)) \<le> max (BytesLimit (stats env s)) (BytesUsed (stats env s))
    \<and> (op_ok (OpAppend env r) s \<and> fst (Append env r s) = None \<longrightarrow>
         BytesUsed (stats env (snd (Append env r s))) \<le> BytesLimit (stats env s))"
proof -
  note inv = reachable_inv [OF assms(1,2)]
  have "sp_live (spool_run ops s) \<le> max (MaxBytes (sp_options s)) (sp_live s)"
    using run_live [OF _ assms(3)] inv by (simp add: spool_ready_def)
  moreover have "sp_live (snd (Append env r s)) \<le> MaxBytes (sp_options s)"
    if "op_ok (OpAppend env r) s" "fst (Append env r s) = None"
    using retains_append [of s env r None "snd (Append env r s)"] inv that by (simp add: prod_eq_iff)
  ultimately show ?thesis using sp_live_sum [of s] inv by (simp add: stats_def)
qed

theorem bytes_within_the_limit_witness:
  "BytesUsed (stats sample_env (one_record CHR ''x'')) = 112
    \<and> BytesUsed (stats sample_env (spool_run [OpFlush, OpUnsend ''h''] (one_record CHR ''x''))) \<le> 1000"
proof -
  have "permitted [OpFlush, OpUnsend ''h''] (one_record CHR ''x'')" by simp
  from bytes_within_the_limit [OF fresh_start one_record_reached this, of sample_env]
  show ?thesis by (simp add: one_record_def stats_def del: spool_run.simps)
qed

text \<open>
  C35: A record that fits the layout is read back from its frame as it was, whatever follows the
  frame in the file.
\<close>

theorem record_round_trip:
  assumes "fits r"
  shows "readFrame (frame kindRecord (encode r) @ rest) = Frame kindRecord (encode r) rest \<and> decode (encode r) = Inr r"
  using readFrame_frame [of "encode r" kindRecord rest] fits_size [OF assms] decode_encode_append [OF assms, of "[]"] by simp

theorem record_round_trip_witness: "decode (encode (sample_record CHR ''x'')) = Inr (sample_record CHR ''x'')"
  using record_round_trip [OF sample_fits(1) [of "CHR ''x''"]] by simp

text \<open>
  C36: While calls succeed, in any state operations and restarts lead to, \<open>Next\<close> sends records of
  the host alone, by priority, sequence and age, none that is in flight, none before a more urgent
  one that waits, and no more than the limit asked for and the window of the host leave room for;
  a record that waits stays unsent only when that room is used up.
\<close>

theorem next_sends_most_urgent:
  assumes "spool_start s0" and "spool_move\<^sup>*\<^sup>* s0 s1" and "env_ok env" and "calls_succeed s1"
    and "\<not> closed s1" and "s = expireLocked env h s1"
  shows "\<exists>ps rs. fst (Next env h limit s1) = Inr rs \<and> map Some rs = map (record_at s) ps
    \<and> distinct ps \<and> set ps \<subseteq> set (host_list s h) \<and> sorted (map (\<lambda>p. send_key (ent s p)) ps)
    \<and> (\<forall>p \<in> set ps. \<not> in_flight env s (ent s p))
    \<and> (\<forall>p \<in> set ps. \<forall>q \<in> set (host_list s h) - set ps. \<not> in_flight env s (ent s q) \<longrightarrow> send_key (ent s p) \<le> send_key (ent s q))
    \<and> (ps \<noteq> [] \<longrightarrow> int (length ps) + int (length (filter (\<lambda>p. in_flight env s (ent s p)) (host_list s h)))
          \<le> MaxInflightPerHost (sp_options s))
    \<and> (0 < limit \<longrightarrow> int (length rs) \<le> limit)
    \<and> ((\<exists>q \<in> set (host_list s h) - set ps. \<not> in_flight env s (ent s q)) \<longrightarrow>
         0 < limit \<and> int (length rs) = limit
         \<or> MaxInflightPerHost (sp_options s)
             \<le> int (length ps) + int (length (filter (\<lambda>p. in_flight env s (ent s p)) (host_list s h))))"
proof -
  have inv0: "spool_inv s1" using reachable_inv [OF assms(1,2)] by blast
  note k = keeps_expire [OF inv0 assms(3), of h, folded assms(6)]
  note inv = keeps_inv [OF k]
  have ok: "calls_succeed s" using k assms(4) by (auto simp: keeps_def calls_succeed_def)
  let ?ps = "next_due env h limit s"
  obtain rs s' where sd: "send_each env ?ps s = (rs, s')" by (cases "send_each env ?ps s")
  have ix: "\<forall>p \<in> set ?ps. \<exists>u. map_of (index s) u = Some p"
    using next_due_facts(2) [OF inv] host_list_facts(2) [OF inv] by blast
  have rs: "map Some rs = map (record_at s) ?ps"
    using retains_send [OF inv assms(3) next_due_facts(1) [OF inv] ix sd] ok by blast
  have nx: "fst (Next env h limit s1) = Inr rs" using assms(5,6) sd by (simp add: Next_unfold)
  have sub: "p \<in> set (host_list s h) \<and> \<not> in_flight env s (ent s p)" if "p \<in> set ?ps" for p
    using that by (auto simp: next_due_def dest!: in_set_takeD)
  have len: "length rs = length ?ps" using rs by (metis length_map)
  have room: "int (length ?ps) + int (length (filter (\<lambda>p. in_flight env s (ent s p)) (host_list s h))) \<le> MaxInflightPerHost (sp_options s)"
    if "?ps \<noteq> []"
  proof -
    have "0 < length ?ps" using that by simp
    then have "int (length ?ps) \<le> next_room env h limit s" using next_due_facts(4) [OF inv, of env h limit] by linarith
    then show ?thesis by (simp add: next_room_def Let_def split: if_splits)
  qed
  have lim: "int (length rs) \<le> limit" if "0 < limit"
    using that len next_due_facts(4) [OF inv, of env h limit] by (auto simp: next_room_def Let_def split: if_splits)
  have full: "0 < limit \<and> int (length rs) = limit
      \<or> MaxInflightPerHost (sp_options s) \<le> int (length ?ps) + int (length (filter (\<lambda>p. in_flight env s (ent s p)) (host_list s h)))"
    if "\<exists>q \<in> set (host_list s h) - set ?ps. \<not> in_flight env s (ent s q)"
    using next_due_left(2) [of _ s h env limit] that len by (auto simp: next_room_def Let_def split: if_splits)
  have dist: "distinct ?ps" and srt: "sorted (map (\<lambda>p. send_key (ent s p)) ?ps)" using next_due_facts(1,3) [OF inv] by blast+
  show ?thesis
    by (rule exI [of _ ?ps], rule exI [of _ rs], intro conjI ballI impI subsetI nx rs dist srt room lim full)
       (simp_all only: sub next_due_left(1) not_False_eq_True simp_thms)
qed

theorem next_sends_most_urgent_witness:
  "\<exists>ps rs. fst (Next sample_env ''h'' 1 (one_record CHR ''x'')) = Inr rs \<and> int (length rs) = 1
     \<and> map Some rs = map (record_at (one_record CHR ''x'')) ps"
proof -
  let ?s = "one_record CHR ''x''"
  have "expireLocked sample_env ''h'' ?s = ?s"
    by (simp add: expireLocked_def host_list_def one_record_def past_expiry_def entry_of_def sample_record_def)
  moreover have "calls_succeed ?s" "\<not> closed ?s"
    by (simp_all add: calls_succeed_def one_record_def)
  ultimately obtain ps rs where n: "fst (Next sample_env ''h'' 1 ?s) = Inr rs" "map Some rs = map (record_at ?s) ps"
      "int (length rs) \<le> 1"
      "(\<exists>q \<in> set (host_list ?s ''h'') - set ps. \<not> in_flight sample_env ?s (ent ?s q)) \<longrightarrow>
         int (length rs) = 1 \<or> MaxInflightPerHost (sp_options ?s)
             \<le> int (length ps) + int (length (filter (\<lambda>p. in_flight sample_env ?s (ent ?s p)) (host_list ?s ''h'')))"
    using next_sends_most_urgent [OF fresh_start one_record_reached sample_env_ok, of "CHR ''x''" ?s "''h''" 1] by auto
  have "host_list ?s ''h'' = [0]" "\<not> in_flight sample_env ?s (ent ?s 0)" "MaxInflightPerHost (sp_options ?s) = 2"
    by (simp_all add: host_list_def one_record_def in_flight_def entry_of_def sample_options_def)
  moreover have "length rs = length ps" using n(2) by (metis length_map)
  ultimately have "int (length rs) = 1" using n(3,4) by (cases rs; cases ps) auto
  then show ?thesis using n(1,2) by blast
qed

text \<open>
  C37: In any state operations and restarts lead to, an acknowledgement by identifier that answers
  no error takes exactly that record out of the spool and frees its bytes; one for another host
  changes nothing.
\<close>

theorem acknowledged_record_is_gone:
  assumes "spool_start s0" and "spool_move\<^sup>*\<^sup>* s0 s" and "env_ok env" and "\<not> closed s"
    and "map_of (index s) u = Some p" and "AckID env h u s = ((None, known), s')"
  shows "(h = e_hostID (ent s p) \<longrightarrow> known \<and> spool_map s' = (spool_map s)(u := None)
        \<and> sp_live s' \<le> sp_live s - int (e_size (ent s p)))
    \<and> (h \<noteq> e_hostID (ent s p) \<longrightarrow> \<not> known \<and> s' = s)"
proof -
  have inv: "spool_inv s" using reachable_inv [OF assms(1,2)] by blast
  show ?thesis
  proof (cases "h = e_hostID (ent s p)")
    case False
    then show ?thesis using assms(4-6) by (simp add: AckID_def)
  next
    case True
    then have del: "deleteLocked env p s = (None, s')" and known
      using assms(4-6) by (auto simp: AckID_def split: prod.splits)
    have k: "keeps {u} s s'" by (rule keeps_delete [OF inv assms(3,5) del])
    have gone: "map_of (index s') u = None" by (rule delete_forgets [OF inv assms(3,5) del])
    have "spool_map s' = (spool_map s)(u := None)"
      using deleted_map [OF inv assms(3,5) del] by (auto simp: restrict_map_def fun_eq_iff)
    moreover have "sp_live s' \<le> sp_live s - int (e_size (ent s p))"
      using delete_live [OF inv k assms(5) gone] .
    ultimately show ?thesis using True \<open>known\<close> by blast
  qed
qed

theorem acknowledged_record_is_gone_witness:
  "\<exists>s. AckID sample_env ''h'' (replicate 16 CHR ''x'') (one_record CHR ''x'') = ((None, True), s)
     \<and> spool_map s (replicate 16 CHR ''x'') = None \<and> sp_live s \<le> 0"
proof -
  let ?u = "replicate 16 CHR ''x''"
  obtain known s where a: "AckID sample_env ''h'' ?u (one_record CHR ''x'') = ((None, known), s)"
    by (simp add: AckID_def one_record_def entry_of_def deleteLocked_def roll_if_full_def append_frame_def syscall_def set_state_def
        release_segment_def drop_entry_def host_list_def compactLocked_def diskLocked_def sample_options_def headerSize_def Let_def)
  show ?thesis
    using acknowledged_record_is_gone [OF fresh_start one_record_reached sample_env_ok, of "CHR ''x''" ?u 0 "''h''" known s] a
    by (simp add: one_record_def entry_of_def)
qed

section \<open>Two ways records and tombstones are lost\<close>

lemma frame_head: "\<exists>t. frame kind body = ''FSP1'' @ t"
  by (simp add: frame_def magic_def)

text \<open>A start of a frame and then a frame: no frame at all.\<close>

lemma readFrame_doubled:
  assumes "0 < n" "n < 4"
  shows "readFrame (take n (frame kind body) @ frame kind' body' @ rest) = Torn"
proof -
  let ?s = "take n (frame kind body) @ frame kind' body' @ rest"
  obtain t t' where t: "frame kind body = ''FSP1'' @ t" "frame kind' body' = ''FSP1'' @ t'" using frame_head by metis
  have "n = 1 \<or> n = 2 \<or> n = 3" using assms by auto
  then have "take 4 (take headerSize ?s) \<noteq> magic"
    unfolding t by (auto simp: magic_def headerSize_def)
  then show ?thesis by (auto simp: readFrame_def ReadFull_def headerSize_def)
qed

text \<open>
  C38: After a write to a fresh spool that stopped after the first one to three bytes of a frame, the next durable record is
  taken without an error and can be read back neither from the spool nor after a restart, which
  cuts it off: the size of the segment was left where the torn frame began.
\<close>

theorem short_write_hides_the_next_record:
  assumes "0 < n" and "n < 4"
  shows "\<exists>s0 s1 s2 p s3. Open sample_env sample_options [] [Done, Done, Done, Done, Done, Fail n] = Inr s0
    \<and> Append sample_env (sample_record c) s0 = (Some IOError, s1)
    \<and> Append sample_env (sample_record d) s1 = (None, s2)
    \<and> map_of (index s2) (replicate 16 d) = Some p \<and> record_at s2 p = None
    \<and> Open sample_env sample_options (disk s2) [] = Inr s3 \<and> spool_map s3 = Map.empty"
proof -
  let ?s0 = "fresh_spool\<lparr>io := [Done, Done, Fail n]\<rparr>"
  let ?f = "frame kindRecord (encode (sample_record c))" and ?g = "frame kindRecord (encode (sample_record d))"
  let ?s1 = "fresh_spool\<lparr>segments := [(1, \<lparr>st_size = 0, st_live = 0\<rparr>)], active := Some \<lparr>sg_id = 1, sg_size = 0, sg_open = True\<rparr>,
      nextID := 1, flushErr := Some IOError, disk := [(1, take n ?f)]\<rparr>"
  let ?s2 = "?s1\<lparr>index := [(replicate 16 d, 0)], byHost := [(''h'', [0])], segments := [(1, \<lparr>st_size = 112, st_live = 1\<rparr>)],
      active := Some \<lparr>sg_id = 1, sg_size = 112, sg_open = True\<rparr>, sp_live := 112, flushErr := None,
      heap := [entry_of sample_env (sample_record d) 112 1 0], disk := [(1, take n ?f @ ?g)]\<rparr>"
  have o0: "Open sample_env sample_options [] [Done, Done, Done, Done, Done, Fail n] = Inr ?s0"
    by (simp add: Open_def rebuild_def listSegments_def syscall_def new_spool_def)
  have a1: "Append sample_env (sample_record c) ?s0 = (Some IOError, ?s1)"
    by (subst sample_append; simp add: fresh_eq spool_eval)
  have a2: "Append sample_env (sample_record d) ?s1 = (None, ?s2)"
    by (subst sample_append; simp add: fresh_eq spool_eval sample_fits headerSize_def entry_of_def)
  have torn: "readFrame (take n ?f @ ?g) = Torn" using readFrame_doubled [OF assms, of kindRecord _ kindRecord _ "[]"] by simp
  have lost: "record_at ?s2 0 = None" by (simp add: record_at_def entry_of_def torn)
  have "fst (walk 0 (take n ?f @ ?g)) = []" by (simp add: walk.simps [of 0 "take n ?f @ ?g"] torn)
  then have log: "logged (new_spool sample_options (disk ?s2) []) = {}" by (auto simp: logged_def new_spool_def split: if_splits)
  obtain s3 where s3: "Open sample_env sample_options (disk ?s2) [] = Inr s3" "{u. map_of (index s3) u \<noteq> None} = r_ID ` living {}"
    using Open_succeeds [of "[]" "disk ?s2" sample_options sample_env] unfolding log by (auto simp: sound_log_def)
  have "spool_map s3 = Map.empty" using s3(2) by (auto simp: living_def spool_map_def fun_eq_iff split: option.splits)
  then show ?thesis using o0 a1 a2 lost s3(1)
    by (intro exI [of _ ?s0] exI [of _ ?s1] exI [of _ ?s2] exI [of _ 0] exI [of _ s3]) simp
qed

theorem short_write_hides_the_next_record_witness:
  "\<exists>s0 s1 s2 p. Open sample_env sample_options [] [Done, Done, Done, Done, Done, Fail 2] = Inr s0
    \<and> Append sample_env (sample_record CHR ''a'') s0 = (Some IOError, s1)
    \<and> Append sample_env (sample_record CHR ''b'') s1 = (None, s2)
    \<and> map_of (index s2) (replicate 16 CHR ''b'') = Some p \<and> record_at s2 p = None"
  using short_write_hides_the_next_record [of 2 "CHR ''a''" "CHR ''b''"] by auto

text \<open>Three records, two of them in the first segment.\<close>

definition three_records :: spool where
  "three_records =
     (let e = \<lambda>c. entry_of sample_env (sample_record c) 112; f = \<lambda>c. frame kindRecord (encode (sample_record c)) in
      \<lparr>sp_options = sample_options,
       index = [(replicate 16 CHR ''a'', 0), (replicate 16 CHR ''c'', 1), (replicate 16 CHR ''b'', 2)],
       byHost = [(''h'', [0, 1, 2])],
       segments = [(1, \<lparr>st_size = 224, st_live = 2\<rparr>), (2, \<lparr>st_size = 112, st_live = 1\<rparr>)],
       active = Some \<lparr>sg_id = 2, sg_size = 112, sg_open = True\<rparr>,
       nextID = 2, sp_live = 336, dropped = 0, expired = 0, dirty = False, closed = False, flushErr = None,
       heap = [e CHR ''a'' 1 0, e CHR ''c'' 1 112, e CHR ''b'' 2 0],
       disk = [(1, f CHR ''a'' @ f CHR ''c''), (2, f CHR ''b'')], io = []\<rparr>)"

lemma distinct_ids: "c \<noteq> d \<Longrightarrow> replicate 16 c \<noteq> replicate 16 d"
  by (simp add: numeral_eq_Suc)

lemma three_records_run:
  "spool_run [OpAppend sample_env (sample_record CHR ''a''), OpAppend sample_env (sample_record CHR ''c''),
     OpAppend sample_env (sample_record CHR ''b'')] fresh_spool = three_records"
proof -
  note ids = distinct_ids [of "CHR ''a''" "CHR ''c''"] distinct_ids [of "CHR ''a''" "CHR ''b''"] distinct_ids [of "CHR ''c''" "CHR ''b''"]
  obtain s2 where s2: "snd (Append sample_env (sample_record CHR ''c'') (one_record CHR ''a'')) = s2" by blast
  have e2: "s2 = (one_record CHR ''a'')\<lparr>
      index := [(replicate 16 CHR ''a'', 0), (replicate 16 CHR ''c'', 1)], byHost := [(''h'', [0, 1])],
      segments := [(1, \<lparr>st_size = 224, st_live = 2\<rparr>)], active := Some \<lparr>sg_id = 1, sg_size = 224, sg_open = True\<rparr>,
      sp_live := 224, heap := [entry_of sample_env (sample_record CHR ''a'') 112 1 0, entry_of sample_env (sample_record CHR ''c'') 112 1 112],
      disk := [(1, frame kindRecord (encode (sample_record CHR ''a'')) @ frame kindRecord (encode (sample_record CHR ''c'')))]\<rparr>"
    unfolding s2 [symmetric] using ids
    by (subst sample_append; simp add: one_record_def spool_eval sample_fits headerSize_def entry_of_def)
  have "snd (Append sample_env (sample_record CHR ''b'') s2) = three_records"
    unfolding e2 using ids
    by (subst sample_append; simp add: one_record_def three_records_def spool_eval sample_fits headerSize_def entry_of_def)
  then show ?thesis using s2 append_first [of "CHR ''a''"] by simp
qed

lemmas delete_eval = AckID_def deleteLocked_def release_segment_def remove_file_def drop_entry_def compactLocked_def diskLocked_def

definition two_acknowledged :: spool where
  "two_acknowledged =
     spool_run [OpAckID sample_env ''h'' (replicate 16 CHR ''a''), OpAckID sample_env ''h'' (replicate 16 CHR ''b'')] three_records"

lemma two_acknowledged_eq:
  "fst (AckID sample_env ''h'' (replicate 16 CHR ''a'') three_records) = (None, True)"
  "fst (AckID sample_env ''h'' (replicate 16 CHR ''b'') (snd (AckID sample_env ''h'' (replicate 16 CHR ''a'') three_records))) = (None, True)"
  "index two_acknowledged = [(replicate 16 CHR ''c'', 1)]"
  "disk two_acknowledged =
     [(1, frame kindRecord (encode (sample_record CHR ''a'')) @ frame kindRecord (encode (sample_record CHR ''c''))),
      (3, frame kindTombstone (replicate 16 CHR ''b''))]"
proof -
  note ids = distinct_ids [of "CHR ''a''" "CHR ''c''"] distinct_ids [of "CHR ''a''" "CHR ''b''"] distinct_ids [of "CHR ''c''" "CHR ''b''"]
  obtain s1 where s1: "snd (AckID sample_env ''h'' (replicate 16 CHR ''a'') three_records) = s1" by blast
  have e1: "s1 = three_records\<lparr>index := [(replicate 16 CHR ''c'', 1), (replicate 16 CHR ''b'', 2)], byHost := [(''h'', [1, 2])],
      segments := [(1, \<lparr>st_size = 224, st_live = 1\<rparr>), (2, \<lparr>st_size = 141, st_live = 1\<rparr>)],
      active := Some \<lparr>sg_id = 2, sg_size = 141, sg_open = True\<rparr>, sp_live := 224, dirty := True,
      disk := [(1, frame kindRecord (encode (sample_record CHR ''a'')) @ frame kindRecord (encode (sample_record CHR ''c''))),
        (2, frame kindRecord (encode (sample_record CHR ''b'')) @ frame kindTombstone (replicate 16 CHR ''a''))]\<rparr>"
    unfolding s1 [symmetric] using ids
    by (simp add: three_records_def delete_eval spool_eval headerSize_def entry_of_def)
  have t: "two_acknowledged = snd (AckID sample_env ''h'' (replicate 16 CHR ''b'') s1)" using s1 by (simp add: two_acknowledged_def)
  show "fst (AckID sample_env ''h'' (replicate 16 CHR ''a'') three_records) = (None, True)"
    using ids by (simp add: three_records_def delete_eval spool_eval headerSize_def entry_of_def)
  show "fst (AckID sample_env ''h'' (replicate 16 CHR ''b'') (snd (AckID sample_env ''h'' (replicate 16 CHR ''a'') three_records))) = (None, True)"
    unfolding s1 e1 using ids by (simp add: three_records_def delete_eval spool_eval headerSize_def entry_of_def)
  show "index two_acknowledged = [(replicate 16 CHR ''c'', 1)]"
    "disk two_acknowledged =
     [(1, frame kindRecord (encode (sample_record CHR ''a'')) @ frame kindRecord (encode (sample_record CHR ''c''))),
      (3, frame kindTombstone (replicate 16 CHR ''b''))]"
    unfolding t e1 using ids by (simp_all add: three_records_def delete_eval spool_eval headerSize_def entry_of_def)
qed

lemma two_acknowledged_log:
  "logged (new_spool sample_options (disk two_acknowledged) [])
     = {(kindRecord, encode (sample_record CHR ''a'')), (kindRecord, encode (sample_record CHR ''c'')),
        (kindTombstone, replicate 16 CHR ''b'')}"
proof -
  let ?a = "encode (sample_record CHR ''a'')" and ?c = "encode (sample_record CHR ''c'')" and ?b = "replicate 16 CHR ''b''"
  have "walk 0 (frame kindRecord ?a @ frame kindRecord ?c) = ([(kindRecord, ?a, 0, 112), (kindRecord, ?c, 112, 112)], 224, False)"
    using walk_frames [of "[(kindRecord, ?a), (kindRecord, ?c)]" "[]" 0] by (simp add: sample_fits maxRecordBytes_def headerSize_def)
  moreover have "walk 0 (frame kindTombstone ?b) = ([(kindTombstone, ?b, 0, 29)], 29, False)"
    using walk_frames [of "[(kindTombstone, ?b)]" "[]" 0] by (simp add: maxRecordBytes_def headerSize_def)
  ultimately have "(kind, body) \<in> logged (new_spool sample_options (disk two_acknowledged) [])
      \<longleftrightarrow> (kind, body) \<in> {(kindRecord, ?a), (kindRecord, ?c), (kindTombstone, ?b)}" for kind body
    unfolding logged_seen by (simp add: two_acknowledged_eq new_spool_def seg_file_def) blast
  then show ?thesis by (intro set_eqI) (metis surj_pair)
qed

text \<open>
  C39: An acknowledged record can come back: its tombstone is in a segment that goes when its own
  records are gone, while the segment of the record stays for a neighbour, so a restart over the
  files finds the record and no tombstone for it. Both acknowledgements of the run answer no error.
\<close>

theorem acknowledged_record_returns:
  "spool_run [OpAppend sample_env (sample_record CHR ''a''), OpAppend sample_env (sample_record CHR ''c''),
      OpAppend sample_env (sample_record CHR ''b''), OpAckID sample_env ''h'' (replicate 16 CHR ''a''),
      OpAckID sample_env ''h'' (replicate 16 CHR ''b'')] fresh_spool = two_acknowledged
   \<and> spool_run [OpAppend sample_env (sample_record CHR ''a''), OpAppend sample_env (sample_record CHR ''c''),
       OpAppend sample_env (sample_record CHR ''b'')] fresh_spool = three_records
   \<and> fst (AckID sample_env ''h'' (replicate 16 CHR ''a'') three_records) = (None, True)
   \<and> fst (AckID sample_env ''h'' (replicate 16 CHR ''b'') (snd (AckID sample_env ''h'' (replicate 16 CHR ''a'') three_records))) = (None, True)
   \<and> spool_map two_acknowledged (replicate 16 CHR ''a'') = None
   \<and> (\<exists>s. Open sample_env sample_options (disk two_acknowledged) [] = Inr s
        \<and> spool_map s (replicate 16 CHR ''a'') = Some (sample_record CHR ''a''))"
proof -
  let ?L = "logged (new_spool sample_options (disk two_acknowledged) [])"
  let ?a = "sample_record CHR ''a''" and ?c = "sample_record CHR ''c''"
  have run: "spool_run [OpAppend sample_env ?a, OpAppend sample_env ?c,
      OpAppend sample_env (sample_record CHR ''b''), OpAckID sample_env ''h'' (replicate 16 CHR ''a''),
      OpAckID sample_env ''h'' (replicate 16 CHR ''b'')] fresh_spool = two_acknowledged"
    using three_records_run by (simp add: two_acknowledged_def)
  have gone: "spool_map two_acknowledged (replicate 16 CHR ''a'') = None"
    using distinct_ids [of "CHR ''a''" "CHR ''c''"] by (simp add: spool_map_def two_acknowledged_eq)
  have ids: "r_ID ?a \<noteq> r_ID ?c" "r_ID ?a \<noteq> replicate 16 CHR ''b''"
    using distinct_ids [of "CHR ''a''" "CHR ''c''"] distinct_ids [of "CHR ''a''" "CHR ''b''"] by simp_all
  have rec: "r = ?a \<or> r = ?c" if "fits r" "(kindRecord, encode r) \<in> ?L" for r
    using that encode_inject sample_fits(1) unfolding two_acknowledged_log by auto
  have log: "sound_log ?L" unfolding sound_log_def
  proof (intro conjI allI impI)
    show "\<exists>r. fits r \<and> body = encode r" if "(kindRecord, body) \<in> ?L" for body
      using that sample_fits(1) unfolding two_acknowledged_log by auto
    show "r = r'" if "fits r" "fits r'" "(kindRecord, encode r) \<in> ?L" "(kindRecord, encode r') \<in> ?L" "r_ID r = r_ID r'" for r r'
      using rec [OF that(1,3)] rec [OF that(2,4)] that(5) ids(1) by metis
  qed
  have living: "?a \<in> living ?L" using sample_fits(1) ids(2) unfolding living_def two_acknowledged_log by simp
  obtain s where s: "Open sample_env sample_options (disk two_acknowledged) [] = Inr s" "spool_inv s" "logged s \<subseteq> ?L"
    "{u. map_of (index s) u \<noteq> None} = r_ID ` living ?L"
    using Open_succeeds [of "[]" "disk two_acknowledged" sample_options sample_env] log by (auto simp: two_acknowledged_eq)
  then obtain q where q: "map_of (index s) (r_ID ?a) = Some q" using living by blast
  have "spool_map s (r_ID ?a) = Some ?a" using reopened_holds [OF s(2,3) log living q] q by (simp add: spool_map_def)
  then show ?thesis using run gone s(1) three_records_run two_acknowledged_eq(1,2) by auto
qed

end
