(* ===== verification/Selector.thy ===== *)
theory Selector
  imports Go_Strings
begin

text \<open>
  Selectors, the expressions that say which hosts an order concerns
  (\<open>src/internal/selector/selector.go\<close>): the validation of what a client sends, the
  expansion of references to saved groups, and the compilation to a condition of SQL.

  The struct \<open>Expression\<close> has three fields for combinators and eighteen for facts about a host;
  the facts are a record of their own here, an absent one is the empty string as in Go. Errors
  are the sentinel values the messages wrap. The identifiers of the third-party package
  \<open>uuid\<close> enter as a parameter, the test whether a text parses as one.
\<close>

section \<open>Expressions\<close>

record facts =
  f_Site :: string
  f_Environment :: string
  f_OSFamily :: string
  f_Tag :: string
  f_Group :: string
  f_Capability :: string
  f_ConnectionState :: string
  f_LifecycleState :: string
  f_Owner :: string
  f_Channel :: string
  f_OSVersion :: string
  f_SecurityUpdates :: string
  f_RebootRequired :: string
  f_FailedUnits :: string
  f_AgentVersion :: string
  f_Relay :: string
  f_FailureDomain :: string
  f_MemberOf :: string

definition no_facts :: facts where
  "no_facts = \<lparr>f_Site = [], f_Environment = [], f_OSFamily = [], f_Tag = [], f_Group = [],
     f_Capability = [], f_ConnectionState = [], f_LifecycleState = [], f_Owner = [],
     f_Channel = [], f_OSVersion = [], f_SecurityUpdates = [], f_RebootRequired = [],
     f_FailedUnits = [], f_AgentVersion = [], f_Relay = [], f_FailureDomain = [], f_MemberOf = []\<rparr>"

datatype expression =
  Expression (e_All: "expression list") (e_Any: "expression list") (e_Not: "expression option")
    (e_facts: facts)

datatype selector_error =
  ErrInvalid | ErrSyntax | ErrUnknownGroup | ErrCycle | ErrUnexpanded | LookupFailed

definition MaxDepth :: nat where "MaxDepth = 8"
definition MaxNodes :: nat where "MaxNodes = 64"
definition MaxExpansion :: nat where "MaxExpansion = 4"
definition maxValue :: nat where "maxValue = 128"

definition connectionStates :: "string list" where
  "connectionStates = [''online'', ''offline'', ''stale'', ''unknown'']"

definition lifecycleStates :: "string list" where
  "lifecycleStates = [''active'', ''quarantined'', ''recovery'', ''retiring'', ''retired'']"

definition releaseChannels :: "string list" where
  "releaseChannels = [''stable'', ''beta'']"

definition booleans :: "string list" where
  "booleans = [''true'', ''false'']"

section \<open>Patterns\<close>

text \<open>The class of bytes a part of a tag is made of, beyond letters and digits.\<close>

definition tag_key_byte :: "char \<Rightarrow> bool" where
  "tag_key_byte c = (byte_in (CHR ''a'') (CHR ''z'') c \<or> isDigit c \<or> c \<in> set ''_.-'')"

definition tag_value_byte :: "char \<Rightarrow> bool" where
  "tag_value_byte c = (isAlnum c \<or> c \<in> set ''_.:/-'')"

text \<open>
  \<open>TagPattern\<close>: no byte of a key is \<open>=\<close>, so the optional group of the regular expression
  starts at the first one.
\<close>

definition tag_key :: "string \<Rightarrow> bool" where
  "tag_key s = (s \<noteq> [] \<and> (byte_in (CHR ''a'') (CHR ''z'') (hd s) \<or> isDigit (hd s)) \<and> list_all tag_key_byte s)"

definition TagPattern :: "string \<Rightarrow> bool" where
  "TagPattern s =
     (case IndexByte s (CHR ''='') of
        None \<Rightarrow> tag_key s
      | Some i \<Rightarrow> tag_key (take i s) \<and> drop (Suc i) s \<noteq> [] \<and> list_all tag_value_byte (drop (Suc i) s))"

text \<open>\<open>versionPattern\<close>: the group it captures, the version without its \<open>v\<close>.\<close>

definition versionPattern :: "string \<Rightarrow> string option" where
  "versionPattern s =
     (let t = TrimPrefix s ''v''; parts = split_byte (CHR ''.'') t in
      if length parts \<le> 4 \<and> list_all (\<lambda>p. p \<noteq> [] \<and> list_all isDigit p) parts then Some t else None)"

definition versionOperators :: "string list" where
  "versionOperators = [''<='', ''>='', ''<'', ''>'', ''='']"

record VersionComparison =
  vc_Operator :: string
  vc_Version :: string

definition String_of_comparison :: "VersionComparison \<Rightarrow> string" where
  "String_of_comparison v = vc_Operator v @ '' '' @ vc_Version v"

definition ParseVersionComparison :: "string \<Rightarrow> selector_error + VersionComparison" where
  "ParseVersionComparison value =
     (let text = TrimSpace value;
          (operator, text) =
            (case find (HasPrefix text) versionOperators of
               None \<Rightarrow> (''='', text)
             | Some operator \<Rightarrow> (operator, TrimSpace (drop (length operator) text)))
      in case versionPattern text of
           None \<Rightarrow> Inl ErrInvalid
         | Some version \<Rightarrow> Inr \<lparr>vc_Operator = operator, vc_Version = version\<rparr>)"

section \<open>Validation\<close>

definition leaves :: "facts \<Rightarrow> (string \<times> string) list" where
  "leaves f =
     [(''site'', f_Site f), (''environment'', f_Environment f), (''os_family'', f_OSFamily f),
      (''tag'', f_Tag f), (''group'', f_Group f), (''capability'', f_Capability f),
      (''connection_state'', f_ConnectionState f), (''lifecycle_state'', f_LifecycleState f),
      (''owner'', f_Owner f), (''channel'', f_Channel f), (''os_version'', f_OSVersion f),
      (''security_updates'', f_SecurityUpdates f), (''reboot_required'', f_RebootRequired f),
      (''failed_units'', f_FailedUnits f), (''agent_version'', f_AgentVersion f),
      (''relay'', f_Relay f), (''failure_domain'', f_FailureDomain f), (''group_id'', f_MemberOf f)]"

definition fields_set :: "expression \<Rightarrow> nat" where
  "fields_set e =
     (if e_All e \<noteq> [] then 1 else 0) + (if e_Any e \<noteq> [] then 1 else 0) + (if e_Not e \<noteq> None then 1 else 0)
     + length (filter (\<lambda>(name, value). value \<noteq> []) (leaves (e_facts e)))"

definition check_leaf :: "string \<times> string \<Rightarrow> bool" where
  "check_leaf = (\<lambda>(name, value).
     length value \<le> maxValue \<and> TrimSpace value = value \<and>
     (if name = ''tag'' then TagPattern value
      else if name = ''connection_state'' then value \<in> set connectionStates
      else if name = ''lifecycle_state'' then value \<in> set lifecycleStates
      else if name = ''channel'' then value \<in> set releaseChannels
      else if name \<in> {''security_updates'', ''reboot_required'', ''failed_units''} then value \<in> set booleans
      else if name = ''agent_version'' then \<not> isl (ParseVersionComparison value)
      else True))"

definition check_leaves :: "facts \<Rightarrow> bool" where
  "check_leaves f = list_all (\<lambda>fact. snd fact = [] \<or> check_leaf fact) (leaves f)"

text \<open>The counter of nodes goes through the calls; the value of a call without an error is its new count.\<close>

fun validate_node :: "nat \<Rightarrow> nat \<Rightarrow> expression \<Rightarrow> selector_error + nat"
  and validate_nodes :: "nat \<Rightarrow> nat \<Rightarrow> expression list \<Rightarrow> selector_error + nat"
where
  "validate_node depth nodes (Expression all_of any_of not_of f) =
     (if MaxDepth < depth then Inl ErrInvalid
      else if MaxNodes < nodes + 1 then Inl ErrInvalid
      else if f_MemberOf f \<noteq> [] then Inl ErrInvalid
      else if fields_set (Expression all_of any_of not_of f) \<noteq> 1 then Inl ErrInvalid
      else and_then (validate_nodes (depth + 1) (nodes + 1) all_of) (\<lambda>nodes1.
           and_then (validate_nodes (depth + 1) nodes1 any_of) (\<lambda>nodes2.
           and_then (case not_of of None \<Rightarrow> Inr nodes2 | Some e \<Rightarrow> validate_node (depth + 1) nodes2 e) (\<lambda>nodes3.
           if check_leaves f then Inr nodes3 else Inl ErrInvalid))))"
| "validate_nodes depth nodes [] = Inr nodes"
| "validate_nodes depth nodes (e # es) = and_then (validate_node depth nodes e) (\<lambda>nodes1. validate_nodes depth nodes1 es)"

definition Validate_selector :: "expression option \<Rightarrow> selector_error option" where
  "Validate_selector e =
     (case e of
        None \<Rightarrow> Some ErrInvalid
      | Some e \<Rightarrow> (case validate_node 1 0 e of Inl err \<Rightarrow> Some err | Inr _ \<Rightarrow> None))"

section \<open>Expansion of group references\<close>

record Group =
  g_ID :: string
  g_Name :: string
  g_Kind :: string
  g_Selector :: "expression option"

definition KindStatic :: string where "KindStatic = ''static''"
definition KindDynamic :: string where "KindDynamic = ''dynamic''"

text \<open>The interface \<open>Groups\<close>: its one method, no group and no error for a reference to nothing.\<close>

type_synonym Groups = "string \<Rightarrow> selector_error + Group option"

fun count_nodes :: "expression \<Rightarrow> nat" where
  "count_nodes (Expression all_of any_of not_of f) =
     1 + sum_list (map count_nodes all_of) + sum_list (map count_nodes any_of)
     + (case not_of of None \<Rightarrow> 0 | Some e \<Rightarrow> count_nodes e)"

definition countNode :: "nat \<Rightarrow> selector_error + nat" where
  "countNode nodes = (if MaxNodes < nodes + 1 then Inl ErrInvalid else Inr (nodes + 1))"

definition member_of :: "string \<Rightarrow> expression" where
  "member_of gid = Expression [] [] None (no_facts\<lparr>f_MemberOf := gid\<rparr>)"

function expand_node :: "Groups option \<Rightarrow> string list \<Rightarrow> nat \<Rightarrow> expression \<Rightarrow> selector_error + expression \<times> nat"
  and expand_nodes :: "Groups option \<Rightarrow> string list \<Rightarrow> nat \<Rightarrow> expression list \<Rightarrow> selector_error + expression list \<times> nat"
where
  "expand_node groups chain nodes (Expression all_of any_of not_of f) =
     and_then (if f_Group f = [] then countNode nodes else Inr nodes) (\<lambda>nodes0.
     and_then (expand_nodes groups chain nodes0 all_of) (\<lambda>(all_of', nodes1).
     and_then (expand_nodes groups chain nodes1 any_of) (\<lambda>(any_of', nodes2).
     and_then (case not_of of
                 None \<Rightarrow> Inr (None, nodes2)
               | Some e \<Rightarrow> and_then (expand_node groups chain nodes2 e) (\<lambda>(e', n). Inr (Some e', n))) (\<lambda>(not_of', nodes3).
     if f_Group f = [] then Inr (Expression all_of' any_of' not_of' f, nodes3)
     else case groups of
       None \<Rightarrow> Inl ErrUnknownGroup
     | Some lookup \<Rightarrow> and_then (lookup (f_Group f)) (\<lambda>found.
         case found of
           None \<Rightarrow> Inl ErrUnknownGroup
         | Some g \<Rightarrow>
             if g_ID g \<in> set chain then Inl ErrCycle
             else if g_Kind g = KindStatic then
               and_then (countNode nodes3) (\<lambda>nodes4. Inr (member_of (g_ID g), nodes4))
             else if g_Kind g = KindDynamic then
               (case g_Selector g of
                  None \<Rightarrow> Inl ErrInvalid
                | Some selector \<Rightarrow>
                    if MaxExpansion \<le> length chain then Inl ErrInvalid
                    else expand_node groups (chain @ [g_ID g]) nodes3 selector)
             else Inl ErrInvalid)))))"
| "expand_nodes groups chain nodes [] = Inr ([], nodes)"
| "expand_nodes groups chain nodes (e # es) =
     and_then (expand_node groups chain nodes e) (\<lambda>(e', nodes1).
     and_then (expand_nodes groups chain nodes1 es) (\<lambda>(es', nodes2). Inr (e' # es', nodes2)))"
  by pat_completeness auto
termination
  by (relation "measures [\<lambda>x. case x of Inl (gs, chain, n, e) \<Rightarrow> MaxExpansion - length chain
                                   | Inr (gs, chain, n, es) \<Rightarrow> MaxExpansion - length chain,
                          \<lambda>x. case x of Inl (gs, chain, n, e) \<Rightarrow> size e
                                   | Inr (gs, chain, n, es) \<Rightarrow> size_list size es]") auto

definition Expand :: "expression option \<Rightarrow> Groups option \<Rightarrow> selector_error + expression" where
  "Expand e groups =
     (case e of
        None \<Rightarrow> Inl ErrInvalid
      | Some e \<Rightarrow> and_then (expand_node groups [] 0 e) (\<lambda>(expanded, nodes).
          if MaxNodes < count_nodes expanded then Inl ErrInvalid else Inr expanded))"

end
