(* ===== verification/Selector_SQL.thy ===== *)
theory Selector_SQL
  imports Selector
begin

text \<open>
  The compilation of an expanded selector to a condition of SQL with placeholders, and the
  one-line description for people (\<open>src/internal/selector/selector.go\<close>). The text of the
  condition is built the way the code builds it, byte for byte; the arguments are collected in
  the order of their placeholders.
\<close>

section \<open>The compiler\<close>

datatype sql_arg = Text string | TextArray "string list"

type_synonym args = "sql_arg list"

text \<open>The offset is the number of arguments the caller's query has already, \<open>len(args)\<close> at every call.\<close>

definition param :: "nat \<Rightarrow> args \<Rightarrow> sql_arg \<Rightarrow> string \<times> args" where
  "param off args v = (''$'' @ Itoa (off + length (args @ [v])), args @ [v])"

text \<open>A condition with one placeholder between two texts.\<close>

definition with_param :: "nat \<Rightarrow> args \<Rightarrow> string \<Rightarrow> sql_arg \<Rightarrow> string \<Rightarrow> selector_error + string \<times> args" where
  "with_param off args before v after = (let (p, args') = param off args v in Inr (before @ p @ after, args'))"

definition quote_char :: string where "quote_char = [CHR 0x27]"

definition digits_pattern :: string where "digits_pattern = [CHR 0x5C] @ ''d+''"

definition dot_pattern :: string where "dot_pattern = [CHR 0x5C] @ ''.''"

definition VersionParts :: "string \<Rightarrow> string" where
  "VersionParts alias =
     ''string_to_array(substring('' @ alias @ ''.agent_version from '' @ quote_char @ ''^v?('' @ digits_pattern
     @ ''(?:'' @ dot_pattern @ digits_pattern @ '')*)'' @ quote_char @ ''), '' @ quote_char @ ''.'' @ quote_char @ '')::int[]''"

definition version_condition :: "nat \<Rightarrow> args \<Rightarrow> string \<Rightarrow> selector_error + string \<times> args" where
  "version_condition off args value =
     and_then (ParseVersionComparison value) (\<lambda>comparison.
       with_param off args
         (''(h.agent_version ~ '' @ quote_char @ ''^v?'' @ digits_pattern @ ''('' @ dot_pattern @ digits_pattern @ '')*''
            @ quote_char @ '' and '' @ VersionParts ''h'' @ '' '' @ vc_Operator comparison @ '' string_to_array('')
         (Text (vc_Version comparison))
         ('', '' @ quote_char @ ''.'' @ quote_char @ '')::int[])''))"

definition relay_condition :: "(string \<Rightarrow> bool) \<Rightarrow> nat \<Rightarrow> args \<Rightarrow> string \<Rightarrow> selector_error + string \<times> args" where
  "relay_condition is_uuid off args value =
     (if is_uuid value then
        with_param off args
          ''exists (select 1 from agent_sessions s where s.host_id = h.id and s.ended_at is null and s.relay_id = ''
          (Text value) ''::uuid)''
      else
        with_param off args
          ''exists (select 1 from agent_sessions s join relays r on r.id = s.relay_id where s.host_id = h.id and s.ended_at is null and r.name = ''
          (Text value) '')'')"

text \<open>The cases of the switch that read a fact, in its order.\<close>

definition leaf_condition :: "(string \<Rightarrow> bool) \<Rightarrow> nat \<Rightarrow> args \<Rightarrow> facts \<Rightarrow> selector_error + string \<times> args" where
  "leaf_condition is_uuid off args f =
     (if f_Site f \<noteq> [] then with_param off args ''h.site = '' (Text (f_Site f)) []
      else if f_Environment f \<noteq> [] then with_param off args ''h.environment = '' (Text (f_Environment f)) []
      else if f_OSFamily f \<noteq> [] then with_param off args ''h.os_family = '' (Text (f_OSFamily f)) []
      else if f_Tag f \<noteq> [] then with_param off args ''h.tags @> '' (TextArray [f_Tag f]) ''::text[]''
      else if f_Capability f \<noteq> [] then
        with_param off args ''exists (select 1 from host_capability_registry r where r.host_id = h.id and r.name = ''
          (Text (f_Capability f)) '' and r.available)''
      else if f_ConnectionState f \<noteq> [] then with_param off args ''h.connection_state = '' (Text (f_ConnectionState f)) []
      else if f_LifecycleState f \<noteq> [] then with_param off args ''h.lifecycle_state = '' (Text (f_LifecycleState f)) []
      else if f_Owner f \<noteq> [] then with_param off args ''h.owner = '' (Text (f_Owner f)) []
      else if f_Channel f \<noteq> [] then with_param off args ''h.release_channel = '' (Text (f_Channel f)) []
      else if f_OSVersion f \<noteq> [] then with_param off args ''starts_with(h.os_version, '' (Text (f_OSVersion f)) '')''
      else if f_SecurityUpdates f \<noteq> [] then
        Inr (if f_SecurityUpdates f = ''true'' then ''h.pending_security_updates > 0''
             else ''h.pending_security_updates = 0'', args)
      else if f_RebootRequired f \<noteq> [] then Inr (''h.reboot_required = '' @ f_RebootRequired f, args)
      else if f_FailedUnits f \<noteq> [] then
        Inr (if f_FailedUnits f = ''true'' then ''h.failed_units > 0'' else ''h.failed_units = 0'', args)
      else if f_AgentVersion f \<noteq> [] then version_condition off args (f_AgentVersion f)
      else if f_Relay f \<noteq> [] then relay_condition is_uuid off args (f_Relay f)
      else if f_FailureDomain f \<noteq> [] then with_param off args ''h.failure_domain = '' (Text (f_FailureDomain f)) []
      else if f_MemberOf f \<noteq> [] then
        with_param off args ''exists (select 1 from host_group_members m where m.group_id = ''
          (Text (f_MemberOf f)) ''::uuid and m.host_id = h.id)''
      else if f_Group f \<noteq> [] then Inl ErrUnexpanded
      else Inl ErrInvalid)"

fun compile_node :: "(string \<Rightarrow> bool) \<Rightarrow> nat \<Rightarrow> args \<Rightarrow> expression \<Rightarrow> selector_error + string \<times> args"
  and compile_nodes :: "(string \<Rightarrow> bool) \<Rightarrow> nat \<Rightarrow> args \<Rightarrow> expression list \<Rightarrow> selector_error + string list \<times> args"
where
  "compile_node is_uuid off args (Expression all_of any_of not_of f) =
     (if all_of \<noteq> [] then
        and_then (compile_nodes is_uuid off args all_of) (\<lambda>(parts, args'). Inr (''('' @ Join parts '' and '' @ '')'', args'))
      else if any_of \<noteq> [] then
        and_then (compile_nodes is_uuid off args any_of) (\<lambda>(parts, args'). Inr (''('' @ Join parts '' or '' @ '')'', args'))
      else case not_of of
        Some e \<Rightarrow> and_then (compile_node is_uuid off args e) (\<lambda>(inner, args'). Inr (''not '' @ inner, args'))
      | None \<Rightarrow> leaf_condition is_uuid off args f)"
| "compile_nodes is_uuid off args [] = Inr ([], args)"
| "compile_nodes is_uuid off args (e # es) =
     and_then (compile_node is_uuid off args e) (\<lambda>(part, args1).
     and_then (compile_nodes is_uuid off args1 es) (\<lambda>(parts, args2). Inr (part # parts, args2)))"

definition Compile :: "(string \<Rightarrow> bool) \<Rightarrow> expression option \<Rightarrow> nat \<Rightarrow> selector_error + string \<times> args" where
  "Compile is_uuid e off = (case e of None \<Rightarrow> Inl ErrInvalid | Some e \<Rightarrow> compile_node is_uuid off [] e)"

section \<open>The description\<close>

definition describe_facts :: "facts \<Rightarrow> string" where
  "describe_facts f =
     (case find (\<lambda>fact. snd fact \<noteq> []) (leaves f) of
        None \<Rightarrow> ''nothing''
      | Some (name, value) \<Rightarrow>
          if name = ''agent_version'' then
            (case ParseVersionComparison value of
               Inr comparison \<Rightarrow> name @ '' '' @ String_of_comparison comparison
             | Inl _ \<Rightarrow> name @ ''='' @ value)
          else name @ ''='' @ value)"

fun Describe_node :: "expression \<Rightarrow> string" where
  "Describe_node (Expression all_of any_of not_of f) =
     (if all_of \<noteq> [] then ''('' @ Join (map Describe_node all_of) '' and '' @ '')''
      else if any_of \<noteq> [] then ''('' @ Join (map Describe_node any_of) '' or '' @ '')''
      else case not_of of Some e \<Rightarrow> ''not '' @ Describe_node e | None \<Rightarrow> describe_facts f)"

definition Describe_selector :: "expression option \<Rightarrow> string" where
  "Describe_selector e = (case e of None \<Rightarrow> [] | Some e \<Rightarrow> Describe_node e)"

end
