(* ===== verification/Selector_Sound.thy ===== *)
theory Selector_Sound
  imports Selector_SQL
begin

text \<open>
  What the validation of a selector establishes, what the expansion makes of it, and that the
  compiler takes every expanded selector. Well-formed expressions have exactly one field set in
  every node; before the expansion no node names a group by its internal identifier, after it no
  node refers to a group.
\<close>

section \<open>Well-formed expressions\<close>

fun well_formed :: "bool \<Rightarrow> expression \<Rightarrow> bool" where
  "well_formed expanded (Expression all_of any_of not_of f) =
     (fields_set (Expression all_of any_of not_of f) = 1
      \<and> (if expanded then f_Group f = [] else f_MemberOf f = []) \<and> check_leaves (f\<lparr>f_MemberOf := []\<rparr>)
      \<and> list_all (well_formed expanded) all_of \<and> list_all (well_formed expanded) any_of
      \<and> (case not_of of None \<Rightarrow> True | Some e \<Rightarrow> well_formed expanded e))"

fun depth_of :: "expression \<Rightarrow> nat" where
  "depth_of (Expression all_of any_of not_of f) =
     1 + max (max (fold max (map depth_of all_of) 0) (fold max (map depth_of any_of) 0))
         (case not_of of None \<Rightarrow> 0 | Some e \<Rightarrow> depth_of e)"

lemma count_nodes_pos: "1 \<le> count_nodes e"
  by (cases e) simp

lemma fold_max_le: "fold max xs (a :: nat) \<le> b \<longleftrightarrow> a \<le> b \<and> (\<forall>x \<in> set xs. x \<le> b)"
  by (induction xs arbitrary: a) auto

lemma depth_within:
  "d + depth_of (Expression al an nt f) \<le> b + 1
     \<longleftrightarrow> d \<le> b \<and> (\<forall>e \<in> set al \<union> set an \<union> set_option nt. d + depth_of e \<le> b)"
proof -
  have "d + depth_of (Expression al an nt f) \<le> b + 1 \<longleftrightarrow> d \<le> b \<and> depth_of (Expression al an nt f) \<le> (b - d) + 1"
    by auto
  also have "\<dots> \<longleftrightarrow> d \<le> b \<and> (\<forall>e \<in> set al \<union> set an \<union> set_option nt. depth_of e \<le> b - d)"
    by (cases nt) (auto simp: fold_max_le)
  also have "\<dots> \<longleftrightarrow> d \<le> b \<and> (\<forall>e \<in> set al \<union> set an \<union> set_option nt. d + depth_of e \<le> b)"
    by (rule conj_cong) (auto simp: le_diff_conv2 add.commute)
  finally show ?thesis .
qed

lemma no_member: "f_MemberOf f = [] \<Longrightarrow> f\<lparr>f_MemberOf := []\<rparr> = f"
  by (cases f) simp

text \<open>
  The validation with its counter accepts exactly the well-formed expressions within the bounds
  on depth and size.
\<close>

lemma validate_node_iff:
  "n \<le> MaxNodes \<Longrightarrow> validate_node d n e = Inr m
     \<longleftrightarrow> well_formed False e \<and> d + depth_of e \<le> MaxDepth + 1 \<and> m = n + count_nodes e \<and> m \<le> MaxNodes"
  and validate_nodes_iff:
  "n \<le> MaxNodes \<Longrightarrow> validate_nodes d n es = Inr m
     \<longleftrightarrow> list_all (well_formed False) es \<and> (\<forall>e \<in> set es. d + depth_of e \<le> MaxDepth + 1)
       \<and> m = n + sum_list (map count_nodes es) \<and> m \<le> MaxNodes"
proof (induction d n e and d n es arbitrary: m and m rule: validate_node_validate_nodes.induct)
  case (1 d n al an nt f)
  let ?guards = "d \<le> MaxDepth \<and> n + 1 \<le> MaxNodes \<and> f_MemberOf f = [] \<and> fields_set (Expression al an nt f) = 1"
  show ?case
  proof (cases ?guards)
    case False
    then show ?thesis using count_nodes_pos [of "Expression al an nt f"] 1(4) by auto
  next
    case True
    note g = True
    have A: "validate_nodes (d + 1) (n + 1) al = Inr m
      \<longleftrightarrow> list_all (well_formed False) al \<and> (\<forall>e \<in> set al. (d + 1) + depth_of e \<le> MaxDepth + 1)
        \<and> m = (n + 1) + sum_list (map count_nodes al) \<and> m \<le> MaxNodes" for m
      using 1(1) g by auto
    have B: "validate_nodes (d + 1) n1 an = Inr m
      \<longleftrightarrow> list_all (well_formed False) an \<and> (\<forall>e \<in> set an. (d + 1) + depth_of e \<le> MaxDepth + 1)
        \<and> m = n1 + sum_list (map count_nodes an) \<and> m \<le> MaxNodes"
      if "validate_nodes (d + 1) (n + 1) al = Inr n1" for n1 m
      using 1(2) [of n1 m] g that A [of n1] by auto
    have C: "(case nt of None \<Rightarrow> Inr n2 | Some e \<Rightarrow> validate_node (d + 1) n2 e) = Inr m
      \<longleftrightarrow> (case nt of None \<Rightarrow> True | Some e \<Rightarrow> well_formed False e \<and> (d + 1) + depth_of e \<le> MaxDepth + 1)
        \<and> m = n2 + (case nt of None \<Rightarrow> 0 | Some e \<Rightarrow> count_nodes e) \<and> m \<le> MaxNodes"
      if "validate_nodes (d + 1) (n + 1) al = Inr n1" "validate_nodes (d + 1) n1 an = Inr n2" for n1 n2 m
      using 1(3) [of n1 n2 _ m] g that B [OF that(1), of n2] by (cases nt) auto
    have "validate_node d n (Expression al an nt f) = Inr m
      \<longleftrightarrow> (\<exists>n1. validate_nodes (d + 1) (n + 1) al = Inr n1 \<and> (\<exists>n2. validate_nodes (d + 1) n1 an = Inr n2
        \<and> (case nt of None \<Rightarrow> Inr n2 | Some e \<Rightarrow> validate_node (d + 1) n2 e) = Inr m \<and> check_leaves f))"
      using g by (auto split: if_splits option.splits)
    also have "\<dots> \<longleftrightarrow> list_all (well_formed False) al \<and> (\<forall>e \<in> set al. (d + 1) + depth_of e \<le> MaxDepth + 1)
        \<and> list_all (well_formed False) an \<and> (\<forall>e \<in> set an. (d + 1) + depth_of e \<le> MaxDepth + 1)
        \<and> (case nt of None \<Rightarrow> True | Some e \<Rightarrow> well_formed False e \<and> (d + 1) + depth_of e \<le> MaxDepth + 1)
        \<and> m = n + count_nodes (Expression al an nt f) \<and> m \<le> MaxNodes \<and> check_leaves f"
      using A B C by (auto cong: conj_cong)
    also have "\<dots> \<longleftrightarrow> well_formed False (Expression al an nt f) \<and> d + depth_of (Expression al an nt f) \<le> MaxDepth + 1
        \<and> m = n + count_nodes (Expression al an nt f) \<and> m \<le> MaxNodes"
      using g by (simp only: depth_within) (auto simp: no_member split: option.splits)
    finally show ?thesis .
  qed
next
  case (2 d n)
  then show ?case by auto
next
  case (3 d n e es)
  then show ?case
    by (auto simp: add.assoc)
qed

lemma Validate_iff:
  "Validate_selector (Some e) = None \<longleftrightarrow> well_formed False e \<and> depth_of e \<le> MaxDepth \<and> count_nodes e \<le> MaxNodes"
proof -
  have "Validate_selector (Some e) = None \<longleftrightarrow> (\<exists>m. validate_node 1 0 e = Inr m)"
    by (auto simp: Validate_selector_def split: sum.splits)
  then show ?thesis using validate_node_iff [of 0 1 e] by auto
qed

section \<open>Expansion\<close>

text \<open>What the groups a reference may resolve to have to be: identified, and dynamic ones with a validated selector.\<close>

definition sound_groups :: "Groups \<Rightarrow> bool" where
  "sound_groups lookup \<longleftrightarrow>
     (\<forall>ref g. lookup ref = Inr (Some g) \<longrightarrow> g_ID g \<noteq> [] \<and> (\<forall>s. g_Selector g = Some s \<longrightarrow> well_formed False s))"

lemma filter_single: "length (filter P xs) = 0 \<Longrightarrow> x \<in> set xs \<Longrightarrow> \<not> P x"
  by (auto simp: filter_empty_conv)

lemma group_alone:
  assumes "fields_set (Expression al an nt f) = 1" "f_Group f \<noteq> []"
  shows "al = [] \<and> an = [] \<and> nt = None"
proof -
  have "(''group'', f_Group f) \<in> set (filter (\<lambda>(name, value). value \<noteq> []) (leaves f))"
    using assms(2) by (simp add: leaves_def)
  then have "length (filter (\<lambda>(name, value). value \<noteq> []) (leaves f)) \<noteq> 0" by (metis length_0_conv empty_iff empty_set)
  then show ?thesis using assms(1) by (auto simp: fields_set_def split: if_splits)
qed

lemma fields_set_cong:
  "(al = []) = (al' = []) \<Longrightarrow> (an = []) = (an' = []) \<Longrightarrow> (nt = None) = (nt' = None)
     \<Longrightarrow> fields_set (Expression al an nt f) = fields_set (Expression al' an' nt' f)"
  by (simp add: fields_set_def)

lemma well_formed_member: "gid \<noteq> [] \<Longrightarrow> well_formed True (member_of gid)"
  by (simp add: member_of_def fields_set_def leaves_def no_facts_def check_leaves_def)

lemma countNode_Inr: "countNode n = Inr m \<longleftrightarrow> m = n + 1 \<and> n + 1 \<le> MaxNodes"
  by (auto simp: countNode_def)

lemma expand_reference:
  assumes "expand_node groups chain n (Expression [] [] None f) = Inr r" "f_Group f \<noteq> []"
  obtains lookup g where "groups = Some lookup" "lookup (f_Group f) = Inr (Some g)" "g_ID g \<notin> set chain"
proof (cases groups)
  case (Some lookup)
  with assms obtain found where "lookup (f_Group f) = Inr found" by auto
  with assms Some that show ?thesis by (cases found) (auto split: if_splits)
qed (use assms in simp)

lemma expand_node_sound:
  "expand_node groups chain n e = Inr (e', n') \<Longrightarrow> well_formed False e \<Longrightarrow> n \<le> MaxNodes
     \<Longrightarrow> (\<And>lookup. groups = Some lookup \<Longrightarrow> sound_groups lookup)
     \<Longrightarrow> well_formed True e' \<and> n' = n + count_nodes e' \<and> n' \<le> MaxNodes"
  and expand_nodes_sound:
  "expand_nodes groups chain n es = Inr (es', n') \<Longrightarrow> list_all (well_formed False) es \<Longrightarrow> n \<le> MaxNodes
     \<Longrightarrow> (\<And>lookup. groups = Some lookup \<Longrightarrow> sound_groups lookup)
     \<Longrightarrow> list_all (well_formed True) es' \<and> length es' = length es \<and> n' = n + sum_list (map count_nodes es') \<and> n' \<le> MaxNodes"
proof (induction groups chain n e and groups chain n es arbitrary: e' n' and es' n' rule: expand_node_expand_nodes.induct)
  case (1 groups chain n al an nt f)
  note IH = 1(1-4) and eq = 1(5) and wf = 1(6) and bound = 1(7) and ok = 1(8)
  show ?case
  proof (cases "f_Group f = []")
    case True
    obtain al' n1 an' n2 nt' where e: "expand_nodes groups chain (n + 1) al = Inr (al', n1)" "n + 1 \<le> MaxNodes"
        "expand_nodes groups chain n1 an = Inr (an', n2)"
        "(case nt of None \<Rightarrow> Inr (None, n2) | Some e \<Rightarrow> and_then (expand_node groups chain n2 e) (\<lambda>(e', n). Inr (Some e', n))) = Inr (nt', n')"
        "e' = Expression al' an' nt' f"
      using eq True by (auto simp: countNode_Inr)
    have a: "list_all (well_formed True) al' \<and> length al' = length al \<and> n1 = n + 1 + sum_list (map count_nodes al') \<and> n1 \<le> MaxNodes"
      using IH(1) [of "n + 1" al' n1] e wf True ok by (simp add: countNode_Inr)
    have b: "list_all (well_formed True) an' \<and> length an' = length an \<and> n2 = n1 + sum_list (map count_nodes an') \<and> n2 \<le> MaxNodes"
      using IH(2) [of "n + 1" _ al' n1 an' n2] e wf True ok a by (simp add: countNode_Inr)
    have c: "(nt' = None) = (nt = None) \<and> (case nt' of None \<Rightarrow> True | Some e \<Rightarrow> well_formed True e)
        \<and> n' = n2 + (case nt' of None \<Rightarrow> 0 | Some e \<Rightarrow> count_nodes e) \<and> n' \<le> MaxNodes"
    proof (cases nt)
      case (Some x)
      then show ?thesis
        using IH(3) [of "n + 1" _ al' n1 _ an' n2 x] e wf True ok b by (auto simp: countNode_Inr)
    qed (use e b in auto)
    have "(al = []) = (al' = [])" "(an = []) = (an' = [])" using a b by (metis length_0_conv)+
    with c have "fields_set (Expression al an nt f) = fields_set (Expression al' an' nt' f)"
      by (intro fields_set_cong) auto
    with wf have "fields_set (Expression al' an' nt' f) = 1" by simp
    then show ?thesis using wf True a b c by (simp add: e(5))
  next
    case False
    have alone: "al = []" "an = []" "nt = None" using group_alone [of al an nt f] wf False by auto
    obtain lookup g where g: "groups = Some lookup" "lookup (f_Group f) = Inr (Some g)" "g_ID g \<notin> set chain"
      using eq False unfolding alone by (rule expand_reference)
    have s: "g_ID g \<noteq> []" "\<And>s. g_Selector g = Some s \<Longrightarrow> well_formed False s"
      using ok [OF g(1)] g(2) by (auto simp: sound_groups_def)
    show ?thesis
    proof (cases "g_Kind g = KindStatic")
      case True
      then show ?thesis using eq False alone g s well_formed_member [of "g_ID g"]
        by (auto simp: countNode_Inr member_of_def)
    next
      case dynamic: False
      then obtain sel where sel: "g_Kind g = KindDynamic" "g_Selector g = Some sel" "length chain < MaxExpansion"
          "expand_node groups (chain @ [g_ID g]) n sel = Inr (e', n')"
        using eq False alone g by (auto split: if_splits option.splits)
      show ?thesis
        using IH(4) [of n "([], n)" "[]" n "([], n)" "[]" n "(None, n)" None n lookup "Some g" g sel e' n'] False alone g dynamic sel bound ok s
        by auto
    qed
  qed
next
  case (2 groups chain n)
  then show ?case by simp
next
  case (3 groups chain n e es)
  then show ?case
    by (auto simp: add.assoc)
qed

text \<open>The count the expansion keeps is the size of what it builds, so the check at its end never refuses.\<close>

lemma Expand_sound:
  assumes "Validate_selector (Some e) = None" "sound_groups lookup" "Expand (Some e) (Some lookup) = Inr e'"
  shows "well_formed True e' \<and> count_nodes e' \<le> MaxNodes"
  using assms expand_node_sound [of "Some lookup" "[]" 0 e] by (auto simp: Expand_def Validate_iff split: if_splits)

section \<open>Compilation\<close>

text \<open>The arguments of the compiled condition: the values of the leaves, in their order.\<close>

definition leaf_args :: "facts \<Rightarrow> args" where
  "leaf_args f =
     (case find (\<lambda>fact. snd fact \<noteq> []) (leaves f) of
        None \<Rightarrow> []
      | Some (name, value) \<Rightarrow>
          if name \<in> {''security_updates'', ''reboot_required'', ''failed_units''} then []
          else if name = ''tag'' then [TextArray [value]]
          else if name = ''agent_version'' then
            (case ParseVersionComparison value of Inr c \<Rightarrow> [Text (vc_Version c)] | Inl _ \<Rightarrow> [])
          else [Text value])"

fun args_of :: "expression \<Rightarrow> args" where
  "args_of (Expression all_of any_of not_of f) =
     (if all_of \<noteq> [] then concat (map args_of all_of)
      else if any_of \<noteq> [] then concat (map args_of any_of)
      else case not_of of Some e \<Rightarrow> args_of e | None \<Rightarrow> leaf_args f)"

lemma leaf_condition_total:
  assumes "f_Group f = []" "check_leaves (f\<lparr>f_MemberOf := []\<rparr>)" "\<exists>fact \<in> set (leaves f). snd fact \<noteq> []"
  shows "\<exists>t. leaf_condition u off args f = Inr (t, args @ leaf_args f)"
proof -
  have "f_AgentVersion f \<noteq> [] \<Longrightarrow> \<not> isl (ParseVersionComparison (f_AgentVersion f))"
    using assms(2) by (simp add: check_leaves_def leaves_def check_leaf_def)
  then have "f_AgentVersion f \<noteq> [] \<Longrightarrow> \<exists>c. ParseVersionComparison (f_AgentVersion f) = Inr c"
    by (metis sum.collapse(2))
  then show ?thesis
    using assms(1,3)
    by (auto simp: leaf_condition_def leaf_args_def leaves_def with_param_def param_def version_condition_def relay_condition_def)
qed

lemma leaf_present:
  assumes "fields_set (Expression [] [] None f) = 1"
  shows "\<exists>fact \<in> set (leaves f). snd fact \<noteq> []"
proof -
  have "filter (\<lambda>(name, value). value \<noteq> []) (leaves f) \<noteq> []" using assms by (auto simp: fields_set_def)
  then obtain fact where "fact \<in> set (filter (\<lambda>(name, value). value \<noteq> []) (leaves f))"
    using hd_in_set by blast
  then show ?thesis by (intro bexI [of _ fact]) auto
qed

lemma compile_node_total:
  "well_formed True e \<Longrightarrow> \<exists>t. compile_node u off args e = Inr (t, args @ args_of e)"
  and compile_nodes_total:
  "list_all (well_formed True) es \<Longrightarrow> \<exists>ts. compile_nodes u off args es = Inr (ts, args @ concat (map args_of es))"
proof (induction u off args e and u off args es rule: compile_node_compile_nodes.induct)
  case (1 u off args al an nt f)
  show ?case
  proof (cases "al = [] \<and> an = [] \<and> nt = None")
    case True
    then show ?thesis using 1(4) leaf_condition_total [of f u off args] leaf_present [of f] by auto
  next
    case False
    with 1 show ?thesis by (cases "al = []"; cases "an = []"; cases nt) auto
  qed
next
  case (3 u off args e es)
  then show ?case by fastforce
qed simp

end
