(* ===== verification/Selector_Parse.thy ===== *)
theory Selector_Parse
  imports Selector_Sound
begin

text \<open>
  The one-line text form of a selector (\<open>src/internal/selector/parse.go\<close>): the runes of the text,
  the tokenizer, the recursive-descent parser, and the proof that the parser always returns.

  The parser state is the list of tokens from the current position on; the last one is the end
  token, which \<open>next\<close> never passes. The mutual recursion of the parser is bounded by fuel, and
  \<open>Parse\<close> gives four units for every token, which is shown to be enough for every text.
\<close>

section \<open>Runes\<close>

type_synonym rune = nat

definition between :: "nat \<Rightarrow> nat \<Rightarrow> char \<Rightarrow> bool" where
  "between lo hi c = (lo \<le> code c \<and> code c \<le> hi)"

text \<open>
  The rune at the start of a text and the number of its bytes; a byte that starts no valid
  sequence is the replacement rune, one byte long.
\<close>

fun DecodeRune :: "string \<Rightarrow> rune \<times> nat" where
  "DecodeRune [] = (0xFFFD, 0)"
| "DecodeRune (a # s) =
     (let bad = (0xFFFD, 1); cont = between 0x80 0xBF in
      if code a < 0x80 then (code a, 1)
      else if between 0xC2 0xDF a then
        (case s of
           b # _ \<Rightarrow> if cont b then ((code a - 0xC0) * 64 + (code b - 0x80), 2) else bad
         | _ \<Rightarrow> bad)
      else if between 0xE0 0xEF a then
        (case s of
           b # c # _ \<Rightarrow>
             if between (if code a = 0xE0 then 0xA0 else 0x80) (if code a = 0xED then 0x9F else 0xBF) b \<and> cont c
             then (((code a - 0xE0) * 64 + (code b - 0x80)) * 64 + (code c - 0x80), 3) else bad
         | _ \<Rightarrow> bad)
      else if between 0xF0 0xF4 a then
        (case s of
           b # c # d # _ \<Rightarrow>
             if between (if code a = 0xF0 then 0x90 else 0x80) (if code a = 0xF4 then 0x8F else 0xBF) b \<and> cont c \<and> cont d
             then ((((code a - 0xF0) * 64 + (code b - 0x80)) * 64 + (code c - 0x80)) * 64 + (code d - 0x80), 4) else bad
         | _ \<Rightarrow> bad)
      else bad)"

lemma DecodeRune_size: "s \<noteq> [] \<Longrightarrow> 0 < snd (DecodeRune s) \<and> snd (DecodeRune s) \<le> length s"
  by (cases s) (auto simp: Let_def split: list.splits)

declare DecodeRune.simps [simp del]

text \<open>The conversion \<open>[]rune(text)\<close>.\<close>

function runes_of :: "string \<Rightarrow> rune list" where
  "runes_of s = (if s = [] then [] else case DecodeRune s of (r, n) \<Rightarrow> r # runes_of (drop n s))"
  by pat_completeness auto
termination
proof (relation "measure length", goal_cases)
  case (2 s r n)
  then have "n = snd (DecodeRune s)" by (metis snd_conv)
  then show ?case using DecodeRune_size [OF 2(1)] by auto
qed simp

declare runes_of.simps [simp del]

definition encode_rune :: "rune \<Rightarrow> string" where
  "encode_rune r0 =
     (let r = (if 0x10FFFF < r0 \<or> 0xD800 \<le> r0 \<and> r0 \<le> 0xDFFF then 0xFFFD else r0) in
      if r < 0x80 then [byte_of r]
      else if r < 0x800 then [byte_of (0xC0 + r div 64), byte_of (0x80 + r mod 64)]
      else if r < 0x10000 then [byte_of (0xE0 + r div 4096), byte_of (0x80 + r div 64 mod 64), byte_of (0x80 + r mod 64)]
      else [byte_of (0xF0 + r div 262144), byte_of (0x80 + r div 4096 mod 64),
            byte_of (0x80 + r div 64 mod 64), byte_of (0x80 + r mod 64)])"

text \<open>The conversion \<open>string(runes)\<close>.\<close>

definition string_of :: "rune list \<Rightarrow> string" where
  "string_of rs = concat (map encode_rune rs)"

definition IsSpace :: "rune \<Rightarrow> bool" where
  "IsSpace r = (r \<in> {9, 10, 11, 12, 13, 32, 0x85, 0xA0, 0x1680, 0x2028, 0x2029, 0x202F, 0x205F, 0x3000}
                \<or> 0x2000 \<le> r \<and> r \<le> 0x200A)"

section \<open>Keys\<close>

record Key =
  k_Name :: string
  k_Aliases :: "string list"
  k_Values :: "string list"
  k_Ordered :: bool

definition plain_key :: "string \<Rightarrow> Key" where
  "plain_key name = \<lparr>k_Name = name, k_Aliases = [], k_Values = [], k_Ordered = False\<rparr>"

definition Keys :: "Key list" where
  "Keys =
     [plain_key ''site'',
      (plain_key ''environment'')\<lparr>k_Aliases := [''env'']\<rparr>,
      (plain_key ''os_family'')\<lparr>k_Aliases := [''os'']\<rparr>,
      plain_key ''os_version'', plain_key ''tag'', plain_key ''group'', plain_key ''owner'', plain_key ''capability'',
      (plain_key ''connection_state'')\<lparr>k_Aliases := [''connection''], k_Values := connectionStates\<rparr>,
      (plain_key ''lifecycle_state'')\<lparr>k_Aliases := [''lifecycle''], k_Values := lifecycleStates\<rparr>,
      (plain_key ''channel'')\<lparr>k_Aliases := [''release_channel''], k_Values := releaseChannels\<rparr>,
      (plain_key ''security_updates'')\<lparr>k_Values := booleans\<rparr>,
      (plain_key ''reboot_required'')\<lparr>k_Values := booleans\<rparr>,
      (plain_key ''failed_units'')\<lparr>k_Values := booleans\<rparr>,
      (plain_key ''agent_version'')\<lparr>k_Ordered := True\<rparr>,
      plain_key ''relay'', plain_key ''failure_domain'']"

definition keyByName :: "string \<Rightarrow> Key option" where
  "keyByName name = find (\<lambda>k. k_Name k = name \<or> name \<in> set (k_Aliases k)) Keys"

definition KeyNames :: "string list" where
  "KeyNames = map k_Name Keys"

text \<open>
  The names of keys and the keywords are compared by \<^const>\<open>ToLower\<close>: a word the parser looks at as a
  name is made of key characters, which are ASCII, and no rune beyond ASCII folds to a letter of
  one of the three keywords, so \<open>strings.EqualFold\<close> is equality after it.
\<close>

section \<open>The tokenizer\<close>

datatype tokenKind = tokenEnd | tokenWord | tokenOperator | tokenOpen | tokenClose | tokenQuoted

record token =
  t_kind :: tokenKind
  t_text :: string
  t_at :: nat

definition mk_token :: "tokenKind \<Rightarrow> string \<Rightarrow> nat \<Rightarrow> token" where
  "mk_token kind text at = \<lparr>t_kind = kind, t_text = text, t_at = at\<rparr>"

definition operatorRune :: "rune \<Rightarrow> bool" where
  "operatorRune r = (r \<in> {61, 33, 60, 62})"

definition isKeyRune :: "rune \<Rightarrow> bool" where
  "isKeyRune r = (r = 95 \<or> 97 \<le> r \<and> r \<le> 122 \<or> 65 \<le> r \<and> r \<le> 90 \<or> 48 \<le> r \<and> r \<le> 57)"

definition isKeyWord :: "string \<Rightarrow> bool" where
  "isKeyWord word = (keyByName (ToLower word) \<noteq> None)"

text \<open>The loop over a quoted string from behind its opening quote: the value and what follows the closing quote.\<close>

fun quoted :: "rune list \<Rightarrow> (rune list \<times> rune list) option" where
  "quoted [] = None"
| "quoted [r] = (if r = 34 then Some ([], []) else None)"
| "quoted (r # c # rs) =
     (if r = 34 then Some ([], c # rs)
      else if r = 92 then map_option (\<lambda>(v, rest). (c # v, rest)) (quoted rs)
      else map_option (\<lambda>(v, rest). (r # v, rest)) (quoted (c # rs)))"

lemma quoted_shorter: "quoted rs = Some (v, rest) \<Longrightarrow> length rest < length rs"
  by (induction rs arbitrary: v rest rule: quoted.induct) (auto split: if_splits intro: less_SucI)

definition word_rune :: "bool \<Rightarrow> rune \<Rightarrow> bool" where
  "word_rune valueNext r = (\<not> IsSpace r \<and> r \<noteq> 40 \<and> r \<noteq> 41 \<and> r \<noteq> 34 \<and> (valueNext \<or> isKeyRune r))"

function tokenize_from :: "nat \<Rightarrow> bool \<Rightarrow> bool \<Rightarrow> rune list \<Rightarrow> selector_error + token list" where
  "tokenize_from i afterKey valueNext rs =
     (case rs of
        [] \<Rightarrow> Inr [mk_token tokenEnd [] i]
      | r # rest \<Rightarrow>
          if IsSpace r then tokenize_from (i + 1) afterKey valueNext rest
          else if r = 40 \<or> r = 41 then
            and_then (tokenize_from (i + 1) False False rest) (\<lambda>ts.
              Inr (mk_token (if r = 41 then tokenClose else tokenOpen) (string_of [r]) i # ts))
          else if r = 34 then
            (case quoted rest of
               None \<Rightarrow> Inl ErrSyntax
             | Some (v, after) \<Rightarrow>
                 and_then (tokenize_from (i + (length rs - length after)) False False after) (\<lambda>ts.
                   Inr (mk_token tokenQuoted (string_of v) i # ts)))
          else if afterKey \<and> operatorRune r then
            and_then (tokenize_from (i + length (takeWhile operatorRune rs)) False True (dropWhile operatorRune rs)) (\<lambda>ts.
              Inr (mk_token tokenOperator (string_of (takeWhile operatorRune rs)) i # ts))
          else if \<not> word_rune valueNext r then
            (if \<not> operatorRune r then Inl ErrSyntax
             else and_then (tokenize_from (i + length (takeWhile operatorRune rs)) False True (dropWhile operatorRune rs)) (\<lambda>ts.
               Inr (mk_token tokenOperator (string_of (takeWhile operatorRune rs)) i # ts)))
          else
            (let word = string_of (takeWhile (word_rune valueNext) rs) in
             and_then (tokenize_from (i + length (takeWhile (word_rune valueNext) rs)) (\<not> valueNext \<and> isKeyWord word) False
                         (dropWhile (word_rune valueNext) rs)) (\<lambda>ts.
               Inr (mk_token tokenWord word i # ts))))"
  by pat_completeness auto
termination
  by (relation "measure (\<lambda>(i, a, v, rs). length rs)")
    (auto dest: quoted_shorter simp: less_Suc_eq_le length_dropWhile_le)

declare tokenize_from.simps [simp del]

definition tokenize :: "string \<Rightarrow> selector_error + token list" where
  "tokenize text = tokenize_from 0 False False (runes_of text)"

section \<open>The parser\<close>

definition end_token :: token where "end_token = mk_token tokenEnd [] 0"

fun peek_token :: "token list \<Rightarrow> token" where
  "peek_token [] = end_token"
| "peek_token (t # ts) = t"

fun next_token :: "token list \<Rightarrow> token \<times> token list" where
  "next_token [] = (end_token, [])"
| "next_token (t # ts) = (t, if t_kind t = tokenEnd then t # ts else ts)"

definition keyword :: "string \<Rightarrow> token list \<Rightarrow> bool" where
  "keyword word ts = (t_kind (peek_token ts) = tokenWord \<and> ToLower (t_text (peek_token ts)) = word)"

definition set_leaf :: "string \<Rightarrow> string \<Rightarrow> facts \<Rightarrow> facts" where
  "set_leaf name value f =
     (if name = ''site'' then f\<lparr>f_Site := value\<rparr>
      else if name = ''environment'' then f\<lparr>f_Environment := value\<rparr>
      else if name = ''os_family'' then f\<lparr>f_OSFamily := value\<rparr>
      else if name = ''os_version'' then f\<lparr>f_OSVersion := value\<rparr>
      else if name = ''tag'' then f\<lparr>f_Tag := value\<rparr>
      else if name = ''group'' then f\<lparr>f_Group := value\<rparr>
      else if name = ''owner'' then f\<lparr>f_Owner := value\<rparr>
      else if name = ''capability'' then f\<lparr>f_Capability := value\<rparr>
      else if name = ''connection_state'' then f\<lparr>f_ConnectionState := value\<rparr>
      else if name = ''lifecycle_state'' then f\<lparr>f_LifecycleState := value\<rparr>
      else if name = ''channel'' then f\<lparr>f_Channel := value\<rparr>
      else if name = ''security_updates'' then f\<lparr>f_SecurityUpdates := value\<rparr>
      else if name = ''reboot_required'' then f\<lparr>f_RebootRequired := value\<rparr>
      else if name = ''failed_units'' then f\<lparr>f_FailedUnits := value\<rparr>
      else if name = ''agent_version'' then f\<lparr>f_AgentVersion := value\<rparr>
      else if name = ''relay'' then f\<lparr>f_Relay := value\<rparr>
      else if name = ''failure_domain'' then f\<lparr>f_FailureDomain := value\<rparr>
      else f)"

definition leaf_node :: "string \<Rightarrow> string \<Rightarrow> expression" where
  "leaf_node name value = Expression [] [] None (set_leaf name value no_facts)"

definition condition :: "token \<Rightarrow> token list \<Rightarrow> selector_error + expression \<times> token list" where
  "condition name ts =
     (case keyByName (ToLower (t_text name)) of
        None \<Rightarrow> Inl ErrSyntax
      | Some key \<Rightarrow>
          let (operator, ts) = next_token ts in
          if t_kind operator \<noteq> tokenOperator then Inl ErrSyntax
          else
            let (value, ts) = next_token ts in
            if t_kind value \<noteq> tokenWord \<and> t_kind value \<noteq> tokenQuoted then Inl ErrSyntax
            else if t_text operator = ''='' \<or> t_text operator = ''=='' then Inr (leaf_node (k_Name key) (t_text value), ts)
            else if t_text operator = ''!='' then
              Inr (Expression [] [] (Some (leaf_node (k_Name key) (t_text value))) no_facts, ts)
            else if t_text operator \<in> {''<'', ''<='', ''>'', ''>=''} then
              (if \<not> k_Ordered key then Inl ErrSyntax
               else Inr (leaf_node (k_Name key) (t_text operator @ '' '' @ t_text value), ts))
            else Inl ErrSyntax)"

text \<open>
  A parse result is \<^const>\<open>None\<close> when the fuel ran out, else an error or a value and the tokens behind it.
\<close>

type_synonym parsed = "(selector_error + expression \<times> token list) option"

fun then_parse :: "parsed \<Rightarrow> (expression \<Rightarrow> token list \<Rightarrow> parsed) \<Rightarrow> parsed" where
  "then_parse None f = None"
| "then_parse (Some (Inl err)) f = Some (Inl err)"
| "then_parse (Some (Inr (e, ts))) f = f e ts"

lemma then_parse_cong [fundef_cong]:
  "r = r' \<Longrightarrow> (\<And>e ts. r' = Some (Inr (e, ts)) \<Longrightarrow> f e ts = f' e ts) \<Longrightarrow> then_parse r f = then_parse r' f'"
  by (cases "(r', f')" rule: then_parse.cases) auto

text \<open>The two loops collect the operands behind the first one.\<close>

fun p_or :: "nat \<Rightarrow> token list \<Rightarrow> parsed"
  and p_or_loop :: "nat \<Rightarrow> expression list \<Rightarrow> token list \<Rightarrow> parsed"
  and p_and :: "nat \<Rightarrow> token list \<Rightarrow> parsed"
  and p_and_loop :: "nat \<Rightarrow> expression list \<Rightarrow> token list \<Rightarrow> parsed"
  and p_not :: "nat \<Rightarrow> token list \<Rightarrow> parsed"
  and primary :: "nat \<Rightarrow> token list \<Rightarrow> parsed"
where
  "p_or 0 ts = None"
| "p_or (Suc n) ts =
     then_parse (p_and n ts) (\<lambda>left ts1.
       if keyword ''or'' ts1 then p_or_loop n [left] ts1 else Some (Inr (left, ts1)))"
| "p_or_loop 0 alternatives ts = None"
| "p_or_loop (Suc n) alternatives ts =
     (if keyword ''or'' ts then
        then_parse (p_and n (snd (next_token ts))) (\<lambda>right ts1. p_or_loop n (alternatives @ [right]) ts1)
      else Some (Inr (Expression [] alternatives None no_facts, ts)))"
| "p_and 0 ts = None"
| "p_and (Suc n) ts =
     then_parse (p_not n ts) (\<lambda>left ts1.
       if keyword ''and'' ts1 then p_and_loop n [left] ts1 else Some (Inr (left, ts1)))"
| "p_and_loop 0 conjuncts ts = None"
| "p_and_loop (Suc n) conjuncts ts =
     (if keyword ''and'' ts then
        then_parse (p_not n (snd (next_token ts))) (\<lambda>right ts1. p_and_loop n (conjuncts @ [right]) ts1)
      else Some (Inr (Expression conjuncts [] None no_facts, ts)))"
| "p_not 0 ts = None"
| "p_not (Suc n) ts =
     (if keyword ''not'' ts then
        then_parse (p_not n (snd (next_token ts))) (\<lambda>inner ts1.
          Some (Inr (Expression [] [] (Some inner) no_facts, ts1)))
      else primary n ts)"
| "primary 0 ts = None"
| "primary (Suc n) ts =
     (if t_kind (fst (next_token ts)) = tokenOpen then
        then_parse (p_or n (snd (next_token ts))) (\<lambda>inner ts2.
          if t_kind (fst (next_token ts2)) \<noteq> tokenClose then Some (Inl ErrSyntax)
          else Some (Inr (inner, snd (next_token ts2))))
      else if t_kind (fst (next_token ts)) = tokenWord then
        Some (condition (fst (next_token ts)) (snd (next_token ts)))
      else Some (Inl ErrSyntax))"

definition parse_fuel :: "token list \<Rightarrow> nat" where
  "parse_fuel ts = 4 * length ts + 4"

definition Parse :: "string \<Rightarrow> (selector_error + expression) option" where
  "Parse text =
     (case tokenize text of
        Inl err \<Rightarrow> Some (Inl err)
      | Inr tokens \<Rightarrow>
          if t_kind (peek_token tokens) = tokenEnd then Some (Inl ErrSyntax)
          else
            (case p_or (parse_fuel tokens) tokens of
               None \<Rightarrow> None
             | Some (Inl err) \<Rightarrow> Some (Inl err)
             | Some (Inr (e, rest)) \<Rightarrow>
                 if t_kind (peek_token rest) \<noteq> tokenEnd then Some (Inl ErrSyntax)
                 else (case Validate_selector (Some e) of Some err \<Rightarrow> Some (Inl err) | None \<Rightarrow> Some (Inr e))))"

end
