(* ===== verification/Selector_Parsing.thy ===== *)
theory Selector_Parsing
  imports Selector_Parse
begin

text \<open>
  The parser of the text form against its grammar: it returns for every text, and what it accepts
  is what the grammar derives.
\<close>

section \<open>The tokens left\<close>

lemma then_parse_Inr:
  "then_parse r f = Some (Inr y) \<longleftrightarrow> (\<exists>e ts. r = Some (Inr (e, ts)) \<and> f e ts = Some (Inr y))"
  by (cases "(r, f)" rule: then_parse.cases) auto

lemma then_parse_None: "then_parse r f = None \<longleftrightarrow> r = None \<or> (\<exists>e ts. r = Some (Inr (e, ts)) \<and> f e ts = None)"
  by (cases "(r, f)" rule: then_parse.cases) auto

lemma next_token_le: "length (snd (next_token ts)) \<le> length ts"
  by (cases ts) auto

lemma keyword_less: "keyword w ts \<Longrightarrow> length (snd (next_token ts)) < length ts"
  by (cases ts) (auto simp: keyword_def end_token_def mk_token_def)

lemma open_less: "t_kind (fst (next_token ts)) = tokenOpen \<Longrightarrow> length (snd (next_token ts)) < length ts"
  by (cases ts) (auto simp: end_token_def mk_token_def)

lemma condition_le: "condition name ts = Inr (e, ts') \<Longrightarrow> length ts' \<le> length ts"
  using next_token_le [of ts] next_token_le [of "snd (next_token ts)"]
  by (auto simp: condition_def split: option.splits prod.splits if_splits)

lemma parser_shortens:
  shows "p_or n ts = Some (Inr (e, ts')) \<Longrightarrow> length ts' \<le> length ts"
    and "p_or_loop n es ts = Some (Inr (e, ts')) \<Longrightarrow> length ts' \<le> length ts"
    and "p_and n ts = Some (Inr (e, ts')) \<Longrightarrow> length ts' \<le> length ts"
    and "p_and_loop n es ts = Some (Inr (e, ts')) \<Longrightarrow> length ts' \<le> length ts"
    and "p_not n ts = Some (Inr (e, ts')) \<Longrightarrow> length ts' \<le> length ts"
    and "primary n ts = Some (Inr (e, ts')) \<Longrightarrow> length ts' \<le> length ts"
proof (induction n arbitrary: ts es e ts')
  case (Suc n)
  note IH = Suc.IH and Inr = then_parse_Inr
  {
    case 1
    then show ?case by (auto simp: Inr split: if_splits dest!: IH(2,3))
  next
    case 2
    then show ?case using next_token_le [of ts] by (auto simp: Inr split: if_splits dest!: IH(2,3))
  next
    case 3
    then show ?case by (auto simp: Inr split: if_splits dest!: IH(4,5))
  next
    case 4
    then show ?case using next_token_le [of ts] by (auto simp: Inr split: if_splits dest!: IH(4,5))
  next
    case 5
    then show ?case using next_token_le [of ts] by (auto simp: Inr split: if_splits dest!: IH(5,6))
  next
    case 6
    then show ?case
    proof (cases "t_kind (fst (next_token ts)) = tokenOpen")
      case True
      then obtain ts2 where "p_or n (snd (next_token ts)) = Some (Inr (e, ts2))" "ts' = snd (next_token ts2)"
        using 6 by (auto simp: Inr split: if_splits)
      then show ?thesis using IH(1) next_token_le [of ts] next_token_le [of ts2] by fastforce
    next
      case False
      then have "condition (fst (next_token ts)) (snd (next_token ts)) = Inr (e, ts')" using 6 by (auto split: if_splits)
      then show ?thesis using condition_le next_token_le [of ts] by fastforce
    qed
  }
qed simp_all

section \<open>The fuel is enough\<close>

lemma parser_returns:
  shows "4 * length ts + 4 \<le> n \<Longrightarrow> p_or n ts \<noteq> None"
    and "4 * length ts + 1 \<le> n \<Longrightarrow> p_or_loop n es ts \<noteq> None"
    and "4 * length ts + 3 \<le> n \<Longrightarrow> p_and n ts \<noteq> None"
    and "4 * length ts + 1 \<le> n \<Longrightarrow> p_and_loop n es ts \<noteq> None"
    and "4 * length ts + 2 \<le> n \<Longrightarrow> p_not n ts \<noteq> None"
    and "4 * length ts + 1 \<le> n \<Longrightarrow> primary n ts \<noteq> None"
proof (induction n arbitrary: ts es)
  case (Suc n)
  note IH = Suc.IH
  {
    case 1
    have "4 * length ts1 + 1 \<le> n" if "p_and n ts = Some (Inr (e, ts1))" for e ts1
      using parser_shortens(3) [OF that] 1 by simp
    then show ?case using IH(2,3) 1 by (auto simp: then_parse_None simp del: not_None_eq split: if_splits)
  next
    case 2
    have len: "4 * length ts1 + 4 \<le> n" if "keyword ''or'' ts" "length ts1 \<le> length (snd (next_token ts))" for ts1
      using keyword_less [OF that(1)] that(2) 2 by simp
    have "4 * length ts1 + 1 \<le> n" if "keyword ''or'' ts" "p_and n (snd (next_token ts)) = Some (Inr (e, ts1))" for e ts1
      using len [OF that(1) parser_shortens(3) [OF that(2)]] by simp
    then show ?case using IH(2) IH(3) [of "snd (next_token ts)"] len [of "snd (next_token ts)"] by (auto simp: then_parse_None simp del: not_None_eq)
  next
    case 3
    have "4 * length ts1 + 1 \<le> n" if "p_not n ts = Some (Inr (e, ts1))" for e ts1
      using parser_shortens(5) [OF that] 3 by simp
    then show ?case using IH(4,5) 3 by (auto simp: then_parse_None simp del: not_None_eq split: if_splits)
  next
    case 4
    have len: "4 * length ts1 + 4 \<le> n" if "keyword ''and'' ts" "length ts1 \<le> length (snd (next_token ts))" for ts1
      using keyword_less [OF that(1)] that(2) 4 by simp
    have "4 * length ts1 + 1 \<le> n" if "keyword ''and'' ts" "p_not n (snd (next_token ts)) = Some (Inr (e, ts1))" for e ts1
      using len [OF that(1) parser_shortens(5) [OF that(2)]] by simp
    then show ?case using IH(4) IH(5) [of "snd (next_token ts)"] len [of "snd (next_token ts)"] by (auto simp: then_parse_None simp del: not_None_eq)
  next
    case 5
    have "4 * length (snd (next_token ts)) + 2 \<le> n" if "keyword ''not'' ts"
      using keyword_less [OF that] 5 by simp
    then show ?case using IH(5) [of "snd (next_token ts)"] IH(6) 5 by (auto simp: then_parse_None simp del: not_None_eq)
  next
    case 6
    have "4 * length (snd (next_token ts)) + 4 \<le> n" if "t_kind (fst (next_token ts)) = tokenOpen"
      using open_less [OF that] 6 by simp
    then show ?case using IH(1) [of "snd (next_token ts)"] by (auto simp: then_parse_None simp del: not_None_eq)
  }
qed simp_all

lemma Parse_returns: "Parse text \<noteq> None"
  using parser_returns(1) [of "projr (tokenize text)" "parse_fuel (projr (tokenize text))"]
  by (auto simp: Parse_def parse_fuel_def split: sum.splits option.splits prod.splits)

section \<open>The grammar\<close>

abbreviation keyword_token :: "string \<Rightarrow> token \<Rightarrow> bool" where
  "keyword_token word t \<equiv> t_kind t = tokenWord \<and> ToLower (t_text t) = word"

abbreviation value_token :: "token \<Rightarrow> bool" where
  "value_token t \<equiv> t_kind t = tokenWord \<or> t_kind t = tokenQuoted"

abbreviation Any_of :: "expression list \<Rightarrow> expression" where
  "Any_of es \<equiv> Expression [] es None no_facts"

abbreviation All_of :: "expression list \<Rightarrow> expression" where
  "All_of es \<equiv> Expression es [] None no_facts"

abbreviation Not_of :: "expression \<Rightarrow> expression" where
  "Not_of e \<equiv> Expression [] [] (Some e) no_facts"

inductive g_or :: "token list \<Rightarrow> expression \<Rightarrow> bool"
  and g_ors :: "token list \<Rightarrow> expression list \<Rightarrow> bool"
  and g_and :: "token list \<Rightarrow> expression \<Rightarrow> bool"
  and g_ands :: "token list \<Rightarrow> expression list \<Rightarrow> bool"
  and g_not :: "token list \<Rightarrow> expression \<Rightarrow> bool"
  and g_primary :: "token list \<Rightarrow> expression \<Rightarrow> bool"
where
  or_one: "g_and ts e \<Longrightarrow> g_or ts e"
| or_more: "g_and ts e \<Longrightarrow> g_ors us es \<Longrightarrow> es \<noteq> [] \<Longrightarrow> g_or (ts @ us) (Any_of (e # es))"
| ors_none: "g_ors [] []"
| ors_more: "keyword_token ''or'' t \<Longrightarrow> g_and ts e \<Longrightarrow> g_ors us es \<Longrightarrow> g_ors (t # ts @ us) (e # es)"
| and_one: "g_not ts e \<Longrightarrow> g_and ts e"
| and_more: "g_not ts e \<Longrightarrow> g_ands us es \<Longrightarrow> es \<noteq> [] \<Longrightarrow> g_and (ts @ us) (All_of (e # es))"
| ands_none: "g_ands [] []"
| ands_more: "keyword_token ''and'' t \<Longrightarrow> g_not ts e \<Longrightarrow> g_ands us es \<Longrightarrow> g_ands (t # ts @ us) (e # es)"
| not_primary: "g_primary ts e \<Longrightarrow> g_not ts e"
| not_not: "keyword_token ''not'' t \<Longrightarrow> g_not ts e \<Longrightarrow> g_not (t # ts) (Not_of e)"
| paren: "t_kind l = tokenOpen \<Longrightarrow> g_or ts e \<Longrightarrow> t_kind r = tokenClose \<Longrightarrow> g_primary (l # ts @ [r]) e"
| equal: "t_kind name = tokenWord \<Longrightarrow> keyByName (ToLower (t_text name)) = Some key \<Longrightarrow> t_kind op = tokenOperator
    \<Longrightarrow> t_text op = ''='' \<or> t_text op = ''=='' \<Longrightarrow> value_token v \<Longrightarrow> g_primary [name, op, v] (leaf_node (k_Name key) (t_text v))"
| unequal: "t_kind name = tokenWord \<Longrightarrow> keyByName (ToLower (t_text name)) = Some key \<Longrightarrow> t_kind op = tokenOperator
    \<Longrightarrow> t_text op = ''!='' \<Longrightarrow> value_token v \<Longrightarrow> g_primary [name, op, v] (Not_of (leaf_node (k_Name key) (t_text v)))"
| ordered: "t_kind name = tokenWord \<Longrightarrow> keyByName (ToLower (t_text name)) = Some key \<Longrightarrow> t_kind op = tokenOperator
    \<Longrightarrow> t_text op \<in> {''<'', ''<='', ''>'', ''>=''} \<Longrightarrow> k_Ordered key \<Longrightarrow> value_token v
    \<Longrightarrow> g_primary [name, op, v] (leaf_node (k_Name key) (t_text op @ '' '' @ t_text v))"

subsection \<open>What the parser accepts the grammar derives\<close>

lemma next_tokenE:
  assumes "t_kind (fst (next_token ts)) \<noteq> tokenEnd"
  obtains t us where "ts = t # us" "next_token ts = (t, us)"
  using assms that by (cases ts) (auto simp: end_token_def mk_token_def)

lemma keywordE:
  assumes "keyword w ts"
  obtains t us where "ts = t # us" "next_token ts = (t, us)" "keyword_token w t"
  using assms that by (cases ts) (auto simp: keyword_def end_token_def mk_token_def)

lemma condition_Inr:
  assumes "keyByName (ToLower (t_text name)) = Some key" "t_kind op = tokenOperator" "value_token v"
  shows "condition name (op # v # ts) =
    (if t_text op = ''='' \<or> t_text op = ''=='' then Inr (leaf_node (k_Name key) (t_text v), ts)
     else if t_text op = ''!='' then Inr (Not_of (leaf_node (k_Name key) (t_text v)), ts)
     else if t_text op \<in> {''<'', ''<='', ''>'', ''>=''} then
       (if \<not> k_Ordered key then Inl ErrSyntax else Inr (leaf_node (k_Name key) (t_text op @ '' '' @ t_text v), ts))
     else Inl ErrSyntax)"
  using assms by (auto simp: condition_def)

lemma condition_tokens:
  assumes "condition name ts = Inr (e, ts')"
  obtains key op v where "keyByName (ToLower (t_text name)) = Some key" "t_kind op = tokenOperator" "value_token v" "ts = op # v # ts'"
proof -
  obtain key where key: "keyByName (ToLower (t_text name)) = Some key" using assms by (auto simp: condition_def split: option.splits)
  have k: "t_kind (fst (next_token ts)) = tokenOperator" "value_token (fst (next_token (snd (next_token ts))))"
      "ts' = snd (next_token (snd (next_token ts)))"
    using assms key by (simp_all add: condition_def case_prod_beta Let_def split: if_split_asm)
  obtain op us where op: "ts = op # us" "next_token ts = (op, us)" using k(1) by (elim next_tokenE [rotated]) auto
  obtain v vs where v: "us = v # vs" "next_token us = (v, vs)" using k(2) op by (elim next_tokenE [rotated]) auto
  show thesis using that [OF key] k op v by simp
qed

lemma condition_derives:
  assumes "condition name ts = Inr (e, ts')" "t_kind name = tokenWord"
  obtains op v where "ts = op # v # ts'" "g_primary [name, op, v] e"
proof -
  obtain key op v where c: "keyByName (ToLower (t_text name)) = Some key" "t_kind op = tokenOperator" "value_token v" "ts = op # v # ts'"
    using condition_tokens [OF assms(1)] .
  have "g_primary [name, op, v] e"
    using assms(1) equal [OF assms(2) c(1,2) _ c(3)] unequal [OF assms(2) c(1,2) _ c(3)] ordered [OF assms(2) c(1,2) _ _ c(3)]
    unfolding c(4) condition_Inr [OF c(1-3)] by (simp split: if_split_asm)
  with c(4) show thesis by (rule that)
qed

text \<open>A loop keeps the operands it was given and, at its keyword, adds one.\<close>

lemma p_or_loop_keeps: "p_or_loop n es ts = Some (Inr (e, ts')) \<Longrightarrow> length es \<le> length (e_Any e)"
  by (induction n arbitrary: es ts) (auto simp: then_parse_Inr split: if_splits, fastforce)

lemma p_or_loop_more: "p_or_loop n es ts = Some (Inr (e, ts')) \<Longrightarrow> keyword ''or'' ts \<Longrightarrow> length es < length (e_Any e)"
  by (cases n) (auto simp: then_parse_Inr dest!: p_or_loop_keeps)

lemma p_and_loop_keeps: "p_and_loop n es ts = Some (Inr (e, ts')) \<Longrightarrow> length es \<le> length (e_All e)"
  by (induction n arbitrary: es ts) (auto simp: then_parse_Inr split: if_splits, fastforce)

lemma p_and_loop_more: "p_and_loop n es ts = Some (Inr (e, ts')) \<Longrightarrow> keyword ''and'' ts \<Longrightarrow> length es < length (e_All e)"
  by (cases n) (auto simp: then_parse_Inr dest!: p_and_loop_keeps)

lemma parser_sound:
  shows "p_or n ts = Some (Inr (e, ts')) \<Longrightarrow> \<exists>used. ts = used @ ts' \<and> g_or used e"
    and "p_or_loop n es ts = Some (Inr (e, ts')) \<Longrightarrow> \<exists>used more. ts = used @ ts' \<and> g_ors used more \<and> e = Any_of (es @ more)"
    and "p_and n ts = Some (Inr (e, ts')) \<Longrightarrow> \<exists>used. ts = used @ ts' \<and> g_and used e"
    and "p_and_loop n es ts = Some (Inr (e, ts')) \<Longrightarrow> \<exists>used more. ts = used @ ts' \<and> g_ands used more \<and> e = All_of (es @ more)"
    and "p_not n ts = Some (Inr (e, ts')) \<Longrightarrow> \<exists>used. ts = used @ ts' \<and> g_not used e"
    and "primary n ts = Some (Inr (e, ts')) \<Longrightarrow> \<exists>used. ts = used @ ts' \<and> g_primary used e"
proof (induction n arbitrary: ts es e ts')
  case (Suc n)
  note IH = Suc.IH and Inr = then_parse_Inr
  {
    case 1
    then obtain l ts1 where l: "p_and n ts = Some (Inr (l, ts1))"
      and r: "(if keyword ''or'' ts1 then p_or_loop n [l] ts1 else Some (Inr (l, ts1))) = Some (Inr (e, ts'))" by (auto simp: Inr)
    from IH(3) [OF l] obtain used where u: "ts = used @ ts1" "g_and used l" by blast
    show ?case
    proof (cases "keyword ''or'' ts1")
      case True
      then obtain used1 more where m: "ts1 = used1 @ ts'" "g_ors used1 more" "e = Any_of (l # more)" using IH(2) [of "[l]" ts1 e ts'] r by auto
      have "more \<noteq> []" using p_or_loop_more [of n "[l]" ts1 e ts'] True r m(3) by auto
      then show ?thesis using or_more [OF u(2) m(2)] u(1) m(1,3) by (intro exI [of _ "used @ used1"]) simp
    qed (use r u or_one in auto)
  next
    case 2
    show ?case
    proof (cases "keyword ''or'' ts")
      case True
      obtain t us where t: "ts = t # us" "next_token ts = (t, us)" "keyword_token ''or'' t" using True by (rule keywordE)
      obtain x ts1 where x: "p_and n us = Some (Inr (x, ts1))" "p_or_loop n (es @ [x]) ts1 = Some (Inr (e, ts'))"
        using 2 True t(2) by (auto simp: Inr)
      obtain used where u: "us = used @ ts1" "g_and used x" using IH(3) [OF x(1)] by blast
      obtain used1 more where m: "ts1 = used1 @ ts'" "g_ors used1 more" "e = Any_of ((es @ [x]) @ more)" using IH(2) [OF x(2)] by blast
      show ?thesis
        using ors_more [OF t(3) u(2) m(2)] t(1) u(1) m(1,3) by (intro exI [of _ "t # used @ used1"] exI [of _ "x # more"]) simp
    qed (use 2 ors_none in auto)
  next
    case 3
    then obtain l ts1 where l: "p_not n ts = Some (Inr (l, ts1))"
      and r: "(if keyword ''and'' ts1 then p_and_loop n [l] ts1 else Some (Inr (l, ts1))) = Some (Inr (e, ts'))" by (auto simp: Inr)
    from IH(5) [OF l] obtain used where u: "ts = used @ ts1" "g_not used l" by blast
    show ?case
    proof (cases "keyword ''and'' ts1")
      case True
      then obtain used1 more where m: "ts1 = used1 @ ts'" "g_ands used1 more" "e = All_of (l # more)" using IH(4) [of "[l]" ts1 e ts'] r by auto
      have "more \<noteq> []" using p_and_loop_more [of n "[l]" ts1 e ts'] True r m(3) by auto
      then show ?thesis using and_more [OF u(2) m(2)] u(1) m(1,3) by (intro exI [of _ "used @ used1"]) simp
    qed (use r u and_one in auto)
  next
    case 4
    show ?case
    proof (cases "keyword ''and'' ts")
      case True
      obtain t us where t: "ts = t # us" "next_token ts = (t, us)" "keyword_token ''and'' t" using True by (rule keywordE)
      obtain x ts1 where x: "p_not n us = Some (Inr (x, ts1))" "p_and_loop n (es @ [x]) ts1 = Some (Inr (e, ts'))"
        using 4 True t(2) by (auto simp: Inr)
      obtain used where u: "us = used @ ts1" "g_not used x" using IH(5) [OF x(1)] by blast
      obtain used1 more where m: "ts1 = used1 @ ts'" "g_ands used1 more" "e = All_of ((es @ [x]) @ more)" using IH(4) [OF x(2)] by blast
      show ?thesis
        using ands_more [OF t(3) u(2) m(2)] t(1) u(1) m(1,3) by (intro exI [of _ "t # used @ used1"] exI [of _ "x # more"]) simp
    qed (use 4 ands_none in auto)
  next
    case 5
    show ?case
    proof (cases "keyword ''not'' ts")
      case True
      obtain t us where t: "ts = t # us" "next_token ts = (t, us)" "keyword_token ''not'' t" using True by (rule keywordE)
      obtain x where x: "p_not n us = Some (Inr (x, ts'))" "e = Not_of x" using 5 True t(2) by (auto simp: Inr)
      obtain used where u: "us = used @ ts'" "g_not used x" using IH(5) [OF x(1)] by blast
      show ?thesis using not_not [OF t(3) u(2)] t(1) u(1) x(2) by (intro exI [of _ "t # used"]) simp
    next
      case False
      then obtain used where "ts = used @ ts'" "g_primary used e" using 5 IH(6) [of ts e ts'] by auto
      then show ?thesis using not_primary by blast
    qed
  next
    case 6
    consider "t_kind (fst (next_token ts)) = tokenOpen"
      | "t_kind (fst (next_token ts)) = tokenWord" "condition (fst (next_token ts)) (snd (next_token ts)) = Inr (e, ts')"
      using 6 by (auto split: if_splits)
    then show ?case
    proof cases
      case 1
      obtain t us where t: "ts = t # us" "next_token ts = (t, us)" using 1 by (elim next_tokenE [rotated]) auto
      obtain ts2 where i: "p_or n us = Some (Inr (e, ts2))" "t_kind (fst (next_token ts2)) = tokenClose" "ts' = snd (next_token ts2)"
        using 6 1 t(2) by (auto simp: Inr split: if_splits)
      obtain c us2 where c: "ts2 = c # us2" "next_token ts2 = (c, us2)" using i(2) by (elim next_tokenE [rotated]) auto
      obtain used where u: "us = used @ ts2" "g_or used e" using IH(1) [OF i(1)] by blast
      have "g_primary (t # used @ [c]) e" using paren [OF _ u(2), of t c] 1 i(2) t(2) c(2) by simp
      then show ?thesis using t(1) u(1) c i(3) by (intro exI [of _ "t # used @ [c]"]) simp
    next
      case 2
      obtain t us where t: "ts = t # us" "next_token ts = (t, us)" using 2(1) by (elim next_tokenE [rotated]) auto
      obtain op v where "us = op # v # ts'" "g_primary [t, op, v] e" using condition_derives [of t us e ts'] 2 t(2) by auto
      then show ?thesis using t(1) by (intro exI [of _ "[t, op, v]"]) simp
    qed
  }
qed simp_all

subsection \<open>What the grammar derives the parser accepts\<close>

lemma not_is_no_key: "keyByName ''not'' = None"
  by (simp add: keyByName_def Keys_def plain_key_def)

lemma primary_head: "g_primary ts e \<Longrightarrow> \<not> keyword ''not'' (ts @ rest)"
  by (cases rule: g_primary.cases) (auto simp: keyword_def not_is_no_key)

abbreviation yields :: "parsed \<Rightarrow> expression \<Rightarrow> token list \<Rightarrow> bool" where
  "yields r e rest \<equiv> r = Some (Inr (e, rest))"

lemma ors_follow: "g_ors us es \<Longrightarrow> \<not> keyword ''and'' rest \<Longrightarrow> \<not> keyword ''and'' (us @ rest)"
  by (cases rule: g_ors.cases) (auto simp: keyword_def)

lemma ors_keyword: "g_ors us es \<Longrightarrow> es \<noteq> [] \<Longrightarrow> keyword ''or'' (us @ rest)"
  by (cases rule: g_ors.cases) (auto simp: keyword_def)

lemma ands_keyword: "g_ands us es \<Longrightarrow> es \<noteq> [] \<Longrightarrow> keyword ''and'' (us @ rest)"
  by (cases rule: g_ands.cases) (auto simp: keyword_def)

lemma parser_complete:
  shows "g_or ts e \<Longrightarrow> \<not> keyword ''or'' rest \<Longrightarrow> \<not> keyword ''and'' rest \<Longrightarrow> 4 * length (ts @ rest) + 4 \<le> n
      \<Longrightarrow> yields (p_or n (ts @ rest)) e rest"
    and "g_ors us es \<Longrightarrow> \<not> keyword ''or'' rest \<Longrightarrow> \<not> keyword ''and'' rest \<Longrightarrow> 4 * length (us @ rest) + 1 \<le> n
      \<Longrightarrow> yields (p_or_loop n acc (us @ rest)) (Any_of (acc @ es)) rest"
    and "g_and vs f \<Longrightarrow> \<not> keyword ''and'' rest \<Longrightarrow> 4 * length (vs @ rest) + 3 \<le> n
      \<Longrightarrow> yields (p_and n (vs @ rest)) f rest"
    and "g_ands ws fs \<Longrightarrow> \<not> keyword ''and'' rest \<Longrightarrow> 4 * length (ws @ rest) + 1 \<le> n
      \<Longrightarrow> yields (p_and_loop n acc (ws @ rest)) (All_of (acc @ fs)) rest"
    and "g_not xs h \<Longrightarrow> 4 * length (xs @ rest) + 2 \<le> n \<Longrightarrow> yields (p_not n (xs @ rest)) h rest"
    and "g_primary ys i \<Longrightarrow> 4 * length (ys @ rest) + 1 \<le> n \<Longrightarrow> yields (primary n (ys @ rest)) i rest"
proof (induction arbitrary: rest n and acc rest n and rest n and acc rest n and rest n and rest n
    rule: g_or_g_ors_g_and_g_ands_g_not_g_primary.inducts)
  case (or_one ts e)
  then show ?case by (cases n) auto
next
  case (or_more ts e us es)
  then show ?case using ors_follow [of us es rest] ors_keyword [of us es rest] by (cases n) auto
next
  case ors_none
  then show ?case by (cases n) auto
next
  case (ors_more t ts e us es)
  then show ?case using ors_follow [of us es rest] by (cases n) (auto simp: keyword_def)
next
  case (and_one ts e)
  then show ?case by (cases n) auto
next
  case (and_more ts e us es)
  then show ?case using ands_keyword [of us es rest] by (cases n) auto
next
  case ands_none
  then show ?case by (cases n) auto
next
  case (ands_more t ts e us es)
  then show ?case by (cases n) (auto simp: keyword_def)
next
  case (not_primary ts e)
  then show ?case using primary_head [of ts e rest] by (cases n) auto
next
  case (not_not t ts e)
  then show ?case by (cases n) (auto simp: keyword_def)
next
  case (paren l ts e r)
  have "\<not> keyword w (r # rest)" for w using paren by (simp add: keyword_def)
  then show ?case using paren by (cases n) auto
next
  case (equal name key op v)
  then show ?case using condition_Inr [of name key op v rest] by (cases n) auto
next
  case (unequal name key op v)
  then show ?case using condition_Inr [of name key op v rest] by (cases n) auto
next
  case (ordered name key op v)
  then show ?case using condition_Inr [of name key op v rest] by (cases n) auto
qed

section \<open>More fuel changes nothing\<close>

lemma then_parse_Some:
  "then_parse r f = Some y \<longleftrightarrow>
     (\<exists>err. r = Some (Inl err) \<and> y = Inl err) \<or> (\<exists>e ts. r = Some (Inr (e, ts)) \<and> f e ts = Some y)"
  by (cases "(r, f)" rule: then_parse.cases) auto

lemmas parser_simps = p_or.simps p_or_loop.simps p_and.simps p_and_loop.simps p_not.simps primary.simps

lemma parser_fuel:
  shows "p_or n ts = Some r \<Longrightarrow> p_or (Suc n) ts = Some r"
    and "p_or_loop n es ts = Some r \<Longrightarrow> p_or_loop (Suc n) es ts = Some r"
    and "p_and n ts = Some r \<Longrightarrow> p_and (Suc n) ts = Some r"
    and "p_and_loop n es ts = Some r \<Longrightarrow> p_and_loop (Suc n) es ts = Some r"
    and "p_not n ts = Some r \<Longrightarrow> p_not (Suc n) ts = Some r"
    and "primary n ts = Some r \<Longrightarrow> primary (Suc n) ts = Some r"
proof (induction n arbitrary: ts es r)
  case (Suc n)
  note IH = Suc.IH
  {
    case 1
    from 1 [unfolded p_or.simps(2)] show ?case
      by (subst p_or.simps(2)) (auto simp: then_parse_Some simp del: parser_simps split: if_splits dest: IH(2,3))
  next
    case 2
    from 2 [unfolded p_or_loop.simps(2)] show ?case
      by (subst p_or_loop.simps(2)) (auto simp: then_parse_Some simp del: parser_simps split: if_splits dest: IH(2,3))
  next
    case 3
    from 3 [unfolded p_and.simps(2)] show ?case
      by (subst p_and.simps(2)) (auto simp: then_parse_Some simp del: parser_simps split: if_splits dest: IH(4,5))
  next
    case 4
    from 4 [unfolded p_and_loop.simps(2)] show ?case
      by (subst p_and_loop.simps(2)) (auto simp: then_parse_Some simp del: parser_simps split: if_splits dest: IH(4,5))
  next
    case 5
    from 5 [unfolded p_not.simps(2)] show ?case
      by (subst p_not.simps(2)) (auto simp: then_parse_Some simp del: parser_simps split: if_splits dest: IH(5,6))
  next
    case 6
    from 6 [unfolded primary.simps(2)] show ?case
      by (subst primary.simps(2)) (auto simp: then_parse_Some simp del: parser_simps split: if_splits dest: IH(1))
  }
qed simp_all

lemma p_or_fuel: "p_or n ts = Some r \<Longrightarrow> p_or (n + k) ts = Some r"
  by (induction k) (simp_all add: parser_fuel(1) del: parser_simps)

section \<open>The tokens of a text\<close>

text \<open>The end token stands at the end and nowhere else, so the position of the parser stays in range.\<close>

definition ended :: "token list \<Rightarrow> bool" where
  "ended ts \<longleftrightarrow> (\<exists>us j. ts = us @ [mk_token tokenEnd [] j] \<and> (\<forall>t \<in> set us. t_kind t \<noteq> tokenEnd))"

lemma ended_Nil: "ended [mk_token tokenEnd [] j]"
  by (auto simp: ended_def)

lemma ended_Cons: "kind \<noteq> tokenEnd \<Longrightarrow> ended ts \<Longrightarrow> ended (mk_token kind text i # ts)"
  unfolding ended_def by (elim exE conjE, rule_tac x = "mk_token kind text i # us" in exI) (auto simp: mk_token_def)

text \<open>
  What may stand before the rest of the tokens, given whether a value is next before it and after
  it: a word in a place where no value is next is made of key characters.
\<close>

definition may_stand :: "bool \<Rightarrow> tokenKind \<Rightarrow> string \<Rightarrow> bool \<Rightarrow> bool" where
  "may_stand valueNext kind text valueNext' \<longleftrightarrow>
     (kind = tokenOperator \<and> valueNext') \<or> (kind \<in> {tokenOpen, tokenClose, tokenQuoted} \<and> \<not> valueNext')
     \<or> (kind = tokenWord \<and> \<not> valueNext' \<and> (valueNext \<or> (\<exists>w. text = string_of w \<and> list_all isKeyRune w)))"

lemma key_word: "\<exists>w. string_of (takeWhile (word_rune False) rs) = string_of w \<and> list_all isKeyRune w"
  by (rule exI [of _ "takeWhile (word_rune False) rs"]) (auto simp: list_all_iff word_rune_def dest: set_takeWhileD)

lemma tokenize_from_induct:
  assumes "tokenize_from i a v rs = Inr ts" and end_token: "\<And>v j. P v [mk_token tokenEnd [] j]"
    and more: "\<And>v kind text j v' us. may_stand v kind text v' \<Longrightarrow> P v' us \<Longrightarrow> P v (mk_token kind text j # us)"
  shows "P v ts"
  using assms(1)
proof (induction i a v rs arbitrary: ts rule: tokenize_from.induct)
  case (1 i a v rs)
  note IH = 1(1-6) and eq = 1(7) [unfolded tokenize_from.simps [of i a v rs]]
  show ?case
  proof (cases rs)
    case Nil
    then show ?thesis using eq end_token by auto
  next
    case (Cons r rest)
    let ?ops = "takeWhile operatorRune rs" and ?word = "takeWhile (word_rune v) rs"
    consider "IsSpace r" | "\<not> IsSpace r" "r = 40 \<or> r = 41" | "\<not> IsSpace r" "r = 34"
      | "\<not> IsSpace r" "r \<noteq> 40" "r \<noteq> 41" "r \<noteq> 34" "a \<and> operatorRune r"
      | "\<not> IsSpace r" "r \<noteq> 40" "r \<noteq> 41" "r \<noteq> 34" "\<not> (a \<and> operatorRune r)" "\<not> word_rune v r"
      | "\<not> IsSpace r" "r \<noteq> 40" "r \<noteq> 41" "r \<noteq> 34" "\<not> (a \<and> operatorRune r)" "word_rune v r" by blast
    then show ?thesis
    proof cases
      case 1
      then show ?thesis using eq Cons IH(1) [OF Cons] by simp
    next
      case 2
      then show ?thesis using eq Cons IH(2) [OF Cons] by (auto intro!: more [where v' = False] simp: may_stand_def)
    next
      case 3
      then show ?thesis using eq Cons IH(3) [OF Cons] by (auto split: option.splits intro!: more [where v' = False] simp: may_stand_def)
    next
      case 4
      then obtain us where "tokenize_from (i + length ?ops) False True (dropWhile operatorRune rs) = Inr us"
          "ts = mk_token tokenOperator (string_of ?ops) i # us"
        using eq unfolding Cons by (auto simp del: takeWhile.simps dropWhile.simps)
      then show ?thesis using IH(4) [OF Cons] 4 by (auto intro!: more [where v' = True] simp: may_stand_def)
    next
      case 5
      then obtain us where "operatorRune r" "tokenize_from (i + length ?ops) False True (dropWhile operatorRune rs) = Inr us"
          "ts = mk_token tokenOperator (string_of ?ops) i # us"
        using eq unfolding Cons by (auto simp del: takeWhile.simps dropWhile.simps split: if_splits)
      then show ?thesis using IH(5) [OF Cons] 5 by (auto intro!: more [where v' = True] simp: may_stand_def)
    next
      case 6
      then obtain us where "tokenize_from (i + length ?word) (\<not> v \<and> isKeyWord (string_of ?word)) False (dropWhile (word_rune v) rs) = Inr us"
          "ts = mk_token tokenWord (string_of ?word) i # us"
        using eq unfolding Cons by (auto simp: Let_def simp del: takeWhile.simps dropWhile.simps)
      then show ?thesis using IH(6) [OF Cons] 6 key_word [of rs] by (cases v) (auto intro!: more [where v' = False] simp: may_stand_def)
    qed
  qed
qed

lemma tokenize_from_end: "tokenize_from i a v rs = Inr ts \<Longrightarrow> ended ts"
  by (erule tokenize_from_induct) (auto intro!: ended_Nil ended_Cons simp: may_stand_def)

text \<open>
  A word that does not follow an operator is a word of key characters: the names of conditions and
  the keywords the parser looks at are ASCII.
\<close>

fun names_ok :: "bool \<Rightarrow> token list \<Rightarrow> bool" where
  "names_ok valueNext [] = True"
| "names_ok valueNext (t # ts) =
     ((t_kind t = tokenWord \<and> \<not> valueNext \<longrightarrow> (\<exists>w. t_text t = string_of w \<and> list_all isKeyRune w))
      \<and> names_ok (t_kind t = tokenOperator) ts)"

lemma tokenize_names: "tokenize text = Inr ts \<Longrightarrow> names_ok False ts"
  unfolding tokenize_def
  by (erule tokenize_from_induct) (auto simp: may_stand_def mk_token_def)

lemma tokenize_end: "tokenize text = Inr ts \<Longrightarrow> ended ts"
  unfolding tokenize_def by (rule tokenize_from_end)

text \<open>What the grammar derives is not empty and has no end token.\<close>

lemma derived_tokens:
  shows "g_or ts e \<Longrightarrow> ts \<noteq> [] \<and> tokenEnd \<notin> t_kind ` set ts"
    and "g_ors us es \<Longrightarrow> tokenEnd \<notin> t_kind ` set us"
    and "g_and vs f \<Longrightarrow> vs \<noteq> [] \<and> tokenEnd \<notin> t_kind ` set vs"
    and "g_ands ws fs \<Longrightarrow> tokenEnd \<notin> t_kind ` set ws"
    and "g_not xs h \<Longrightarrow> xs \<noteq> [] \<and> tokenEnd \<notin> t_kind ` set xs"
    and "g_primary ys i \<Longrightarrow> ys \<noteq> [] \<and> tokenEnd \<notin> t_kind ` set ys"
  by (induction rule: g_or_g_ors_g_and_g_ands_g_not_g_primary.inducts) auto

lemma ended_rest:
  assumes "ended (used @ rest)" "tokenEnd \<notin> t_kind ` set used" "t_kind (peek_token rest) = tokenEnd"
  shows "\<exists>j. rest = [mk_token tokenEnd [] j]"
proof -
  obtain us j where u: "used @ rest = us @ [mk_token tokenEnd [] j]" "\<forall>t \<in> set us. t_kind t \<noteq> tokenEnd"
    using assms(1) by (auto simp: ended_def)
  have "rest \<noteq> []"
  proof
    assume "rest = []"
    then have "mk_token tokenEnd [] j \<in> set used" using u(1) by simp
    then show False using assms(2) by (force simp: mk_token_def)
  qed
  then obtain x xs where x: "rest = x # xs" "t_kind x = tokenEnd" using assms(3) by (cases rest) auto
  have "xs = []"
  proof (rule ccontr)
    assume "xs \<noteq> []"
    then have "us = used @ x # butlast xs" using arg_cong [OF u(1), of butlast] x(1) by (simp add: butlast_append)
    then show False using u(2) x(2) by simp
  qed
  then show ?thesis using u(1) x(1) by auto
qed

lemma Parse_iff:
  "Parse text = Some (Inr e)
     \<longleftrightarrow> (\<exists>ts j. tokenize text = Inr (ts @ [mk_token tokenEnd [] j]) \<and> g_or ts e \<and> Validate_selector (Some e) = None)"
proof
  assume p: "Parse text = Some (Inr e)"
  then obtain ts rest where t: "tokenize text = Inr ts" "p_or (parse_fuel ts) ts = Some (Inr (e, rest))"
      "t_kind (peek_token rest) = tokenEnd" "Validate_selector (Some e) = None"
    by (auto simp: Parse_def split: sum.splits if_splits option.splits)
  obtain used where d: "ts = used @ rest" "g_or used e" using parser_sound(1) [OF t(2)] by blast
  obtain j where "rest = [mk_token tokenEnd [] j]"
    using ended_rest [of used rest] tokenize_end [OF t(1)] derived_tokens(1) [OF d(2)] t(3) d(1) by auto
  then show "\<exists>ts j. tokenize text = Inr (ts @ [mk_token tokenEnd [] j]) \<and> g_or ts e \<and> Validate_selector (Some e) = None"
    using t d by blast
next
  assume "\<exists>ts j. tokenize text = Inr (ts @ [mk_token tokenEnd [] j]) \<and> g_or ts e \<and> Validate_selector (Some e) = None"
  then obtain ts j where t: "tokenize text = Inr (ts @ [mk_token tokenEnd [] j])" "g_or ts e" "Validate_selector (Some e) = None" by blast
  let ?stop = "[mk_token tokenEnd [] j]"
  have "t_kind (peek_token (ts @ ?stop)) \<noteq> tokenEnd" using derived_tokens(1) [OF t(2)] by (cases ts) auto
  moreover have "p_or (parse_fuel (ts @ ?stop)) (ts @ ?stop) = Some (Inr (e, ?stop))"
    using t(2) by (rule parser_complete(1)) (simp_all add: keyword_def mk_token_def parse_fuel_def)
  ultimately show "Parse text = Some (Inr e)" using t by (simp add: Parse_def mk_token_def)
qed

end
