(* ===== verification/Selector_Meaning.thy ===== *)
theory Selector_Meaning
  imports Selector_Sound
begin

text \<open>
  What a selector means for a host and what its compiled form may depend on. The meaning is in
  the three-valued logic of SQL: a fact the host has not reported is neither true nor false. The
  skeleton of a selector forgets every value a client chose freely and keeps its shape.
\<close>

section \<open>The meaning of a selector\<close>

definition sql_all :: "bool option list \<Rightarrow> bool option" where
  "sql_all vs = (if Some False \<in> set vs then Some False else if None \<in> set vs then None else Some True)"

definition sql_any :: "bool option list \<Rightarrow> bool option" where
  "sql_any vs = (if Some True \<in> set vs then Some True else if None \<in> set vs then None else Some False)"

definition meaning_of_facts :: "(string \<Rightarrow> string \<Rightarrow> bool option) \<Rightarrow> facts \<Rightarrow> bool option" where
  "meaning_of_facts host f =
     (case find (\<lambda>fact. snd fact \<noteq> []) (leaves f) of None \<Rightarrow> None | Some (name, value) \<Rightarrow> host name value)"

fun meaning :: "(string \<Rightarrow> string \<Rightarrow> bool option) \<Rightarrow> expression \<Rightarrow> bool option" where
  "meaning host (Expression all_of any_of not_of f) =
     (if all_of \<noteq> [] then sql_all (map (meaning host) all_of)
      else if any_of \<noteq> [] then sql_any (map (meaning host) any_of)
      else case not_of of Some e \<Rightarrow> map_option HOL.Not (meaning host e) | None \<Rightarrow> meaning_of_facts host f)"

text \<open>
  A host belongs to a static group by its member list and to a dynamic one by the meaning of its
  selector.
\<close>

definition coherent :: "(string \<Rightarrow> string \<Rightarrow> bool option) \<Rightarrow> Groups \<Rightarrow> bool" where
  "coherent host lookup \<longleftrightarrow> (\<forall>ref g. lookup ref = Inr (Some g) \<longrightarrow>
     (g_Kind g = KindStatic \<longrightarrow> host ''group'' ref = host ''group_id'' (g_ID g))
     \<and> (g_Kind g = KindDynamic \<longrightarrow> (\<forall>s. g_Selector g = Some s \<longrightarrow> host ''group'' ref = meaning host s)))"

text \<open>A node that refers to a group has no other fact.\<close>

lemma meaning_reference:
  assumes "fields_set (Expression [] [] None f) = 1" "f_Group f \<noteq> []"
  shows "meaning host (Expression [] [] None f) = host ''group'' (f_Group f)"
proof -
  have "length (filter (\<lambda>(name, value). value \<noteq> []) (leaves f)) = 1" using assms(1) by (simp add: fields_set_def)
  then have "f_Site f = [] \<and> f_Environment f = [] \<and> f_OSFamily f = [] \<and> f_Tag f = []"
    using assms(2) by (auto simp: leaves_def split: if_splits)
  then show ?thesis using assms(2) by (simp add: meaning_of_facts_def leaves_def)
qed

lemma meaning_member: "gid \<noteq> [] \<Longrightarrow> meaning host (member_of gid) = host ''group_id'' gid"
  by (simp add: member_of_def meaning_of_facts_def leaves_def no_facts_def)

lemma expand_node_meaning:
  "expand_node groups chain n e = Inr (e', n') \<Longrightarrow> well_formed False e
     \<Longrightarrow> (\<And>lookup. groups = Some lookup \<Longrightarrow> sound_groups lookup \<and> coherent host lookup)
     \<Longrightarrow> meaning host e' = meaning host e"
  and expand_nodes_meaning:
  "expand_nodes groups chain n es = Inr (es', n') \<Longrightarrow> list_all (well_formed False) es
     \<Longrightarrow> (\<And>lookup. groups = Some lookup \<Longrightarrow> sound_groups lookup \<and> coherent host lookup)
     \<Longrightarrow> map (meaning host) es' = map (meaning host) es"
proof (induction groups chain n e and groups chain n es arbitrary: e' n' and es' n' rule: expand_node_expand_nodes.induct)
  case (1 groups chain n al an nt f)
  note IH = 1(1-4) and eq = 1(5) and wf = 1(6) and ok = 1(7)
  show ?case
  proof (cases "f_Group f = []")
    case True
    obtain al' n1 an' n2 nt' where e: "expand_nodes groups chain (n + 1) al = Inr (al', n1)" "countNode n = Inr (n + 1)"
        "expand_nodes groups chain n1 an = Inr (an', n2)"
        "(case nt of None \<Rightarrow> Inr (None, n2) | Some e \<Rightarrow> and_then (expand_node groups chain n2 e) (\<lambda>(e', n). Inr (Some e', n))) = Inr (nt', n')"
        "e' = Expression al' an' nt' f"
      using eq True by (auto simp: countNode_Inr)
    have a: "map (meaning host) al' = map (meaning host) al" using IH(1) [of "n + 1" al' n1] e wf True ok by simp
    have b: "map (meaning host) an' = map (meaning host) an" using IH(2) [of "n + 1" _ al' n1 an' n2] e wf True ok by simp
    have c: "map_option (meaning host) nt' = map_option (meaning host) nt"
    proof (cases nt)
      case (Some x)
      then show ?thesis using IH(3) [of "n + 1" _ al' n1 _ an' n2 x] e wf True ok by auto
    qed (use e in auto)
    have "(al' = []) = (al = [])" "(an' = []) = (an = [])" using a b by (metis map_is_Nil_conv)+
    then show ?thesis using a b c by (cases nt; cases nt') (simp_all add: e(5))
  next
    case False
    have alone: "al = []" "an = []" "nt = None" using group_alone [of al an nt f] wf False by auto
    obtain lookup g where g: "groups = Some lookup" "lookup (f_Group f) = Inr (Some g)" "g_ID g \<notin> set chain"
      using eq False unfolding alone by (rule expand_reference)
    have s: "g_ID g \<noteq> []" "\<And>s. g_Selector g = Some s \<Longrightarrow> well_formed False s"
      using ok [OF g(1)] g(2) by (auto simp: sound_groups_def)
    have m: "meaning host (Expression al an nt f) = host ''group'' (f_Group f)"
      using meaning_reference [of f host] wf False alone by simp
    have h: "g_Kind g = KindStatic \<Longrightarrow> host ''group'' (f_Group f) = host ''group_id'' (g_ID g)"
        "\<And>s. g_Kind g = KindDynamic \<Longrightarrow> g_Selector g = Some s \<Longrightarrow> host ''group'' (f_Group f) = meaning host s"
      using ok [OF g(1)] g(2) by (auto simp: coherent_def)
    show ?thesis
    proof (cases "g_Kind g = KindStatic")
      case True
      then have "e' = member_of (g_ID g)" using eq False alone g by auto
      then show ?thesis using m h(1) [OF True] meaning_member [OF s(1)] by simp
    next
      case dynamic: False
      then obtain sel where sel: "g_Kind g = KindDynamic" "g_Selector g = Some sel" "length chain < MaxExpansion"
          "expand_node groups (chain @ [g_ID g]) n sel = Inr (e', n')"
        using eq False alone g by (auto split: if_splits option.splits)
      have "meaning host e' = meaning host sel"
        using IH(4) [of n "([], n)" "[]" n "([], n)" "[]" n "(None, n)" None n lookup "Some g" g sel e' n'] False alone g dynamic sel ok s
        by auto
      then show ?thesis using m h(2) [OF sel(1,2)] by simp
    qed
  qed
next
  case (3 groups chain n e es)
  then show ?case by auto
qed simp

lemma Expand_meaning:
  assumes "Validate_selector (Some e) = None" "sound_groups lookup" "coherent host lookup" "Expand (Some e) (Some lookup) = Inr e'"
  shows "meaning host e' = meaning host e"
  using assms expand_node_meaning [of "Some lookup" "[]" 0 e] by (auto simp: Expand_def Validate_iff split: if_splits)

section \<open>The skeleton of a selector\<close>

text \<open>
  What the text of the compiled condition may depend on: which fact a leaf names, the two truth
  values, the operator of a version comparison, and whether a relay is named by identifier.
\<close>

definition redact :: "string \<Rightarrow> string" where
  "redact value = (if value = [] then [] else ''?'')"

definition redact_bool :: "string \<Rightarrow> string" where
  "redact_bool value = (if value = [] then [] else if value = ''true'' then ''true'' else ''false'')"

definition redact_version :: "string \<Rightarrow> string" where
  "redact_version value =
     (if value = [] then [] else case ParseVersionComparison value of Inr c \<Rightarrow> vc_Operator c @ ''?'' | Inl _ \<Rightarrow> ''?'')"

definition redact_relay :: "(string \<Rightarrow> bool) \<Rightarrow> string \<Rightarrow> string" where
  "redact_relay is_uuid value = (if value = [] then [] else if is_uuid value then ''id'' else ''name'')"

definition redact_facts :: "(string \<Rightarrow> bool) \<Rightarrow> facts \<Rightarrow> facts" where
  "redact_facts is_uuid f =
     \<lparr>f_Site = redact (f_Site f), f_Environment = redact (f_Environment f), f_OSFamily = redact (f_OSFamily f),
      f_Tag = redact (f_Tag f), f_Group = redact (f_Group f), f_Capability = redact (f_Capability f),
      f_ConnectionState = redact (f_ConnectionState f), f_LifecycleState = redact (f_LifecycleState f),
      f_Owner = redact (f_Owner f), f_Channel = redact (f_Channel f), f_OSVersion = redact (f_OSVersion f),
      f_SecurityUpdates = redact_bool (f_SecurityUpdates f), f_RebootRequired = redact_bool (f_RebootRequired f),
      f_FailedUnits = redact_bool (f_FailedUnits f), f_AgentVersion = redact_version (f_AgentVersion f),
      f_Relay = redact_relay is_uuid (f_Relay f), f_FailureDomain = redact (f_FailureDomain f),
      f_MemberOf = redact (f_MemberOf f)\<rparr>"

fun skeleton :: "(string \<Rightarrow> bool) \<Rightarrow> expression \<Rightarrow> expression" where
  "skeleton is_uuid (Expression all_of any_of not_of f) =
     Expression (map (skeleton is_uuid) all_of) (map (skeleton is_uuid) any_of)
       (case not_of of None \<Rightarrow> None | Some e \<Rightarrow> Some (skeleton is_uuid e)) (redact_facts is_uuid f)"

lemma redact_eq_iff: "redact v = redact w \<longleftrightarrow> (v = []) = (w = [])"
  by (simp add: redact_def)

lemma redact_bool_eq:
  "redact_bool v = redact_bool w \<Longrightarrow> (v = []) = (w = []) \<and> (v = ''true'') = (w = ''true'')"
  by (auto simp: redact_bool_def split: if_splits)

lemma redact_bool_same:
  "redact_bool v = redact_bool w \<Longrightarrow> v = [] \<or> v \<in> set booleans \<Longrightarrow> w = [] \<or> w \<in> set booleans \<Longrightarrow> v = w"
  by (auto simp: redact_bool_def booleans_def split: if_splits)

lemma redact_version_eq:
  assumes "redact_version v = redact_version w" "v = [] \<or> \<not> isl (ParseVersionComparison v)" "w = [] \<or> \<not> isl (ParseVersionComparison w)"
  shows "(v = []) = (w = []) \<and> (\<forall>c d. v \<noteq> [] \<longrightarrow> ParseVersionComparison v = Inr c \<longrightarrow> ParseVersionComparison w = Inr d \<longrightarrow> vc_Operator c = vc_Operator d)"
  using assms by (auto simp: redact_version_def isl_def split: if_splits sum.splits)

lemma redact_relay_eq:
  "redact_relay u v = redact_relay u w \<Longrightarrow> (v = []) = (w = []) \<and> (v \<noteq> [] \<longrightarrow> u v = u w)"
  by (auto simp: redact_relay_def split: if_splits)

lemma check_leavesD:
  "check_leaves f \<Longrightarrow> (name, v) \<in> set (leaves f) \<Longrightarrow> v = [] \<or> check_leaf (name, v)"
  by (auto simp: check_leaves_def list_all_iff)

lemma checked_values:
  assumes "check_leaves (f\<lparr>f_MemberOf := []\<rparr>)"
  shows "f_RebootRequired f = [] \<or> f_RebootRequired f \<in> set booleans"
    and "f_AgentVersion f = [] \<or> \<not> isl (ParseVersionComparison (f_AgentVersion f))"
  using check_leavesD [OF assms, of "''reboot_required''" "f_RebootRequired f"]
    check_leavesD [OF assms, of "''agent_version''" "f_AgentVersion f"]
  unfolding leaves_def check_leaf_def by (simp_all, blast, blast)

lemma with_param_Inr:
  "with_param off args before v after = Inr (t, a)
     \<longleftrightarrow> t = before @ ''$'' @ Itoa (Suc (off + length args)) @ after \<and> a = args @ [v]"
  by (auto simp: with_param_def param_def)

lemma version_condition_skeleton:
  assumes "redact_version v = redact_version w" "v \<noteq> []" "w \<noteq> []" "length args = length args'"
    and "version_condition off args v = Inr (t, a)" "version_condition off args' w = Inr (t', a')"
  shows "t = t' \<and> length a = length a'"
proof -
  obtain c d where c: "ParseVersionComparison v = Inr c" "ParseVersionComparison w = Inr d"
    using assms(5,6) by (auto simp: version_condition_def)
  then have "vc_Operator c = vc_Operator d" using assms(1-3) by (simp add: redact_version_def)
  then show ?thesis using assms(4-6) c by (auto simp: version_condition_def with_param_Inr)
qed

lemma relay_condition_skeleton:
  assumes "redact_relay u v = redact_relay u w" "v \<noteq> []" "w \<noteq> []" "length args = length args'"
    and "relay_condition u off args v = Inr (t, a)" "relay_condition u off args' w = Inr (t', a')"
  shows "t = t' \<and> length a = length a'"
  using assms by (auto simp: relay_condition_def redact_relay_def with_param_Inr split: if_splits)

text \<open>The switch as a list of guarded results; the first whose guard holds decides.\<close>

fun first_of :: "(bool \<times> 'a) list \<Rightarrow> 'a \<Rightarrow> 'a" where
  "first_of [] d = d"
| "first_of ((c, r) # cs) d = (if c then r else first_of cs d)"

definition same_text :: "selector_error + string \<times> args \<Rightarrow> selector_error + string \<times> args \<Rightarrow> bool" where
  "same_text r r' \<longleftrightarrow> (\<forall>t a t' a'. r = Inr (t, a) \<longrightarrow> r' = Inr (t', a') \<longrightarrow> t = t' \<and> length a = length a')"

lemma first_of_same:
  "list_all2 (\<lambda>(c, r) (c', r'). c = c' \<and> (c \<longrightarrow> c' \<longrightarrow> same_text r r')) cs cs' \<Longrightarrow> same_text d d'
     \<Longrightarrow> same_text (first_of cs d) (first_of cs' d')"
  by (induction rule: list_all2_induct) auto

definition clauses :: "(string \<Rightarrow> bool) \<Rightarrow> nat \<Rightarrow> args \<Rightarrow> facts \<Rightarrow> (bool \<times> (selector_error + string \<times> args)) list" where
  "clauses is_uuid off args f =
     [(f_Site f \<noteq> [], with_param off args ''h.site = '' (Text (f_Site f)) []),
      (f_Environment f \<noteq> [], with_param off args ''h.environment = '' (Text (f_Environment f)) []),
      (f_OSFamily f \<noteq> [], with_param off args ''h.os_family = '' (Text (f_OSFamily f)) []),
      (f_Tag f \<noteq> [], with_param off args ''h.tags @> '' (TextArray [f_Tag f]) ''::text[]''),
      (f_Capability f \<noteq> [],
        with_param off args ''exists (select 1 from host_capability_registry r where r.host_id = h.id and r.name = ''
          (Text (f_Capability f)) '' and r.available)''),
      (f_ConnectionState f \<noteq> [], with_param off args ''h.connection_state = '' (Text (f_ConnectionState f)) []),
      (f_LifecycleState f \<noteq> [], with_param off args ''h.lifecycle_state = '' (Text (f_LifecycleState f)) []),
      (f_Owner f \<noteq> [], with_param off args ''h.owner = '' (Text (f_Owner f)) []),
      (f_Channel f \<noteq> [], with_param off args ''h.release_channel = '' (Text (f_Channel f)) []),
      (f_OSVersion f \<noteq> [], with_param off args ''starts_with(h.os_version, '' (Text (f_OSVersion f)) '')''),
      (f_SecurityUpdates f \<noteq> [],
        Inr (if f_SecurityUpdates f = ''true'' then ''h.pending_security_updates > 0''
             else ''h.pending_security_updates = 0'', args)),
      (f_RebootRequired f \<noteq> [], Inr (''h.reboot_required = '' @ f_RebootRequired f, args)),
      (f_FailedUnits f \<noteq> [],
        Inr (if f_FailedUnits f = ''true'' then ''h.failed_units > 0'' else ''h.failed_units = 0'', args)),
      (f_AgentVersion f \<noteq> [], version_condition off args (f_AgentVersion f)),
      (f_Relay f \<noteq> [], relay_condition is_uuid off args (f_Relay f)),
      (f_FailureDomain f \<noteq> [], with_param off args ''h.failure_domain = '' (Text (f_FailureDomain f)) []),
      (f_MemberOf f \<noteq> [],
        with_param off args ''exists (select 1 from host_group_members m where m.group_id = ''
          (Text (f_MemberOf f)) ''::uuid and m.host_id = h.id)''),
      (f_Group f \<noteq> [], Inl ErrUnexpanded)]"

lemma leaf_condition_clauses: "leaf_condition u off args f = first_of (clauses u off args f) (Inl ErrInvalid)"
  by (simp only: leaf_condition_def clauses_def first_of.simps)

lemma same_text_with_param: "length args = length args' \<Longrightarrow> same_text (with_param off args b v c) (with_param off args' b v' c)"
  by (simp add: same_text_def with_param_Inr)

lemma leaf_condition_skeleton:
  assumes "redact_facts u f = redact_facts u g" "check_leaves (f\<lparr>f_MemberOf := []\<rparr>)" "check_leaves (g\<lparr>f_MemberOf := []\<rparr>)"
    and len: "length args = length args'"
  shows "same_text (leaf_condition u off args f) (leaf_condition u off args' g)"
proof -
  note field = arg_cong [OF assms(1)]
  have v: "redact_version (f_AgentVersion f) = redact_version (f_AgentVersion g)" using field [of f_AgentVersion] by (simp add: redact_facts_def)
  have l: "redact_relay u (f_Relay f) = redact_relay u (f_Relay g)" using field [of f_Relay] by (simp add: redact_facts_def)
  have b: "redact_bool (f_SecurityUpdates f) = redact_bool (f_SecurityUpdates g)" "redact_bool (f_FailedUnits f) = redact_bool (f_FailedUnits g)"
      "redact_bool (f_RebootRequired f) = redact_bool (f_RebootRequired g)"
    using field [of f_SecurityUpdates] field [of f_FailedUnits] field [of f_RebootRequired] by (simp_all add: redact_facts_def)
  note r = redact_bool_same [OF b(3) checked_values(1) [OF assms(2)] checked_values(1) [OF assms(3)]]
  note eqs = redact_version_eq [OF v checked_values(2) [OF assms(2)] checked_values(2) [OF assms(3)], THEN conjunct1]
    redact_relay_eq [OF l, THEN conjunct1] redact_bool_eq [OF b(1), THEN conjunct1] redact_bool_eq [OF b(2), THEN conjunct1]
    redact_bool_eq [OF b(1), THEN conjunct2] redact_bool_eq [OF b(2), THEN conjunct2]
  note texts = field [of f_Site, unfolded redact_facts_def, simplified redact_eq_iff facts.simps]
    field [of f_Environment, unfolded redact_facts_def, simplified redact_eq_iff facts.simps]
    field [of f_OSFamily, unfolded redact_facts_def, simplified redact_eq_iff facts.simps]
    field [of f_Tag, unfolded redact_facts_def, simplified redact_eq_iff facts.simps]
    field [of f_Group, unfolded redact_facts_def, simplified redact_eq_iff facts.simps]
    field [of f_Capability, unfolded redact_facts_def, simplified redact_eq_iff facts.simps]
    field [of f_ConnectionState, unfolded redact_facts_def, simplified redact_eq_iff facts.simps]
    field [of f_LifecycleState, unfolded redact_facts_def, simplified redact_eq_iff facts.simps]
    field [of f_Owner, unfolded redact_facts_def, simplified redact_eq_iff facts.simps]
    field [of f_Channel, unfolded redact_facts_def, simplified redact_eq_iff facts.simps]
    field [of f_OSVersion, unfolded redact_facts_def, simplified redact_eq_iff facts.simps]
    field [of f_FailureDomain, unfolded redact_facts_def, simplified redact_eq_iff facts.simps]
    field [of f_MemberOf, unfolded redact_facts_def, simplified redact_eq_iff facts.simps]
  have "f_AgentVersion g \<noteq> [] \<Longrightarrow> same_text (version_condition off args (f_AgentVersion f)) (version_condition off args' (f_AgentVersion g))"
    using version_condition_skeleton [OF v _ _ len] eqs(1) unfolding same_text_def by blast
  moreover have "f_Relay g \<noteq> [] \<Longrightarrow> same_text (relay_condition u off args (f_Relay f)) (relay_condition u off args' (f_Relay g))"
    using relay_condition_skeleton [OF l _ _ len] eqs(2) unfolding same_text_def by blast
  moreover have "same_text (Inr (x, args)) (Inr (x, args'))" "same_text (Inl e) (Inl e)" for x e
    using len by (simp_all add: same_text_def)
  ultimately show ?thesis
    unfolding leaf_condition_clauses clauses_def
    by (intro first_of_same) (simp_all only: list_all2_Cons list_all2_Nil prod.case same_text_with_param [OF len] eqs texts r simp_thms, blast)
qed

lemma skeleton_facts: "skeleton u (Expression al an nt f) = skeleton u (Expression al' an' nt' f') \<Longrightarrow>
    map (skeleton u) al = map (skeleton u) al' \<and> map (skeleton u) an = map (skeleton u) an'
    \<and> rel_option (\<lambda>e e'. skeleton u e = skeleton u e') nt nt' \<and> redact_facts u f = redact_facts u f'"
  by (auto split: option.splits)

lemma compile_node_skeleton:
  "skeleton u e = skeleton u e' \<Longrightarrow> well_formed True e \<Longrightarrow> well_formed True e' \<Longrightarrow> length args = length args'
     \<Longrightarrow> same_text (compile_node u off args e) (compile_node u off args' e')"
  and compile_nodes_skeleton:
  "map (skeleton u) es = map (skeleton u) es' \<Longrightarrow> list_all (well_formed True) es \<Longrightarrow> list_all (well_formed True) es'
     \<Longrightarrow> length args = length args' \<Longrightarrow> compile_nodes u off args es = Inr (ts, a) \<Longrightarrow> compile_nodes u off args' es' = Inr (ts', a')
     \<Longrightarrow> ts = ts' \<and> length a = length a'"
proof (induction u off args e and u off args es arbitrary: e' args' and es' args' ts a ts' a' rule: compile_node_compile_nodes.induct)
  case (1 u off args al an nt f)
  obtain al' an' nt' f' where e': "e' = Expression al' an' nt' f'" by (cases e') auto
  note sk = skeleton_facts [OF 1(4) [unfolded e']] and IH = 1(1-3)
  have empty: "(al' = []) = (al = [])" "(an' = []) = (an = [])" using sk by (metis map_is_Nil_conv)+
  note wf = 1(5) 1(6) [unfolded e'] and len = 1(7)
  consider "al \<noteq> []" | "al = []" "an \<noteq> []" | x where "al = []" "an = []" "nt = Some x" | "al = []" "an = []" "nt = None"
    by (cases nt) auto
  then show ?case
  proof cases
    case 1
    have "ts = ts' \<and> length a = length a'"
      if "compile_nodes u off args al = Inr (ts, a)" "compile_nodes u off args' al' = Inr (ts', a')" for ts a ts' a'
      using IH(1) [OF 1, of al' args' ts a ts' a'] sk wf len that by simp
    then show ?thesis unfolding e' same_text_def using 1 empty by simp blast
  next
    case 2
    have "ts = ts' \<and> length a = length a'"
      if "compile_nodes u off args an = Inr (ts, a)" "compile_nodes u off args' an' = Inr (ts', a')" for ts a ts' a'
      using IH(2) [of an' args' ts a ts' a'] 2 sk wf len that by simp
    then show ?thesis unfolding e' same_text_def using 2 empty by simp blast
  next
    case 3
    then obtain y where y: "nt' = Some y" "skeleton u x = skeleton u y" using sk by (cases nt') auto
    have "same_text (compile_node u off args x) (compile_node u off args' y)"
      using IH(3) [of x y args'] 3 y wf len by simp
    then show ?thesis unfolding e' same_text_def using 3 empty y by simp blast
  next
    case 4
    then have "nt' = None" using sk by (cases nt') auto
    then show ?thesis
      using 4 sk empty wf len leaf_condition_skeleton [of u f f' args args' off] unfolding e' by simp
  qed
next
  case (2 u off args)
  then show ?case by simp
next
  case (3 u off args e es)
  obtain x xs where es': "es' = x # xs" using 3(3) by auto
  obtain t a1 ts1 where l: "compile_node u off args e = Inr (t, a1)" "compile_nodes u off a1 es = Inr (ts1, a)" "ts = t # ts1"
    using 3(7) by auto
  obtain t' a1' ts1' where r: "compile_node u off args' x = Inr (t', a1')" "compile_nodes u off a1' xs = Inr (ts1', a')" "ts' = t' # ts1'"
    using 3(8) unfolding es' by auto
  have "same_text (compile_node u off args e) (compile_node u off args' x)" using 3(1) [of x args'] 3(3-6) es' by simp
  then have t: "t = t'" "length a1 = length a1'" using l r by (simp_all add: same_text_def)
  have "ts1 = ts1' \<and> length a = length a'" using 3(2) [of "(t, a1)" t a1 xs a1' ts1 a ts1' a'] l r t 3(3-6) es' by simp
  then show ?case using t l r by simp
qed

end
