(* ===== verification/Selector_Store.thy ===== *)
theory Selector_Store
  imports Selector_Meaning
begin

text \<open>
  The saved groups a selector may refer to (\<open>src/internal/selector/store.go\<close>): the tables
  \<open>host_groups\<close> and \<open>host_group_members\<close>, their operations, and the invariant that makes a lookup
  in the store fit for the expansion: every stored dynamic group has a selector that validates.

  The \<open>jsonb\<close> column of a selector is the expression it was written from. The package \<open>uuid\<close> and
  the cast of PostgreSQL to \<open>uuid\<close> are parameters: whether a text parses as an identifier, and the
  identifier it is cast to, if the cast does not fail. Identifiers are kept in the form the
  database prints. A fresh identifier and the moment of a statement come from the environment.
\<close>

record SavedGroup =
  sg_ID :: string
  sg_Name :: string
  sg_Description :: string
  sg_Kind :: string
  sg_Selector :: "expression option"
  sg_CreatedBy :: string
  sg_CreatedAt :: moment
  sg_UpdatedAt :: moment

datatype group_error =
  InvalidGroup selector_error | ErrGroupNotFound | ErrNameTaken | ErrNotStatic | ErrChanged | ErrUnknownHosts | QueryFailed

record group_env =
  parses_uuid :: "string \<Rightarrow> bool"
  cast_uuid :: "string \<Rightarrow> string option"
  fresh_id :: string
  stmt_now :: moment

record group_store =
  host_groups :: "SavedGroup list"
  host_group_members :: "(string \<times> string) list"
  known_hosts :: "string list"

definition NamePattern :: "string \<Rightarrow> bool" where
  "NamePattern s = (s \<noteq> [] \<and> isAlnum (hd s) \<and> list_all (\<lambda>c. isAlnum c \<or> c \<in> set ''_.-'') s \<and> length s \<le> 64)"

definition MaxMembers :: nat where "MaxMembers = 10000"

definition Validate_group :: "SavedGroup \<Rightarrow> group_error option" where
  "Validate_group g =
     (if \<not> NamePattern (sg_Name g) then Some (InvalidGroup ErrInvalid)
      else if 1000 < length (sg_Description g) then Some (InvalidGroup ErrInvalid)
      else if sg_Kind g = KindStatic then
        (if sg_Selector g \<noteq> None then Some (InvalidGroup ErrInvalid) else None)
      else if sg_Kind g = KindDynamic then
        (case sg_Selector g of
           None \<Rightarrow> Some (InvalidGroup ErrInvalid)
         | Some e \<Rightarrow> map_option InvalidGroup (Validate_selector (Some e)))
      else Some (InvalidGroup ErrInvalid))"

definition GetGroup :: "group_env \<Rightarrow> string \<Rightarrow> group_store \<Rightarrow> group_error + SavedGroup" where
  "GetGroup env ref s =
     (let ref = TrimSpace ref in
      if ref = [] then Inl ErrGroupNotFound
      else if parses_uuid env ref then
        (case cast_uuid env ref of
           None \<Rightarrow> Inl QueryFailed
         | Some gid \<Rightarrow>
             (case sql_get sg_ID gid (host_groups s) of None \<Rightarrow> Inl ErrGroupNotFound | Some g \<Rightarrow> Inr g))
      else
        (case sql_get sg_Name ref (host_groups s) of None \<Rightarrow> Inl ErrGroupNotFound | Some g \<Rightarrow> Inr g))"

definition LookupGroup :: "group_env \<Rightarrow> group_store \<Rightarrow> Groups" where
  "LookupGroup env s ref =
     (case GetGroup env ref s of
        Inl ErrGroupNotFound \<Rightarrow> Inr None
      | Inl _ \<Rightarrow> Inl LookupFailed
      | Inr g \<Rightarrow> Inr (Some \<lparr>g_ID = sg_ID g, g_Name = sg_Name g, g_Kind = sg_Kind g, g_Selector = sg_Selector g\<rparr>))"

definition CreateGroup :: "group_env \<Rightarrow> SavedGroup \<Rightarrow> group_store \<Rightarrow> (group_error + SavedGroup) \<times> group_store" where
  "CreateGroup env g s =
     (case Validate_group g of
        Some err \<Rightarrow> (Inl err, s)
      | None \<Rightarrow>
          if \<exists>other \<in> set (host_groups s). sg_Name other = sg_Name g then (Inl ErrNameTaken, s)
          else if \<exists>other \<in> set (host_groups s). sg_ID other = fresh_id env then (Inl QueryFailed, s)
          else
            let row = g\<lparr>sg_ID := fresh_id env, sg_CreatedAt := stmt_now env, sg_UpdatedAt := stmt_now env\<rparr>;
                s' = s\<lparr>host_groups := host_groups s @ [row]\<rparr>
            in (GetGroup env (fresh_id env) s', s'))"

definition UpdateGroup :: "group_env \<Rightarrow> string \<Rightarrow> SavedGroup \<Rightarrow> moment \<Rightarrow> group_store \<Rightarrow> (group_error + SavedGroup) \<times> group_store" where
  "UpdateGroup env gid g read s =
     (case GetGroup env gid s of
        Inl err \<Rightarrow> (Inl err, s)
      | Inr current \<Rightarrow>
          let g = g\<lparr>sg_Kind := sg_Kind current\<rparr>;
              g = (if sg_Kind g = KindStatic then g\<lparr>sg_Selector := None\<rparr> else g)
          in case Validate_group g of
               Some err \<Rightarrow> (Inl err, s)
             | None \<Rightarrow>
                 let hit = (\<lambda>r. sg_ID r = sg_ID current \<and> sg_UpdatedAt r = read
                       \<and> \<not> (\<exists>other \<in> set (host_groups s). sg_Name other = sg_Name g \<and> sg_ID other \<noteq> sg_ID current))
                 in if \<exists>r \<in> set (host_groups s). hit r then
                      let s' = s\<lparr>host_groups := sql_update hit
                            (\<lambda>r. r\<lparr>sg_Name := sg_Name g, sg_Description := sg_Description g, sg_Selector := sg_Selector g,
                                  sg_UpdatedAt := stmt_now env\<rparr>) (host_groups s)\<rparr>
                      in (GetGroup env (sg_ID current) s', s')
                    else if sg_UpdatedAt current \<noteq> read then (Inl ErrChanged, s)
                    else (Inl ErrNameTaken, s))"

text \<open>A deleted group takes its member list along: the foreign key cascades.\<close>

definition DeleteGroup :: "group_env \<Rightarrow> string \<Rightarrow> group_store \<Rightarrow> group_error option \<times> group_store" where
  "DeleteGroup env gid s =
     (case cast_uuid env gid of
        None \<Rightarrow> (Some QueryFailed, s)
      | Some u \<Rightarrow>
          if \<exists>r \<in> set (host_groups s). sg_ID r = u then
            (None, s\<lparr>host_groups := sql_delete (\<lambda>r. sg_ID r = u) (host_groups s),
                     host_group_members := sql_delete (\<lambda>m. fst m = u) (host_group_members s)\<rparr>)
          else (Some ErrGroupNotFound, s))"

definition dedupe :: "string list \<Rightarrow> string list" where
  "dedupe values =
     fold (\<lambda>value unique. let value = TrimSpace value in if value = [] \<or> value \<in> set unique then unique else unique @ [value]) values []"

text \<open>
  The transaction of \<open>SetMembers\<close>: an error after its beginning leaves the tables as they were.
  The insertion selects from the hosts, so it records as many rows as there are different hosts
  among the identifiers the list is cast to.
\<close>

definition SetMembers :: "group_env \<Rightarrow> string \<Rightarrow> string list \<Rightarrow> moment \<Rightarrow> group_store \<Rightarrow> group_error option \<times> group_store" where
  "SetMembers env gid hostIDs read s =
     (case GetGroup env gid s of
        Inl err \<Rightarrow> (Some err, s)
      | Inr g \<Rightarrow>
          if sg_Kind g \<noteq> KindStatic then (Some ErrNotStatic, s)
          else if MaxMembers < length hostIDs then (Some (InvalidGroup ErrInvalid), s)
          else
            let unique = dedupe hostIDs in
            if \<not> list_all (parses_uuid env) unique then (Some ErrUnknownHosts, s)
            else if \<not> (\<exists>r \<in> set (host_groups s). sg_ID r = sg_ID g \<and> sg_UpdatedAt r = read) then (Some ErrChanged, s)
            else if \<exists>h \<in> set unique. cast_uuid env h = None then (Some QueryFailed, s)
            else
              let chosen = filter (\<lambda>h. Some h \<in> cast_uuid env ` set unique) (known_hosts s) in
              if length chosen \<noteq> length unique then (Some ErrUnknownHosts, s)
              else (None, s\<lparr>host_groups := sql_update (\<lambda>r. sg_ID r = sg_ID g \<and> sg_UpdatedAt r = read)
                                (\<lambda>r. r\<lparr>sg_UpdatedAt := stmt_now env\<rparr>) (host_groups s),
                            host_group_members := sql_delete (\<lambda>m. fst m = sg_ID g) (host_group_members s)
                                @ map (Pair (sg_ID g)) chosen\<rparr>))"

definition MembersOf :: "string \<Rightarrow> group_store \<Rightarrow> string list" where
  "MembersOf gid s = sort (map snd (filter (\<lambda>m. fst m = gid) (host_group_members s)))"

section \<open>The invariant\<close>

definition groups_ok :: "group_store \<Rightarrow> bool" where
  "groups_ok s \<longleftrightarrow>
     distinct (map sg_ID (host_groups s)) \<and> distinct (map sg_Name (host_groups s))
     \<and> (\<forall>g \<in> set (host_groups s). sg_ID g \<noteq> [] \<and> Validate_group g = None)
     \<and> (\<forall>(gid, h) \<in> set (host_group_members s). \<exists>g \<in> set (host_groups s). sg_ID g = gid \<and> sg_Kind g = KindStatic)"

datatype group_op =
  OpCreate group_env SavedGroup
| OpUpdate group_env string SavedGroup moment
| OpDelete group_env string
| OpSetMembers group_env string "string list" moment

fun group_step :: "group_op \<Rightarrow> group_store \<Rightarrow> group_store" where
  "group_step (OpCreate env g) s = snd (CreateGroup env g s)"
| "group_step (OpUpdate env gid g read) s = snd (UpdateGroup env gid g read s)"
| "group_step (OpDelete env gid) s = snd (DeleteGroup env gid s)"
| "group_step (OpSetMembers env gid hostIDs read) s = snd (SetMembers env gid hostIDs read s)"

text \<open>What \<open>uuid.NewString\<close> promises: an identifier is not the empty text.\<close>

fun fresh_ok :: "group_op \<Rightarrow> bool" where
  "fresh_ok (OpCreate env g) = (fresh_id env \<noteq> [])"
| "fresh_ok _ = True"

definition group_start :: "group_store \<Rightarrow> bool" where
  "group_start s \<longleftrightarrow> host_groups s = [] \<and> host_group_members s = []"

definition group_move :: "group_store \<Rightarrow> group_store \<Rightarrow> bool" where
  "group_move s t \<longleftrightarrow> (\<exists>op. fresh_ok op \<and> t = group_step op s)"

lemma GetGroup_in: "GetGroup env ref s = Inr g \<Longrightarrow> g \<in> set (host_groups s)"
  by (auto simp: GetGroup_def Let_def split: if_splits option.splits dest: sql_get_SomeD)

lemma Validate_group_cong:
  "sg_Name g = sg_Name h \<Longrightarrow> sg_Description g = sg_Description h \<Longrightarrow> sg_Kind g = sg_Kind h \<Longrightarrow> sg_Selector g = sg_Selector h
     \<Longrightarrow> Validate_group g = Validate_group h"
  by (simp add: Validate_group_def)

lemma groups_ok_create:
  assumes "groups_ok s" "fresh_id env \<noteq> []"
  shows "groups_ok (snd (CreateGroup env g s))"
proof -
  let ?row = "g\<lparr>sg_ID := fresh_id env, sg_CreatedAt := stmt_now env, sg_UpdatedAt := stmt_now env\<rparr>"
  have "Validate_group ?row = Validate_group g" by (rule Validate_group_cong) simp_all
  then show ?thesis using assms by (auto simp: CreateGroup_def groups_ok_def Let_def split: option.splits)
qed

lemma groups_ok_delete: "groups_ok s \<Longrightarrow> groups_ok (snd (DeleteGroup env gid s))"
  by (auto simp: DeleteGroup_def groups_ok_def sql distinct_map_sql_delete split: option.splits)

text \<open>An update of rows that keeps identifiers and kinds, and leaves rows that validate under different names.\<close>

lemma groups_ok_change:
  assumes "groups_ok s" and "map sg_ID rows = map sg_ID (host_groups s)" and "distinct (map sg_Name rows)"
    and "\<forall>g \<in> set rows. Validate_group g = None" and "map sg_Kind rows = map sg_Kind (host_groups s)"
    and "\<forall>(gid, h) \<in> set ms. \<exists>g \<in> set (host_groups s). sg_ID g = gid \<and> sg_Kind g = KindStatic"
  shows "groups_ok (s\<lparr>host_groups := rows, host_group_members := ms\<rparr>)"
proof -
  have ids: "sg_ID ` set rows = sg_ID ` set (host_groups s)" using assms(2) by (metis list.set_map)
  have "map (\<lambda>g. (sg_ID g, sg_Kind g)) rows = map (\<lambda>g. (sg_ID g, sg_Kind g)) (host_groups s)"
    using assms(2,5) by (simp add: list_eq_iff_nth_eq)
  then have both: "(\<lambda>g. (sg_ID g, sg_Kind g)) ` set rows = (\<lambda>g. (sg_ID g, sg_Kind g)) ` set (host_groups s)"
    by (metis list.set_map)
  have "\<exists>g \<in> set rows. sg_ID g = gid \<and> sg_Kind g = KindStatic" if "(gid, h) \<in> set ms" for gid h
  proof -
    have "(gid, KindStatic) \<in> (\<lambda>g. (sg_ID g, sg_Kind g)) ` set (host_groups s)" using assms(6) that by force
    then show ?thesis unfolding both [symmetric] by auto
  qed
  moreover have "sg_ID g \<noteq> []" if "g \<in> set rows" for g
  proof -
    have "sg_ID g \<in> sg_ID ` set (host_groups s)" using that ids by blast
    then show ?thesis using assms(1) by (auto simp: groups_ok_def)
  qed
  moreover have "distinct (map sg_ID rows)" using assms(1,2) by (simp add: groups_ok_def)
  ultimately show ?thesis using assms(3,4) by (auto simp: groups_ok_def)
qed

lemma distinct_map_same: "distinct (map f xs) \<Longrightarrow> x \<in> set xs \<Longrightarrow> y \<in> set xs \<Longrightarrow> f x = f y \<Longrightarrow> x = y"
  by (auto simp: distinct_map inj_on_def)

text \<open>Renaming the one row with a key to a name no other row has.\<close>

lemma distinct_map_sql_update:
  assumes "distinct (map key rows)" "distinct (map name rows)" "\<And>r. P r \<Longrightarrow> key r = k \<and> name (f r) = v"
    and "\<forall>r \<in> set rows. name r = v \<longrightarrow> key r = k"
  shows "distinct (map name (sql_update P f rows))"
  using assms(1,2,4)
proof (induction rows)
  case (Cons r rows)
  have "name (if P r then f r else r) \<notin> name ` set (sql_update P f rows)"
  proof
    assume "name (if P r then f r else r) \<in> name ` set (sql_update P f rows)"
    then obtain x where x: "x \<in> set (sql_update P f rows)" "name (if P r then f r else r) = name x" by auto
    from x(1) show False
    proof (cases rule: in_sql_updateE)
      case 1
      then show ?thesis using x(2) Cons.prems assms(3) [of r] by (cases "P r") (auto simp: image_iff)
    next
      case (2 r0)
      then show ?thesis using x(2) Cons.prems assms(3) [of r0] assms(3) [of r] by (cases "P r") (auto simp: image_iff)
    qed
  qed
  then show ?case using Cons by simp
qed simp

lemma SetMembers_cases:
  assumes "SetMembers env gid hs read s = (err, s')"
  obtains "s' = s"
  | g chosen where "GetGroup env gid s = Inr g" "sg_Kind g = KindStatic"
      "s' = s\<lparr>host_groups := sql_update (\<lambda>r. sg_ID r = sg_ID g \<and> sg_UpdatedAt r = read) (\<lambda>r. r\<lparr>sg_UpdatedAt := stmt_now env\<rparr>) (host_groups s),
         host_group_members := sql_delete (\<lambda>m. fst m = sg_ID g) (host_group_members s) @ map (Pair (sg_ID g)) chosen\<rparr>"
proof (cases "GetGroup env gid s")
  case (Inr g)
  then show thesis using assms that(1) that(2) [OF Inr]
    by (simp add: SetMembers_def Let_def split: if_split_asm, blast)
qed (use assms that(1) in \<open>simp add: SetMembers_def\<close>)

lemma UpdateGroup_cases:
  assumes "UpdateGroup env gid g read s = (err, s')"
  obtains "s' = s"
  | current g' where "GetGroup env gid s = Inr current" "sg_Kind g' = sg_Kind current" "Validate_group g' = None"
      "\<exists>r \<in> set (host_groups s). sg_ID r = sg_ID current \<and> sg_UpdatedAt r = read"
      "\<forall>other \<in> set (host_groups s). sg_Name other = sg_Name g' \<longrightarrow> sg_ID other = sg_ID current"
      "s' = s\<lparr>host_groups := sql_update (\<lambda>r. sg_ID r = sg_ID current \<and> sg_UpdatedAt r = read)
         (\<lambda>r. r\<lparr>sg_Name := sg_Name g', sg_Description := sg_Description g', sg_Selector := sg_Selector g', sg_UpdatedAt := stmt_now env\<rparr>) (host_groups s)\<rparr>"
proof (cases "GetGroup env gid s")
  case (Inr current)
  let ?h = "g\<lparr>sg_Kind := sg_Kind current\<rparr>"
  let ?g = "if sg_Kind ?h = KindStatic then ?h\<lparr>sg_Selector := None\<rparr> else ?h"
  let ?free = "\<forall>other \<in> set (host_groups s). sg_Name other = sg_Name ?g \<longrightarrow> sg_ID other = sg_ID current"
  show thesis
  proof (cases "Validate_group ?g = None \<and> ?free \<and> (\<exists>r \<in> set (host_groups s). sg_ID r = sg_ID current \<and> sg_UpdatedAt r = read)")
    case True
    moreover have "sg_Kind ?g = sg_Kind current" by simp
    moreover have "s' = s\<lparr>host_groups := sql_update (\<lambda>r. sg_ID r = sg_ID current \<and> sg_UpdatedAt r = read)
         (\<lambda>r. r\<lparr>sg_Name := sg_Name ?g, sg_Description := sg_Description ?g, sg_Selector := sg_Selector ?g, sg_UpdatedAt := stmt_now env\<rparr>) (host_groups s)\<rparr>"
      using True assms Inr unfolding UpdateGroup_def Let_def sum.case by (auto simp del: facts.simps)
    ultimately show thesis using that(2) [OF Inr] by blast
  next
    case False
    then have "s' = s" using assms Inr by (auto simp: UpdateGroup_def Let_def split: option.splits if_split_asm)
    then show thesis by (rule that(1))
  qed
qed (use assms that(1) in \<open>simp add: UpdateGroup_def\<close>)

lemma groups_ok_members:
  assumes ok: "groups_ok s"
  shows "groups_ok (snd (SetMembers env gid hs read s))"
proof -
  obtain err s' where e: "SetMembers env gid hs read s = (err, s')" by (cases "SetMembers env gid hs read s") auto
  show ?thesis
  proof (cases rule: SetMembers_cases [OF e])
    case 1
    then show ?thesis using ok e by simp
  next
    case (2 g chosen)
    have v: "Validate_group (r\<lparr>sg_UpdatedAt := n\<rparr>) = Validate_group r" for r n by (rule Validate_group_cong) simp_all
    have "\<forall>(gid, h) \<in> set (sql_delete (\<lambda>m. fst m = sg_ID g) (host_group_members s) @ map (Pair (sg_ID g)) chosen).
        \<exists>r \<in> set (host_groups s). sg_ID r = gid \<and> sg_Kind r = KindStatic"
      using ok 2 GetGroup_in [OF 2(1)] by (auto simp: groups_ok_def sql)
    moreover have "\<forall>r \<in> set (sql_update (\<lambda>r. sg_ID r = sg_ID g \<and> sg_UpdatedAt r = read) (\<lambda>r. r\<lparr>sg_UpdatedAt := stmt_now env\<rparr>) (host_groups s)). Validate_group r = None"
      using ok v by (auto simp: groups_ok_def sql)
    ultimately show ?thesis
      unfolding e snd_conv 2(3) using ok by (intro groups_ok_change) (simp_all add: map_sql_update groups_ok_def)
  qed
qed

lemma groups_ok_update:
  assumes ok: "groups_ok s"
  shows "groups_ok (snd (UpdateGroup env gid g read s))"
proof -
  obtain err s' where e: "UpdateGroup env gid g read s = (err, s')" by (cases "UpdateGroup env gid g read s") auto
  show ?thesis
  proof (cases rule: UpdateGroup_cases [OF e])
    case 1
    then show ?thesis using ok e by simp
  next
    case (2 current g')
    let ?f = "\<lambda>r. r\<lparr>sg_Name := sg_Name g', sg_Description := sg_Description g', sg_Selector := sg_Selector g', sg_UpdatedAt := stmt_now env\<rparr>"
    let ?hit = "\<lambda>r. sg_ID r = sg_ID current \<and> sg_UpdatedAt r = read"
    have ids: "distinct (map sg_ID (host_groups s))" and names: "distinct (map sg_Name (host_groups s))"
      using ok by (simp_all add: groups_ok_def)
    have kind: "sg_Kind r = sg_Kind g'" if "r \<in> set (host_groups s)" "sg_ID r = sg_ID current" for r
      using that GetGroup_in [OF 2(1)] ids 2(2) by (auto dest: distinct_map_same)
    have "Validate_group (?f r) = None" if "r \<in> set (host_groups s)" "sg_ID r = sg_ID current" for r
      using Validate_group_cong [of "?f r" g'] kind [OF that] 2(3) by simp
    then have "\<forall>r \<in> set (sql_update ?hit ?f (host_groups s)). Validate_group r = None"
      using ok by (auto simp: groups_ok_def sql)
    moreover have "distinct (map sg_Name (sql_update ?hit ?f (host_groups s)))"
      by (rule distinct_map_sql_update [OF ids names]) (use 2(5) in auto)
    ultimately have "groups_ok (s\<lparr>host_groups := sql_update ?hit ?f (host_groups s), host_group_members := host_group_members s\<rparr>)"
      using ok by (intro groups_ok_change) (simp_all add: map_sql_update groups_ok_def)
    then show ?thesis unfolding e snd_conv 2(6) by simp
  qed
qed

interpretation groupsys: invariant_system group_start group_move groups_ok
proof
  show "groups_ok s" if "group_start s" for s using that by (simp add: group_start_def groups_ok_def)
next
  fix s t
  assume ok: "groups_ok s" and "group_move s t"
  then obtain op where op: "fresh_ok op" "t = group_step op s" by (auto simp: group_move_def)
  then show "groups_ok t"
    using ok groups_ok_create groups_ok_update groups_ok_delete groups_ok_members by (cases op) auto
qed

text \<open>A lookup in a reachable store answers only groups the expansion can rely on.\<close>

lemma valid_group_selector: "Validate_group g = None \<Longrightarrow> sg_Selector g = Some e \<Longrightarrow> Validate_selector (Some e) = None"
  by (auto simp: Validate_group_def split: if_splits)

lemma LookupGroup_found:
  "LookupGroup env s ref = Inr (Some g) \<Longrightarrow>
     \<exists>row \<in> set (host_groups s). g = \<lparr>g_ID = sg_ID row, g_Name = sg_Name row, g_Kind = sg_Kind row, g_Selector = sg_Selector row\<rparr>"
  by (cases "GetGroup env ref s") (auto simp: LookupGroup_def split: group_error.splits dest: GetGroup_in)

lemma store_sound_groups:
  assumes "groups_ok s"
  shows "sound_groups (LookupGroup env s)"
  unfolding sound_groups_def
proof (intro allI impI)
  fix ref g
  assume "LookupGroup env s ref = Inr (Some g)"
  then obtain row where row: "row \<in> set (host_groups s)" "g_ID g = sg_ID row" "g_Selector g = sg_Selector row"
    using LookupGroup_found by fastforce
  then have "sg_ID row \<noteq> []" "Validate_group row = None" using assms by (simp_all add: groups_ok_def)
  then show "g_ID g \<noteq> [] \<and> (\<forall>e. g_Selector g = Some e \<longrightarrow> well_formed False e)"
    using valid_group_selector [of row] by (simp add: row(2,3) Validate_iff)
qed

end
