(* ===== verification/Selector_Properties.thy ===== *)
theory Selector_Properties
  imports Selector_Parsing Selector_Store
begin

text \<open>
  The properties of selectors, from the text an operator types to the condition the database
  evaluates, over every state the store of saved groups can reach.
\<close>

section \<open>Samples\<close>

definition sample_group_env :: group_env where
  "sample_group_env = \<lparr>parses_uuid = (\<lambda>_. False), cast_uuid = (\<lambda>_. None), fresh_id = ''1'', stmt_now = 7\<rparr>"

definition sample_group :: SavedGroup where
  "sample_group = \<lparr>sg_ID = [], sg_Name = ''g'', sg_Description = [], sg_Kind = KindStatic, sg_Selector = None,
     sg_CreatedBy = ''o'', sg_CreatedAt = 0, sg_UpdatedAt = 0\<rparr>"

definition no_groups :: group_store where
  "no_groups = \<lparr>host_groups = [], host_group_members = [], known_hosts = []\<rparr>"

definition one_group :: group_store where
  "one_group = group_step (OpCreate sample_group_env sample_group) no_groups"

lemma one_group_reached: "group_start no_groups" "group_move\<^sup>*\<^sup>* no_groups one_group"
proof -
  show "group_start no_groups" by (simp add: group_start_def no_groups_def)
  have "fresh_ok (OpCreate sample_group_env sample_group)" by (simp add: sample_group_env_def)
  then have "group_move no_groups one_group" unfolding group_move_def one_group_def by blast
  then show "group_move\<^sup>*\<^sup>* no_groups one_group" by blast
qed

lemma one_group_rows: "row \<in> set (host_groups one_group) \<Longrightarrow> sg_Kind row = KindStatic"
proof -
  have "map sg_Kind (host_groups one_group) = [KindStatic]" by code_simp
  then show "row \<in> set (host_groups one_group) \<Longrightarrow> sg_Kind row = KindStatic" by auto
qed

lemma sample_bytes:
  "byte_of 103 = CHR ''g''" "byte_of 114 = CHR ''r''" "byte_of 111 = CHR ''o''" "byte_of 117 = CHR ''u''" "byte_of 112 = CHR ''p''" "byte_of 61 = CHR ''=''"
  by (simp_all add: char_of_def bit_0)

lemma sample_tokens:
  "tokenize ''group=g'' = Inr ([mk_token tokenWord ''group'' 0, mk_token tokenOperator ''='' 5, mk_token tokenWord ''g'' 6] @ [mk_token tokenEnd [] 7])"
  by (simp add: tokenize_def runes_of.simps DecodeRune.simps tokenize_from.simps IsSpace_def word_rune_def isKeyRune_def
      operatorRune_def string_of_def encode_rune_def isKeyWord_def keyByName_def ToLower_def byte_in_def code_le_iff Keys_def plain_key_def
      mk_token_def sample_bytes)

lemma parse_sample: "Parse ''group=g'' = Some (Inr (leaf_node ''group'' ''g''))"
proof -
  have key: "keyByName (ToLower ''group'') = Some (plain_key ''group'')"
    by (simp add: keyByName_def ToLower_def byte_in_def code_le_iff Keys_def plain_key_def)
  have "g_primary [mk_token tokenWord ''group'' 0, mk_token tokenOperator ''='' 5, mk_token tokenWord ''g'' 6]
      (leaf_node (k_Name (plain_key ''group'')) (t_text (mk_token tokenWord ''g'' 6)))"
    by (rule equal) (simp_all add: mk_token_def key)
  then have "g_or [mk_token tokenWord ''group'' 0, mk_token tokenOperator ''='' 5, mk_token tokenWord ''g'' 6] (leaf_node ''group'' ''g'')"
    by (intro or_one and_one not_primary) (simp add: plain_key_def mk_token_def)
  moreover have "Validate_selector (Some (leaf_node ''group'' ''g'')) = None" by code_simp
  ultimately show ?thesis unfolding Parse_iff using sample_tokens by blast
qed

lemma expand_sample: "Expand (Some (leaf_node ''group'' ''g'')) (Some (LookupGroup sample_group_env one_group)) = Inr (member_of ''1'')"
  by code_simp

section \<open>The properties\<close>

lemma leaf_args_le: "length (leaf_args f) \<le> 1"
  by (auto simp: leaf_args_def split: option.splits sum.splits)

lemma args_le_nodes: "length (args_of e) \<le> count_nodes e"
proof (induction e rule: args_of.induct)
  case (1 al an nt f)
  have sums: "length (concat (map args_of es)) \<le> sum_list (map count_nodes es)"
    if "\<And>x. x \<in> set es \<Longrightarrow> length (args_of x) \<le> count_nodes x" for es
    using that by (simp add: length_concat sum_list_mono)
  show ?case
    using sums [of al] sums [of an] 1 leaf_args_le [of f] by (cases "al = []"; cases "an = []"; cases nt) (auto intro: le_SucI trans_le_add1 trans_le_add2)
qed

lemma reachable_groups: "group_start s0 \<Longrightarrow> group_move\<^sup>*\<^sup>* s0 s \<Longrightarrow> groups_ok s"
  by (rule groupsys.inv_reachable)

lemma Parse_valid: "Parse text = Some (Inr e) \<Longrightarrow> Validate_selector (Some e) = None"
  unfolding Parse_iff by blast

text \<open>
  C10: A text that parses, expanded over any state the store of groups can reach, compiles: the
  expansion leaves nothing the compiler refuses, and the arguments are the values of its leaves in
  order, no more than the bound on the size of a selector.
\<close>

theorem parsed_selector_compiles:
  assumes "group_start s0" and "group_move\<^sup>*\<^sup>* s0 s" and "Parse text = Some (Inr e)"
    and "Expand (Some e) (Some (LookupGroup env s)) = Inr e'"
  shows "\<exists>sql. Compile is_uuid (Some e') off = Inr (sql, args_of e') \<and> length (args_of e') \<le> MaxNodes"
proof -
  note sound = Expand_sound [OF Parse_valid [OF assms(3)] store_sound_groups [OF reachable_groups [OF assms(1,2)]] assms(4)]
  obtain sql where "compile_node is_uuid off [] e' = Inr (sql, [] @ args_of e')" using compile_node_total sound by blast
  then show ?thesis using args_le_nodes [of e'] sound by (simp add: Compile_def)
qed

theorem parsed_selector_compiles_witness:
  "\<exists>sql. Compile (\<lambda>_. False) (Some (member_of ''1'')) 2 = Inr (sql, args_of (member_of ''1''))
     \<and> length (args_of (member_of ''1'')) \<le> MaxNodes"
  using parsed_selector_compiles [OF one_group_reached parse_sample expand_sample] .

text \<open>
  C11: No value a client chooses becomes part of the text of a condition: two validated selectors
  that differ only in their values compile to the same text and to as many arguments.
\<close>

theorem values_stay_out_of_the_text:
  assumes "group_start s0" and "group_move\<^sup>*\<^sup>* s0 s"
    and "Validate_selector (Some e1) = None" and "Expand (Some e1) (Some (LookupGroup env s)) = Inr x1"
    and "Validate_selector (Some e2) = None" and "Expand (Some e2) (Some (LookupGroup env s)) = Inr x2"
    and "skeleton is_uuid x1 = skeleton is_uuid x2"
  shows "\<exists>sql args1 args2. Compile is_uuid (Some x1) off = Inr (sql, args1) \<and> Compile is_uuid (Some x2) off = Inr (sql, args2)
    \<and> length args1 = length args2"
proof -
  note groups = store_sound_groups [OF reachable_groups [OF assms(1,2)]]
  note wf = Expand_sound [OF assms(3) groups assms(4), THEN conjunct1] Expand_sound [OF assms(5) groups assms(6), THEN conjunct1]
  obtain t1 t2 where t: "compile_node is_uuid off [] x1 = Inr (t1, [] @ args_of x1)" "compile_node is_uuid off [] x2 = Inr (t2, [] @ args_of x2)"
    using compile_node_total wf by blast
  have "same_text (compile_node is_uuid off [] x1) (compile_node is_uuid off [] x2)"
    using assms(7) wf by (rule compile_node_skeleton) simp
  then show ?thesis using t by (simp add: same_text_def Compile_def)
qed

theorem values_stay_out_of_the_text_witness:
  "\<exists>sql args1 args2. Compile (\<lambda>_. False) (Some (leaf_node ''site'' ''a'')) 0 = Inr (sql, args1)
     \<and> Compile (\<lambda>_. False) (Some (leaf_node ''site'' ''or 1=1'')) 0 = Inr (sql, args2) \<and> length args1 = length args2"
proof -
  have "Validate_selector (Some (leaf_node ''site'' ''a'')) = None" "Validate_selector (Some (leaf_node ''site'' ''or 1=1'')) = None" by code_simp+
  moreover have "Expand (Some (leaf_node ''site'' ''a'')) (Some (LookupGroup sample_group_env one_group)) = Inr (leaf_node ''site'' ''a'')"
    "Expand (Some (leaf_node ''site'' ''or 1=1'')) (Some (LookupGroup sample_group_env one_group)) = Inr (leaf_node ''site'' ''or 1=1'')" by code_simp+
  moreover have "skeleton (\<lambda>_. False) (leaf_node ''site'' ''a'') = skeleton (\<lambda>_. False) (leaf_node ''site'' ''or 1=1'')" by code_simp
  ultimately show ?thesis
    using values_stay_out_of_the_text [OF one_group_reached, of "leaf_node ''site'' ''a''" sample_group_env "leaf_node ''site'' ''a''"
        "leaf_node ''site'' ''or 1=1''" "leaf_node ''site'' ''or 1=1''" "\<lambda>_. False" 0] by blast
qed

text \<open>
  C12: The expansion of group references keeps the meaning of a selector for every host, in the
  three-valued logic of the database: a host matches the expanded selector exactly when it matches
  the selector with the groups as they are saved.
\<close>

theorem expansion_keeps_the_meaning:
  assumes "group_start s0" and "group_move\<^sup>*\<^sup>* s0 s" and "Validate_selector (Some e) = None"
    and "Expand (Some e) (Some (LookupGroup env s)) = Inr e'" and "coherent host (LookupGroup env s)"
  shows "meaning host e' = meaning host e"
  using Expand_meaning [OF assms(3) store_sound_groups [OF reachable_groups [OF assms(1,2)]] assms(5,4)] .

theorem expansion_keeps_the_meaning_witness:
  "meaning (\<lambda>_ _. Some True) (member_of ''1'') = meaning (\<lambda>_ _. Some True) (leaf_node ''group'' ''g'')"
proof -
  have "coherent (\<lambda>_ _. Some True) (LookupGroup sample_group_env one_group)"
    using LookupGroup_found [of sample_group_env one_group] one_group_rows
    by (fastforce simp: coherent_def KindStatic_def KindDynamic_def)
  moreover have "Validate_selector (Some (leaf_node ''group'' ''g'')) = None" by code_simp
  ultimately show ?thesis using expansion_keeps_the_meaning [OF one_group_reached _ expand_sample] by blast
qed

text \<open>
  C14: The parser of the text form accepts exactly the texts whose tokens the grammar derives and
  whose expression validates, and answers the derived expression.
\<close>

theorem parser_accepts_the_grammar:
  "Parse text = Some (Inr e)
     \<longleftrightarrow> (\<exists>ts j. tokenize text = Inr (ts @ [mk_token tokenEnd [] j]) \<and> g_or ts e \<and> Validate_selector (Some e) = None)"
  by (rule Parse_iff)

text \<open>
  C15: The parser ends on every text: four units of fuel for a token are enough for the mutual
  recursion on any list of tokens, and more fuel never changes the answer.
\<close>

theorem parser_ends:
  "(\<exists>r. Parse text = Some r) \<and> (\<exists>r. \<forall>k. p_or (parse_fuel ts + k) ts = Some r)"
proof -
  obtain r where "p_or (parse_fuel ts) ts = Some r" using parser_returns(1) [of ts "parse_fuel ts"] by (auto simp: parse_fuel_def)
  then have "\<forall>k. p_or (parse_fuel ts + k) ts = Some r" using p_or_fuel by blast
  then show ?thesis using Parse_returns [of "text"] by blast
qed

end
