(* ===== verification/Authz_Roles.thy ===== *)
theory Authz_Roles
  imports Go_Strings
begin

text \<open>
  The permissions of the product and its built-in roles (\<open>src/internal/authz/model.go\<close>), each
  permission by the text its constant stands for.
\<close>

section \<open>Permissions and roles\<close>

definition PermPrincipalManage :: string where "PermPrincipalManage = ''principal.manage''"

definition PermTeamBindingWrite :: string where "PermTeamBindingWrite = ''team.binding.write''"

definition allPermissions :: "string list" where
  "allPermissions =
     [''host.read'', ''inventory.read'', ''inventory.refresh'', ''audit.read'', ''job.read'', ''job.create'',
      ''job.approve'', ''job.cancel'', ''host.enroll.create'', ''host.enroll.read'', ''host.enroll.revoke'',
      ''host.enroll.batch'', ''relay.enroll.create'', ''relay.manage'', ''host.identity.replace'',
      ''host.quarantine'', ''host.quarantine.release'', ''host.decommission'', ''principal.manage'',
      ''host.scope.write'', ''team.binding.write'', ''unit.start'', ''unit.stop'', ''unit.restart'', ''unit.reload'',
      ''journal.read'', ''packages.plan'', ''packages.upgrade'', ''agent.upgrade'', ''packages.repair'',
      ''system.reboot'', ''unit.status'', ''unit.enable.write'', ''unit.mask.write'', ''unit.reset_failed'',
      ''logfile.read'', ''journal.follow'', ''process.read'', ''process.signal'', ''packages.read'',
      ''packages.install'', ''packages.remove'', ''packages.hold.write'', ''packages.repository.write'',
      ''schedule.write'', ''schedule.disable'', ''schedule.remove'', ''schedule.run'', ''schedule.preview'',
      ''schedule.root.exec'', ''file.write.unvalidated'', ''network.read'', ''network.write'',
      ''network.route.write'', ''network.mtu.write'', ''network.rollback'', ''network.link.write'',
      ''network.link.remove'', ''dns.read'', ''dns.plan'', ''dns.host.write'', ''dns.directory.write'',
      ''firewall.read'', ''firewall.write'', ''firewall.rule.remove'', ''firewall.zone.write'',
      ''firewall.service.write'', ''firewall.restore'', ''storage.read'', ''storage.mount.write'',
      ''storage.mount.remove'', ''storage.fsck'', ''storage.smart.read'', ''storage.lvm.write'',
      ''storage.filesystem.write'', ''storage.destructive'', ''storage.wipe'', ''storage.raid.fail'',
      ''storage.raid.remove'', ''storage.raid.add'', ''storage.lvm.volume.create'', ''storage.lvm.volume.remove'',
      ''storage.lvm.group.extend'', ''storage.lvm.snapshot.create'', ''storage.lvm.snapshot.remove'', ''ssh.read'',
      ''ssh.config.write'', ''ssh.hostkey.rotate'', ''security.read'', ''security.scan'', ''security.remediate'',
      ''security.mac.write'', ''security.audit.reload'', ''backup.read'', ''backup.run'', ''backup.verify'',
      ''backup.restore'', ''vulnerability.read'', ''monitoring.read'', ''monitoring.probe'',
      ''monitoring.silence.write'', ''monitoring.rules.write'', ''notification.read'', ''notification.manage'',
      ''host.maintenance.write'', ''host.tag.write'', ''host.group.write'', ''system.shutdown'',
      ''system.hostname.write'', ''time.read'', ''time.plan'', ''time.write'', ''time.timezone.write'',
      ''kernel.read'', ''kernel.module.plan'', ''kernel.sysctl.write'', ''kernel.module.write'',
      ''kernel.module.blacklist'', ''file.read'', ''file.plan'', ''file.write'', ''file.remove'', ''file.rollback'',
      ''docker.read'', ''docker.events'', ''docker.container.logs'', ''docker.container.start'',
      ''docker.container.stop'', ''docker.container.restart'', ''docker.container.remove'', ''docker.image.pull'',
      ''docker.prune'', ''docker.plan'', ''docker.container.ensure'', ''docker.network.ensure'',
      ''docker.network.remove'', ''docker.volume.ensure'', ''docker.volume.remove'', ''docker.compose.plan'',
      ''docker.compose.deploy'', ''campaign.read'', ''campaign.create'', ''campaign.approve'', ''campaign.control'',
      ''budget.read'', ''budget.write'', ''policy.read'', ''policy.write'', ''policy.publish'',
      ''policy.remediate.auto'', ''identity.read'', ''identity.policy.read'', ''identity.user.write'',
      ''identity.group.write'', ''identity.policy.write'', ''identity.host.enroll'', ''identity.host.leave'',
      ''identity.keytab.rotate'', ''localuser.read'', ''localuser.create'', ''localuser.lock'', ''localuser.unlock'',
      ''localuser.sshkeys.write'', ''localuser.sshkeys.add'', ''localuser.sshkeys.remove'',
      ''localuser.sshkeys.replace'', ''accounts.privileged_groups'', ''localuser.groups.write'',
      ''localuser.expiry.write'', ''localuser.delete'', ''metrics.read'', ''secret.read'', ''secret.write'',
      ''secret.destroy'', ''certificate.plan'', ''certificate.read'', ''certificate.watch'', ''certificate.deploy'',
      ''certificate.trust.plan'', ''certificate.trust.write'', ''certificate.trust.remove'', ''certificate.renew'',
      ''pki.read'', ''pki.rotate'', ''settings.read'', ''settings.advertise.write'', ''settings.layout.write'',
      ''support.bundle.create'', ''support.bundle.read'']"

definition viewer_permissions :: "string list" where
  "viewer_permissions =
     [''host.read'', ''inventory.read'', ''job.read'', ''campaign.read'', ''unit.status'', ''identity.read'',
      ''localuser.read'', ''docker.read'', ''docker.events'', ''process.read'', ''network.read'', ''dns.read'',
      ''dns.plan'', ''firewall.read'', ''storage.read'', ''storage.smart.read'', ''ssh.read'', ''kernel.read'',
      ''kernel.module.plan'', ''time.read'', ''time.plan'', ''security.read'', ''file.plan'', ''certificate.read'',
      ''certificate.plan'', ''certificate.trust.plan'', ''backup.read'', ''monitoring.read'', ''packages.read'',
      ''vulnerability.read'', ''policy.read'']"

definition auditor_permissions :: "string list" where
  "auditor_permissions =
     [''host.read'', ''inventory.read'', ''job.read'', ''audit.read'', ''campaign.read'', ''identity.read'',
      ''identity.policy.read'', ''localuser.read'', ''docker.read'', ''docker.events'', ''metrics.read'',
      ''pki.read'', ''security.read'', ''security.scan'', ''certificate.read'', ''certificate.plan'',
      ''certificate.trust.plan'', ''backup.read'', ''monitoring.read'', ''packages.read'', ''vulnerability.read'',
      ''secret.read'', ''policy.read'']"

definition operator_permissions :: "string list" where
  "operator_permissions =
     [''host.read'', ''inventory.read'', ''job.read'', ''inventory.refresh'', ''job.create'', ''job.cancel'',
      ''unit.start'', ''unit.stop'', ''unit.restart'', ''unit.reload'', ''unit.reset_failed'', ''journal.read'',
      ''docker.read'', ''docker.events'', ''docker.container.logs'', ''docker.container.start'',
      ''docker.container.stop'', ''docker.container.restart'', ''docker.image.pull'', ''docker.compose.plan'',
      ''docker.plan'', ''packages.plan'', ''packages.read'', ''campaign.read'', ''campaign.create'',
      ''campaign.control'', ''policy.read'', ''policy.write'', ''host.maintenance.write'', ''host.tag.write'',
      ''host.group.write'', ''host.enroll.create'', ''host.enroll.read'', ''host.enroll.revoke'', ''localuser.read'',
      ''localuser.groups.write'', ''localuser.expiry.write'', ''network.read'', ''dns.read'', ''dns.plan'',
      ''firewall.read'', ''storage.read'', ''storage.smart.read'', ''ssh.read'', ''kernel.read'',
      ''kernel.module.plan'', ''time.read'', ''time.plan'', ''security.read'', ''security.scan'', ''file.plan'',
      ''vulnerability.read'', ''certificate.read'', ''certificate.plan'', ''certificate.trust.plan'',
      ''certificate.watch'', ''backup.read'', ''backup.run'', ''backup.verify'', ''monitoring.read'',
      ''monitoring.probe'', ''monitoring.silence.write'', ''notification.read'']"

definition approver_permissions :: "string list" where
  "approver_permissions =
     [''host.read'', ''inventory.read'', ''job.read'', ''audit.read'', ''job.approve'', ''campaign.read'',
      ''campaign.approve'', ''identity.read'', ''identity.policy.read'', ''localuser.read'', ''policy.read'',
      ''policy.publish'']"

definition identity_admin_permissions :: "string list" where
  "identity_admin_permissions =
     [''host.read'', ''inventory.read'', ''job.read'', ''campaign.read'', ''identity.read'',
      ''identity.policy.read'', ''identity.user.write'', ''identity.group.write'', ''identity.policy.write'',
      ''identity.host.enroll'', ''identity.host.leave'', ''identity.keytab.rotate'', ''dns.directory.write'',
      ''unit.status'', ''localuser.read'', ''localuser.create'', ''localuser.lock'', ''localuser.unlock'',
      ''localuser.sshkeys.write'', ''localuser.sshkeys.add'', ''localuser.sshkeys.remove'',
      ''localuser.sshkeys.replace'', ''notification.read'', ''schedule.root.exec'']"

definition platform_admin_permissions :: "string list" where
  "platform_admin_permissions =
     [''host.read'', ''inventory.read'', ''inventory.refresh'', ''job.read'', ''audit.read'', ''job.create'',
      ''job.approve'', ''job.cancel'', ''unit.start'', ''unit.stop'', ''unit.restart'', ''unit.reload'',
      ''unit.reset_failed'', ''journal.read'', ''docker.read'', ''docker.events'', ''docker.container.logs'',
      ''docker.container.start'', ''docker.container.stop'', ''docker.container.restart'', ''docker.image.pull'',
      ''docker.container.remove'', ''docker.prune'', ''docker.plan'', ''docker.container.ensure'',
      ''docker.network.ensure'', ''docker.network.remove'', ''docker.volume.ensure'', ''docker.volume.remove'',
      ''docker.compose.plan'', ''docker.compose.deploy'', ''unit.status'', ''unit.enable.write'',
      ''unit.mask.write'', ''journal.follow'', ''logfile.read'', ''process.read'', ''process.signal'',
      ''packages.install'', ''packages.remove'', ''packages.hold.write'', ''packages.repository.write'',
      ''schedule.write'', ''schedule.disable'', ''schedule.remove'', ''schedule.run'', ''schedule.preview'',
      ''schedule.root.exec'', ''file.write.unvalidated'', ''network.read'', ''network.write'',
      ''network.route.write'', ''network.mtu.write'', ''network.rollback'', ''network.link.write'',
      ''network.link.remove'', ''dns.read'', ''dns.plan'', ''dns.host.write'', ''firewall.read'', ''firewall.write'',
      ''firewall.rule.remove'', ''firewall.zone.write'', ''firewall.service.write'', ''firewall.restore'',
      ''storage.read'', ''storage.smart.read'', ''storage.mount.write'', ''storage.mount.remove'', ''storage.fsck'',
      ''storage.lvm.write'', ''storage.filesystem.write'', ''storage.destructive'', ''storage.wipe'',
      ''storage.raid.fail'', ''storage.raid.remove'', ''storage.raid.add'', ''storage.lvm.volume.create'',
      ''storage.lvm.volume.remove'', ''storage.lvm.group.extend'', ''storage.lvm.snapshot.create'',
      ''storage.lvm.snapshot.remove'', ''ssh.read'', ''ssh.config.write'', ''ssh.hostkey.rotate'', ''kernel.read'',
      ''kernel.module.plan'', ''kernel.sysctl.write'', ''kernel.module.write'', ''kernel.module.blacklist'',
      ''time.read'', ''time.plan'', ''time.write'', ''time.timezone.write'', ''security.read'', ''security.scan'',
      ''security.remediate'', ''security.mac.write'', ''security.audit.reload'', ''file.read'', ''file.plan'',
      ''file.write'', ''file.remove'', ''file.rollback'', ''packages.plan'', ''packages.read'', ''packages.upgrade'',
      ''packages.repair'', ''agent.upgrade'', ''system.reboot'', ''system.shutdown'', ''system.hostname.write'',
      ''host.maintenance.write'', ''host.tag.write'', ''host.group.write'', ''campaign.read'', ''campaign.create'',
      ''campaign.approve'', ''campaign.control'', ''budget.read'', ''budget.write'', ''policy.read'',
      ''policy.write'', ''policy.publish'', ''policy.remediate.auto'', ''identity.read'', ''identity.policy.read'',
      ''identity.user.write'', ''identity.group.write'', ''identity.policy.write'', ''identity.host.enroll'',
      ''identity.host.leave'', ''identity.keytab.rotate'', ''dns.directory.write'', ''host.enroll.create'',
      ''host.enroll.read'', ''host.enroll.revoke'', ''host.enroll.batch'', ''relay.enroll.create'', ''relay.manage'',
      ''host.identity.replace'', ''host.quarantine'', ''host.quarantine.release'', ''host.decommission'',
      ''principal.manage'', ''host.scope.write'', ''team.binding.write'', ''localuser.read'', ''localuser.create'',
      ''localuser.lock'', ''localuser.unlock'', ''localuser.sshkeys.write'', ''localuser.groups.write'',
      ''localuser.sshkeys.add'', ''localuser.sshkeys.remove'', ''localuser.sshkeys.replace'',
      ''accounts.privileged_groups'', ''localuser.expiry.write'', ''localuser.delete'', ''metrics.read'',
      ''pki.read'', ''pki.rotate'', ''secret.read'', ''secret.write'', ''secret.destroy'', ''certificate.read'',
      ''certificate.plan'', ''certificate.trust.plan'', ''certificate.watch'', ''certificate.deploy'',
      ''certificate.renew'', ''certificate.trust.write'', ''certificate.trust.remove'', ''backup.read'',
      ''backup.run'', ''backup.verify'', ''backup.restore'', ''monitoring.read'', ''monitoring.probe'',
      ''monitoring.silence.write'', ''monitoring.rules.write'', ''notification.read'', ''notification.manage'',
      ''vulnerability.read'', ''settings.read'', ''settings.advertise.write'', ''settings.layout.write'',
      ''support.bundle.create'', ''support.bundle.read'']"

definition rolePermissions :: "(string \<times> string list) list" where
  "rolePermissions =
     [(''viewer'', viewer_permissions),
      (''auditor'', auditor_permissions),
      (''operator'', operator_permissions),
      (''approver'', approver_permissions),
      (''identity_admin'', identity_admin_permissions),
      (''platform_admin'', platform_admin_permissions)]"

definition KnownPermission :: "string \<Rightarrow> bool" where
  "KnownPermission permission = (permission \<in> set allPermissions)"

definition AllPermissions :: "string list" where
  "AllPermissions = sort allPermissions"

definition BuiltIn :: "string \<Rightarrow> bool" where
  "BuiltIn role = (map_of rolePermissions role \<noteq> None)"

definition KnownRole :: "string \<Rightarrow> bool" where
  "KnownRole role = BuiltIn role"

definition permissions_of_role :: "string \<Rightarrow> string list" where
  "permissions_of_role role = (case map_of rolePermissions role of None \<Rightarrow> [] | Some ps \<Rightarrow> ps)"

definition Permissions_of_role :: "string \<Rightarrow> string list" where
  "Permissions_of_role role = sort (permissions_of_role role)"

definition Has :: "string \<Rightarrow> string \<Rightarrow> bool" where
  "Has role permission = (permission \<in> set (permissions_of_role role))"

definition AllRoles :: "string list" where
  "AllRoles = sort (map fst rolePermissions)"

end
