(* ===== verification/Authz.thy ===== *)
theory Authz
  imports Authz_Roles
begin

text \<open>
  Scopes, bindings and decisions (\<open>src/internal/authz/model.go\<close>, \<open>http.go\<close>), and the condition of
  SQL that narrows a query to the scopes of an identity. A category a scope leaves out matches
  nothing; an asterisk matches anything. The moment \<open>time.Now()\<close> answers is an argument.
\<close>

section \<open>Scopes\<close>

record Scope =
  sc_Site :: string
  sc_Environment :: string
  sc_Team :: string
  sc_TeamAny :: bool
  sc_Owners :: "string list"
  sc_Tags :: "string list"

definition Wildcard :: string where "Wildcard = ''*''"

text \<open>A nil list is \<^const>\<open>None\<close>: it is told from an empty one here and nowhere else.\<close>

definition PlacementWithin :: "string \<Rightarrow> string \<Rightarrow> string list option \<Rightarrow> string list option \<Rightarrow> Scope" where
  "PlacementWithin site environment owners tags =
     \<lparr>sc_Site = site, sc_Environment = environment, sc_Team = [], sc_TeamAny = True,
      sc_Owners = (case owners of None \<Rightarrow> [Wildcard] | Some os \<Rightarrow> os),
      sc_Tags = (case tags of None \<Rightarrow> [Wildcard] | Some ts \<Rightarrow> ts)\<rparr>"

definition Placement :: "string \<Rightarrow> string \<Rightarrow> Scope" where
  "Placement site environment = PlacementWithin site environment None None"

definition orWildcardList :: "string list option \<Rightarrow> string list" where
  "orWildcardList values =
     (case values of None \<Rightarrow> [Wildcard] | Some vs \<Rightarrow> filter (\<lambda>v. v \<noteq> []) (map TrimSpace vs))"

definition OfTeam :: "string \<Rightarrow> Scope" where
  "OfTeam team = \<lparr>sc_Site = Wildcard, sc_Environment = Wildcard, sc_Team = team, sc_TeamAny = False,
     sc_Owners = [Wildcard], sc_Tags = [Wildcard]\<rparr>"

definition TargetOf :: "string \<Rightarrow> string \<Rightarrow> string \<Rightarrow> string \<Rightarrow> string list \<Rightarrow> Scope" where
  "TargetOf site environment team owner tags =
     \<lparr>sc_Site = site, sc_Environment = environment, sc_Team = team, sc_TeamAny = False,
      sc_Owners = (if owner \<noteq> [] then [owner] else []), sc_Tags = tags\<rparr>"

definition GlobalScope :: Scope where
  "GlobalScope = \<lparr>sc_Site = Wildcard, sc_Environment = Wildcard, sc_Team = [], sc_TeamAny = True,
     sc_Owners = [Wildcard], sc_Tags = [Wildcard]\<rparr>"

definition hasWildcard :: "string list \<Rightarrow> bool" where
  "hasWildcard values = (Wildcard \<in> set values)"

definition matchesValue :: "string \<Rightarrow> string \<Rightarrow> bool" where
  "matchesValue granted target = (granted = Wildcard \<or> granted \<noteq> [] \<and> granted = target)"

definition matchesTeam :: "Scope \<Rightarrow> string \<Rightarrow> bool" where
  "matchesTeam s team = (sc_TeamAny s \<or> sc_Team s \<noteq> [] \<and> sc_Team s = team)"

definition matchesAny :: "string list \<Rightarrow> string list \<Rightarrow> bool" where
  "matchesAny granted target = (\<exists>allowed \<in> set granted. allowed = Wildcard \<or> allowed \<in> set target)"

definition Matches :: "Scope \<Rightarrow> Scope \<Rightarrow> bool" where
  "Matches s target =
     (matchesValue (sc_Site s) (sc_Site target) \<and> matchesValue (sc_Environment s) (sc_Environment target)
      \<and> matchesTeam s (sc_Team target) \<and> matchesAny (sc_Owners s) (sc_Owners target)
      \<and> matchesAny (sc_Tags s) (sc_Tags target))"

definition Covers :: "Scope \<Rightarrow> bool" where
  "Covers s = (sc_Site s = Wildcard \<and> sc_Environment s = Wildcard \<and> sc_TeamAny s
     \<and> hasWildcard (sc_Owners s) \<and> hasWildcard (sc_Tags s))"

definition containsValue :: "string \<Rightarrow> string \<Rightarrow> bool" where
  "containsValue granted other = (granted = Wildcard \<or> other = [] \<or> granted = other)"

definition containsTeam :: "Scope \<Rightarrow> Scope \<Rightarrow> bool" where
  "containsTeam s other = (sc_TeamAny s \<or> \<not> sc_TeamAny other \<and> sc_Team s \<noteq> [] \<and> sc_Team s = sc_Team other)"

definition containsAll :: "string list \<Rightarrow> string list \<Rightarrow> bool" where
  "containsAll granted other =
     (hasWildcard granted \<or> list_all (\<lambda>v. v \<noteq> Wildcard \<and> v \<in> set granted) other)"

definition Contains :: "Scope \<Rightarrow> Scope \<Rightarrow> bool" where
  "Contains s other =
     (containsValue (sc_Site s) (sc_Site other) \<and> containsValue (sc_Environment s) (sc_Environment other)
      \<and> containsTeam s other \<and> containsAll (sc_Owners s) (sc_Owners other) \<and> containsAll (sc_Tags s) (sc_Tags other))"

definition orWildcard :: "string \<Rightarrow> string" where
  "orWildcard value = (if TrimSpace value = [] then Wildcard else value)"

definition listOrWildcard :: "string list \<Rightarrow> string" where
  "listOrWildcard values = (if values = [] then ''(none)'' else Join values ''|'')"

definition String_of_scope :: "Scope \<Rightarrow> string" where
  "String_of_scope s =
     ''site='' @ orWildcard (sc_Site s) @ '' env='' @ orWildcard (sc_Environment s)
     @ '' team='' @ orWildcard (if sc_TeamAny s then Wildcard else sc_Team s)
     @ '' owner='' @ listOrWildcard (sc_Owners s) @ '' tag='' @ listOrWildcard (sc_Tags s)"

text \<open>
  Nobody hands out what they do not hold: what the narrow scope matches, a scope that contains it
  matches too.
\<close>

lemma containsAll_matches: "containsAll granted other \<Longrightarrow> matchesAny other target \<Longrightarrow> matchesAny granted target"
  by (auto simp: containsAll_def matchesAny_def hasWildcard_def list_all_iff)

lemma Contains_matches:
  assumes "Contains s other" "Matches other target"
  shows "Matches s target"
proof -
  have "matchesValue (sc_Site s) (sc_Site target)" "matchesValue (sc_Environment s) (sc_Environment target)" "matchesTeam s (sc_Team target)"
    using assms by (auto simp: Contains_def Matches_def containsValue_def matchesValue_def containsTeam_def matchesTeam_def Wildcard_def)
  then show ?thesis using assms containsAll_matches by (auto simp: Contains_def Matches_def)
qed

lemma Contains_global: "Contains s GlobalScope \<Longrightarrow> Matches s target"
  by (auto simp: Contains_def GlobalScope_def Matches_def containsValue_def matchesValue_def containsTeam_def matchesTeam_def
      containsAll_def matchesAny_def hasWildcard_def Wildcard_def)

section \<open>Bindings and decisions\<close>

record Binding =
  b_Role :: string
  b_Scope :: Scope
  b_ValidUntil :: "moment option"
  b_Granted :: "string list"

definition Grants :: "Binding \<Rightarrow> string \<Rightarrow> bool" where
  "Grants b permission = (if BuiltIn (b_Role b) then Has (b_Role b) permission else permission \<in> set (b_Granted b))"

definition Permissions_of_binding :: "Binding \<Rightarrow> string list" where
  "Permissions_of_binding b = (if BuiltIn (b_Role b) then Permissions_of_role (b_Role b) else sort (b_Granted b))"

definition Active :: "moment \<Rightarrow> Binding \<Rightarrow> bool" where
  "Active now b = (case b_ValidUntil b of None \<Rightarrow> True | Some t \<Rightarrow> now < t)"

record Principal =
  p_ID :: string
  p_Subject :: string
  p_DisplayName :: string
  p_Kind :: string
  p_DirectoryUID :: string
  p_AwaitingIssuer :: string
  p_Bindings :: "Binding list"

definition live :: "moment \<Rightarrow> Principal \<Rightarrow> Binding list" where
  "live now p = filter (Active now) (p_Bindings p)"

definition Can :: "moment \<Rightarrow> Principal \<Rightarrow> string \<Rightarrow> Scope \<Rightarrow> bool" where
  "Can now p permission target = (\<exists>b \<in> set (live now p). Grants b permission \<and> Matches (b_Scope b) target)"

definition CanAnywhere :: "moment \<Rightarrow> Principal \<Rightarrow> string \<Rightarrow> bool" where
  "CanAnywhere now p permission = (\<exists>b \<in> set (live now p). Grants b permission)"

definition Permissions_of_principal :: "moment \<Rightarrow> Principal \<Rightarrow> string list" where
  "Permissions_of_principal now p = sort (remdups (concat (map Permissions_of_binding (live now p))))"

definition ScopesFor :: "moment \<Rightarrow> Principal \<Rightarrow> string \<Rightarrow> Scope list" where
  "ScopesFor now p permission = map b_Scope (filter (\<lambda>b. Grants b permission) (live now p))"

definition Roles_of :: "moment \<Rightarrow> Principal \<Rightarrow> string list" where
  "Roles_of now p = sort (remdups (map b_Role (live now p)))"

definition Authenticated :: "Principal \<Rightarrow> bool" where
  "Authenticated p = (p_ID p \<noteq> [])"

lemma Can_ScopesFor: "Can now p permission target \<longleftrightarrow> (\<exists>s \<in> set (ScopesFor now p permission). Matches s target)"
  by (auto simp: Can_def ScopesFor_def)

end
