(* ===== verification/Authz_SQL.thy ===== *)
theory Authz_SQL
  imports Authz Selector_SQL
begin

text \<open>
  The condition of SQL a list is narrowed with (\<open>ScopeSQL\<close> of \<open>src/internal/authz/model.go\<close>), and
  that it selects exactly the hosts the decision \<open>Can\<close> allows. The text is built as the code builds
  it; next to it stands the same condition as data, a disjunction of conjunctions of comparisons,
  whose rendering the text is shown to be and whose meaning on a row is given.
\<close>

section \<open>The condition as text\<close>

record Columns =
  c_Site :: string
  c_Environment :: string
  c_Team :: string
  c_Owner :: string
  c_Tags :: string

definition HostColumns :: "string \<Rightarrow> Columns" where
  "HostColumns al =
     (let prefix = (if al \<noteq> [] then al @ ''.'' else al) in
      \<lparr>c_Site = prefix @ ''site'', c_Environment = prefix @ ''environment'', c_Team = prefix @ ''team_id'',
       c_Owner = prefix @ ''owner'', c_Tags = prefix @ ''tags''\<rparr>)"

definition Placements :: "string \<Rightarrow> string \<Rightarrow> Columns" where
  "Placements siteColumn envColumn =
     \<lparr>c_Site = siteColumn, c_Environment = envColumn, c_Team = [], c_Owner = [], c_Tags = []\<rparr>"

definition listSQL :: "string \<Rightarrow> string list \<Rightarrow> bool \<Rightarrow> nat \<Rightarrow> string \<times> args" where
  "listSQL column values array off =
     (if Wildcard \<in> set values then ([], [])
      else if values = [] \<or> column = [] then (''false'', [])
      else if array then
        (''coalesce('' @ column @ '', '' @ quote_char @ ''{}'' @ quote_char @ '') && $'' @ Itoa (off + 1) @ ''::text[]'', [TextArray values])
      else
        (''coalesce('' @ column @ '', '' @ quote_char @ quote_char @ '') = any($'' @ Itoa (off + 1) @ ''::text[])'', [TextArray values]))"

definition value_part :: "nat \<Rightarrow> string \<Rightarrow> string \<Rightarrow> args \<Rightarrow> string list \<times> args" where
  "value_part off column value args =
     (if value = Wildcard then ([], args)
      else if value = [] \<or> column = [] then ([''false''], args)
      else ([column @ '' = $'' @ Itoa (off + length (args @ [Text value]))], args @ [Text value]))"

definition team_part :: "nat \<Rightarrow> string \<Rightarrow> Scope \<Rightarrow> args \<Rightarrow> string list \<times> args" where
  "team_part off column s args =
     (if sc_TeamAny s then ([], args)
      else if sc_Team s = [] \<or> column = [] then ([''false''], args)
      else ([column @ '' = $'' @ Itoa (off + length (args @ [Text (sc_Team s)])) @ ''::uuid''], args @ [Text (sc_Team s)]))"

definition list_part :: "nat \<Rightarrow> string \<Rightarrow> string list \<Rightarrow> bool \<Rightarrow> args \<Rightarrow> string list \<times> args" where
  "list_part off column values array args =
     (case listSQL column values array (off + length args) of
        (condition, used) \<Rightarrow> if condition = [] then ([], args) else ([condition], args @ used))"

definition scope_parts :: "Columns \<Rightarrow> nat \<Rightarrow> Scope \<Rightarrow> args \<Rightarrow> string list \<times> args" where
  "scope_parts columns off s args =
     (let (site, args1) = value_part off (c_Site columns) (sc_Site s) args;
          (environment, args2) = value_part off (c_Environment columns) (sc_Environment s) args1;
          (team, args3) = team_part off (c_Team columns) s args2;
          (owners, args4) = list_part off (c_Owner columns) (sc_Owners s) False args3;
          (tags, args5) = list_part off (c_Tags columns) (sc_Tags s) True args4
      in (site @ environment @ team @ owners @ tags, args5))"

definition bracketed :: "string list \<Rightarrow> string" where
  "bracketed parts = (if length parts = 1 then hd parts else ''('' @ Join parts '' and '' @ '')'')"

fun scope_loop :: "Columns \<Rightarrow> nat \<Rightarrow> Scope list \<Rightarrow> string list \<Rightarrow> args \<Rightarrow> string \<times> args" where
  "scope_loop columns off [] conditions args = (''('' @ Join conditions '' or '' @ '')'', args)"
| "scope_loop columns off (s # scopes) conditions args =
     (if Covers s then ([], [])
      else case scope_parts columns off s args of
        (parts, args') \<Rightarrow>
          if parts = [] then ([], []) else scope_loop columns off scopes (conditions @ [bracketed parts]) args')"

definition ScopeSQL :: "Scope list \<Rightarrow> Columns \<Rightarrow> nat \<Rightarrow> string \<times> args" where
  "ScopeSQL scopes columns off = (if scopes = [] then (''false'', []) else scope_loop columns off scopes [] [])"

section \<open>The condition as data\<close>

datatype atom =
  Never | Equals string string | EqualsUuid string string | OneOf string "string list" | Overlaps string "string list"

fun atom_text :: "nat \<Rightarrow> atom \<Rightarrow> string" where
  "atom_text n Never = ''false''"
| "atom_text n (Equals c v) = c @ '' = $'' @ Itoa n"
| "atom_text n (EqualsUuid c v) = c @ '' = $'' @ Itoa n @ ''::uuid''"
| "atom_text n (OneOf c vs) = ''coalesce('' @ c @ '', '' @ quote_char @ quote_char @ '') = any($'' @ Itoa n @ ''::text[])''"
| "atom_text n (Overlaps c vs) = ''coalesce('' @ c @ '', '' @ quote_char @ ''{}'' @ quote_char @ '') && $'' @ Itoa n @ ''::text[]''"

fun atom_args :: "atom \<Rightarrow> args" where
  "atom_args Never = []"
| "atom_args (Equals c v) = [Text v]"
| "atom_args (EqualsUuid c v) = [Text v]"
| "atom_args (OneOf c vs) = [TextArray vs]"
| "atom_args (Overlaps c vs) = [TextArray vs]"

text \<open>A conjunction: its texts, each with the number of its placeholder, and the arguments so far.\<close>

fun render_atoms :: "nat \<Rightarrow> atom list \<Rightarrow> args \<Rightarrow> string list \<times> args" where
  "render_atoms off [] args = ([], args)"
| "render_atoms off (a # as) args =
     (case render_atoms off as (args @ atom_args a) of
        (texts, args') \<Rightarrow> (atom_text (off + length args + 1) a # texts, args'))"

text \<open>
  A disjunction of conjunctions; \<^const>\<open>None\<close> is the condition that narrows nothing. The words
  between the comparisons are spelled here, whatever the code puts between its texts: a
  conjunction of one comparison is that comparison, any other stands in brackets.
\<close>

fun conjunction_text :: "string list \<Rightarrow> string" where
  "conjunction_text [t] = t"
| "conjunction_text ts = ''('' @ Join ts '' and '' @ '')''"

fun render_loop :: "nat \<Rightarrow> atom list list \<Rightarrow> string list \<Rightarrow> args \<Rightarrow> string \<times> args" where
  "render_loop off [] conditions args = (''('' @ Join conditions '' or '' @ '')'', args)"
| "render_loop off (as # ass) conditions args =
     (case render_atoms off as args of (texts, args') \<Rightarrow> render_loop off ass (conditions @ [conjunction_text texts]) args')"

definition render :: "nat \<Rightarrow> atom list list option \<Rightarrow> string \<times> args" where
  "render off d =
     (case d of
        None \<Rightarrow> ([], [])
      | Some ass \<Rightarrow> if ass = [] then (''false'', []) else render_loop off ass [] [])"

definition value_atoms :: "string \<Rightarrow> string \<Rightarrow> atom list" where
  "value_atoms column value =
     (if value = Wildcard then [] else if value = [] \<or> column = [] then [Never] else [Equals column value])"

definition team_atoms :: "string \<Rightarrow> Scope \<Rightarrow> atom list" where
  "team_atoms column s =
     (if sc_TeamAny s then [] else if sc_Team s = [] \<or> column = [] then [Never] else [EqualsUuid column (sc_Team s)])"

definition list_atoms :: "(string \<Rightarrow> string list \<Rightarrow> atom) \<Rightarrow> string \<Rightarrow> string list \<Rightarrow> atom list" where
  "list_atoms mk column values =
     (if Wildcard \<in> set values then [] else if values = [] \<or> column = [] then [Never] else [mk column values])"

definition scope_atoms :: "Columns \<Rightarrow> Scope \<Rightarrow> atom list" where
  "scope_atoms columns s =
     value_atoms (c_Site columns) (sc_Site s) @ value_atoms (c_Environment columns) (sc_Environment s)
     @ team_atoms (c_Team columns) s @ list_atoms OneOf (c_Owner columns) (sc_Owners s)
     @ list_atoms Overlaps (c_Tags columns) (sc_Tags s)"

definition scope_condition :: "Columns \<Rightarrow> Scope list \<Rightarrow> atom list list option" where
  "scope_condition columns scopes =
     (if \<exists>s \<in> set scopes. scope_atoms columns s = [] then None else Some (map (scope_atoms columns) scopes))"

lemma render_atoms_append:
  "render_atoms off (as @ bs) args =
     (case render_atoms off as args of (ts, args1) \<Rightarrow> case render_atoms off bs args1 of (us, args2) \<Rightarrow> (ts @ us, args2))"
  by (induction as arbitrary: args) (auto split: prod.splits)

lemma value_part_render: "value_part off column value args = render_atoms off (value_atoms column value) args"
  by (simp add: value_part_def value_atoms_def)

lemma team_part_render: "team_part off column s args = render_atoms off (team_atoms column s) args"
  by (simp add: team_part_def team_atoms_def)

lemma list_part_render:
  "list_part off column values False args = render_atoms off (list_atoms OneOf column values) args"
  "list_part off column values True args = render_atoms off (list_atoms Overlaps column values) args"
  by (simp_all add: list_part_def listSQL_def list_atoms_def)

lemma scope_parts_render: "scope_parts columns off s args = render_atoms off (scope_atoms columns s) args"
  by (simp add: scope_parts_def scope_atoms_def value_part_render team_part_render list_part_render render_atoms_append split: prod.splits)

lemma scope_atoms_Nil_iff: "scope_atoms columns s = [] \<longleftrightarrow> Covers s"
  by (auto simp: scope_atoms_def value_atoms_def team_atoms_def list_atoms_def Covers_def hasWildcard_def)

lemma render_atoms_Nil_iff: "fst (render_atoms off as args) = [] \<longleftrightarrow> as = []"
  by (cases as) (auto split: prod.splits)

lemma bracketed_conjunction: "bracketed ts = conjunction_text ts"
  by (cases ts rule: conjunction_text.cases) (simp_all add: bracketed_def)

lemma scope_loop_render:
  "scope_loop columns off scopes conditions args =
     (if \<exists>s \<in> set scopes. scope_atoms columns s = [] then ([], [])
      else render_loop off (map (scope_atoms columns) scopes) conditions args)"
proof (induction scopes arbitrary: conditions args)
  case (Cons s scopes)
  obtain ts args' where r: "render_atoms off (scope_atoms columns s) args = (ts, args')" by fastforce
  have "ts = [] \<longleftrightarrow> scope_atoms columns s = []" using render_atoms_Nil_iff [of off "scope_atoms columns s" args] r by simp
  then show ?case using Cons r by (simp add: scope_parts_render bracketed_conjunction scope_atoms_Nil_iff [of columns s])
qed simp

lemma ScopeSQL_render: "ScopeSQL scopes columns off = render off (scope_condition columns scopes)"
  by (cases "scopes = []") (simp_all add: ScopeSQL_def render_def scope_condition_def scope_loop_render)

section \<open>The rows it selects\<close>

datatype sql_value = Null | Str string | Arr "string list"

text \<open>
  \<open>cast\<close> is the cast of a text to an identifier by the database, with the identifier as the text
  the database writes it by; a comparison with a text it refuses selects nothing.
\<close>

fun atom_holds :: "(string \<Rightarrow> string option) \<Rightarrow> (string \<Rightarrow> sql_value) \<Rightarrow> atom \<Rightarrow> bool" where
  "atom_holds cast row Never = False"
| "atom_holds cast row (Equals c v) = (row c = Str v)"
| "atom_holds cast row (EqualsUuid c v) = (case cast v of None \<Rightarrow> False | Some u \<Rightarrow> row c = Str u)"
| "atom_holds cast row (OneOf c vs) = (case row c of Str v \<Rightarrow> v \<in> set vs | Null \<Rightarrow> [] \<in> set vs | Arr _ \<Rightarrow> False)"
| "atom_holds cast row (Overlaps c vs) = (case row c of Arr ts \<Rightarrow> \<exists>t \<in> set ts. t \<in> set vs | _ \<Rightarrow> False)"

definition condition_holds ::
  "(string \<Rightarrow> string option) \<Rightarrow> (string \<Rightarrow> sql_value) \<Rightarrow> atom list list option \<Rightarrow> bool" where
  "condition_holds cast row d =
     (case d of None \<Rightarrow> True | Some ass \<Rightarrow> \<exists>as \<in> set ass. list_all (atom_holds cast row) as)"

text \<open>
  The facts of a host a decision reads, and its row of the table \<open>hosts\<close> under an alias, by the
  names the columns have there; a team or an owner it has not is null.
\<close>

record host_facts =
  hf_site :: string
  hf_environment :: string
  hf_team :: string
  hf_owner :: string
  hf_tags :: "string list"

definition host_row :: "string \<Rightarrow> host_facts \<Rightarrow> string \<Rightarrow> sql_value" where
  "host_row al h column =
     (let of_table = (\<lambda>name. column = (if al = [] then name else al @ ''.'' @ name));
          nullable = (\<lambda>v. if v = [] then Null else Str v)
      in if of_table ''site'' then Str (hf_site h)
         else if of_table ''environment'' then Str (hf_environment h)
         else if of_table ''team_id'' then nullable (hf_team h)
         else if of_table ''owner'' then nullable (hf_owner h)
         else if of_table ''tags'' then Arr (hf_tags h)
         else Null)"

text \<open>A scope whose team, where it names one, is the text of an identifier.\<close>

definition team_canonical :: "(string \<Rightarrow> string option) \<Rightarrow> Scope \<Rightarrow> bool" where
  "team_canonical cast s = (sc_TeamAny s \<or> sc_Team s = [] \<or> cast (sc_Team s) = Some (sc_Team s))"

definition target_of :: "host_facts \<Rightarrow> Scope" where
  "target_of h = TargetOf (hf_site h) (hf_environment h) (hf_team h) (hf_owner h) (hf_tags h)"

lemma host_row_columns:
  "host_row al h (c_Site (HostColumns al)) = Str (hf_site h)"
  "host_row al h (c_Environment (HostColumns al)) = Str (hf_environment h)"
  "host_row al h (c_Team (HostColumns al)) = (if hf_team h = [] then Null else Str (hf_team h))"
  "host_row al h (c_Owner (HostColumns al)) = (if hf_owner h = [] then Null else Str (hf_owner h))"
  "host_row al h (c_Tags (HostColumns al)) = Arr (hf_tags h)"
  by (simp_all add: host_row_def HostColumns_def Let_def)

lemma host_columns_named:
  "c_Site (HostColumns al) \<noteq> []" "c_Environment (HostColumns al) \<noteq> []" "c_Team (HostColumns al) \<noteq> []"
  "c_Owner (HostColumns al) \<noteq> []" "c_Tags (HostColumns al) \<noteq> []"
  by (simp_all add: HostColumns_def Let_def)

lemma scope_atoms_hold:
  assumes "[] \<notin> set (sc_Owners s)" "team_canonical cast s"
  shows "list_all (atom_holds cast (host_row al h)) (scope_atoms (HostColumns al) s) \<longleftrightarrow> Matches s (target_of h)"
proof -
  let ?c = "HostColumns al" and ?row = "host_row al h"
  note named = host_columns_named [of al] and row = host_row_columns [of al h]
  have "list_all (atom_holds cast ?row) (value_atoms (c_Site ?c) (sc_Site s)) \<longleftrightarrow> matchesValue (sc_Site s) (hf_site h)"
    "list_all (atom_holds cast ?row) (value_atoms (c_Environment ?c) (sc_Environment s)) \<longleftrightarrow> matchesValue (sc_Environment s) (hf_environment h)"
    "list_all (atom_holds cast ?row) (team_atoms (c_Team ?c) s) \<longleftrightarrow> matchesTeam s (hf_team h)"
    using named row assms(2) by (auto simp: value_atoms_def team_atoms_def matchesValue_def matchesTeam_def team_canonical_def split: if_splits)
  moreover have "list_all (atom_holds cast ?row) (list_atoms OneOf (c_Owner ?c) (sc_Owners s))
      \<longleftrightarrow> matchesAny (sc_Owners s) (if hf_owner h \<noteq> [] then [hf_owner h] else [])"
    using named row assms by (auto simp: list_atoms_def matchesAny_def)
  moreover have "list_all (atom_holds cast ?row) (list_atoms Overlaps (c_Tags ?c) (sc_Tags s)) \<longleftrightarrow> matchesAny (sc_Tags s) (hf_tags h)"
    using named row by (auto simp: list_atoms_def matchesAny_def)
  ultimately show ?thesis by (simp add: scope_atoms_def Matches_def target_of_def TargetOf_def)
qed

lemma scope_condition_holds:
  assumes "\<forall>s \<in> set scopes. [] \<notin> set (sc_Owners s) \<and> team_canonical cast s"
  shows "condition_holds cast (host_row al h) (scope_condition (HostColumns al) scopes) \<longleftrightarrow> (\<exists>s \<in> set scopes. Matches s (target_of h))"
proof (cases "\<exists>s \<in> set scopes. scope_atoms (HostColumns al) s = []")
  case True
  then obtain s where s: "s \<in> set scopes" "scope_atoms (HostColumns al) s = []" by blast
  then have "Matches s (target_of h)" using scope_atoms_hold [of s cast al h] assms by simp
  then show ?thesis using True s by (auto simp: condition_holds_def scope_condition_def)
next
  case False
  then show ?thesis using scope_atoms_hold assms by (auto simp: condition_holds_def scope_condition_def)
qed

end
