(* ===== verification/Access.thy ===== *)
theory Access
  imports Authz "HOL-Library.Word"
begin

text \<open>
  Who is given which role where: the store of roles and bindings (\<open>src/internal/authz/roles.go\<close> and
  the bindings of \<open>store.go\<close>).

  An operation is a function of its arguments, the environment of the request and the tables, and answers the
  refusal, if any, and the tables after the transaction. The environment of a request says the
  moment, whether the body could be read, whether the step-up login was passed, how the database
  casts a text to an identifier and lowers a text, which texts \<open>uuid.Parse\<close> takes, the fresh identifier
  and the issuer of the provider of identities (empty without one). A moment of validity comes
  parsed; \<^const>\<open>None\<close> stands for a text that is no timestamp. The audit trail, and the bindings that
  come from groups of a directory, are not part of the model. The constraints of the tables are
  those of the migrations: the unique keys, the foreign keys and their cascades.
\<close>

section \<open>The tables\<close>

record role_row =
  ro_name :: string
  ro_built_in :: bool

record binding_row =
  br_principal :: string
  br_role :: string
  br_site :: string
  br_environment :: string
  br_team :: "string option"
  br_team_any :: bool
  br_owners :: "string list"
  br_tags :: "string list"
  br_valid_until :: "moment option"

record principal_row =
  pr_id :: string
  pr_subject :: string
  pr_display_name :: string
  pr_kind :: string
  pr_awaiting_issuer :: "string option"

record token_row =
  tk_id :: string
  tk_principal :: string
  tk_description :: string
  tk_expires_at :: "moment option"

record access_db =
  ad_principals :: "principal_row list"
  ad_tokens :: "token_row list"
  ad_teams :: "string list"
  ad_roles :: "role_row list"
  ad_role_permissions :: "(string \<times> string) list"
  ad_bindings :: "binding_row list"
  ad_mapped_roles :: "string list"

record access_env =
  ae_now :: moment
  ae_body :: bool
  ae_step_up :: bool
  ae_cast :: "string \<Rightarrow> string option"
  ae_lower :: "string \<Rightarrow> string"
  ae_uuid :: "string \<Rightarrow> bool"
  ae_fresh :: string
  ae_issuer :: string

datatype access_error =
  ErrUnknownRole | ErrBuiltInRole | ErrRoleInUse | ErrRoleExists | InvalidRole | InvalidBinding
| InvalidBody | InvalidSubject | InvalidTTL | NoProvider | ScopeConflict | InvalidTeam | TeamNotFound
| Denied | Escalation | PrincipalNotFound | BindingNotFound | StepUpRequired | QueryError

section \<open>The store of roles\<close>

definition has_principal :: "access_db \<Rightarrow> string \<Rightarrow> bool" where
  "has_principal db pid = (\<exists>p \<in> set (ad_principals db). pr_id p = pid)"

definition granted_by_role :: "access_db \<Rightarrow> string \<Rightarrow> string list" where
  "granted_by_role db role = map snd (filter (\<lambda>(r, p). r = role) (ad_role_permissions db))"

definition RolePermissions :: "access_db \<Rightarrow> string \<Rightarrow> access_error + string list" where
  "RolePermissions db role =
     (if BuiltIn role then Inr (Permissions_of_role role)
      else case find (\<lambda>r. ro_name r = role) (ad_roles db) of
        None \<Rightarrow> Inl ErrUnknownRole
      | Some r \<Rightarrow> Inr (if ro_built_in r then Permissions_of_role role else sort (granted_by_role db role)))"

definition ValidRoleName :: "string \<Rightarrow> bool" where
  "ValidRoleName name =
     (2 \<le> length name \<and> length name \<le> 63 \<and> byte_in (CHR ''a'') (CHR ''z'') (hd name)
      \<and> list_all (\<lambda>c. byte_in (CHR ''a'') (CHR ''z'') c \<or> isDigit c \<or> c = CHR ''_'') (tl name))"

definition checkPermissions :: "string list \<Rightarrow> access_error option" where
  "checkPermissions permissions =
     (if permissions = [] then Some InvalidRole
      else if \<not> list_all KnownPermission permissions then Some InvalidRole else None)"

definition writePermissions :: "string \<Rightarrow> string list \<Rightarrow> access_db \<Rightarrow> access_db" where
  "writePermissions name permissions db =
     db\<lparr>ad_role_permissions := ad_role_permissions db @ map (Pair name) (remdups permissions)\<rparr>"

definition CreateRole :: "string \<Rightarrow> string list \<Rightarrow> access_db \<Rightarrow> access_error option \<times> access_db" where
  "CreateRole name0 permissions db =
     (let name = TrimSpace name0 in
      if \<not> ValidRoleName name then (Some InvalidRole, db)
      else if BuiltIn name then (Some ErrRoleExists, db)
      else case checkPermissions permissions of
        Some err \<Rightarrow> (Some err, db)
      | None \<Rightarrow>
          if \<exists>r \<in> set (ad_roles db). ro_name r = name then (Some ErrRoleExists, db)
          else (None, writePermissions name permissions
                 (db\<lparr>ad_roles := ad_roles db @ [\<lparr>ro_name = name, ro_built_in = False\<rparr>]\<rparr>)))"

definition ReplaceRole :: "string \<Rightarrow> string list \<Rightarrow> access_db \<Rightarrow> access_error option \<times> access_db" where
  "ReplaceRole name permissions db =
     (if BuiltIn name then (Some ErrBuiltInRole, db)
      else case checkPermissions permissions of
        Some err \<Rightarrow> (Some err, db)
      | None \<Rightarrow>
          if \<not> (\<exists>r \<in> set (ad_roles db). ro_name r = name \<and> \<not> ro_built_in r) then (Some ErrUnknownRole, db)
          else (None, writePermissions name permissions
                 (db\<lparr>ad_role_permissions := sql_delete (\<lambda>(r, p). r = name) (ad_role_permissions db)\<rparr>)))"

definition DeleteRole :: "string \<Rightarrow> access_db \<Rightarrow> access_error option \<times> access_db" where
  "DeleteRole name db =
     (if BuiltIn name then (Some ErrBuiltInRole, db)
      else if \<not> (\<exists>r \<in> set (ad_roles db). ro_name r = name \<and> \<not> ro_built_in r) then (Some ErrUnknownRole, db)
      else if (\<exists>b \<in> set (ad_bindings db). br_role b = name) \<or> name \<in> set (ad_mapped_roles db) then (Some ErrRoleInUse, db)
      else (None, db\<lparr>ad_roles := sql_delete (\<lambda>r. ro_name r = name \<and> \<not> ro_built_in r) (ad_roles db),
                     ad_role_permissions := sql_delete (\<lambda>(r, p). r = name) (ad_role_permissions db)\<rparr>))"

section \<open>The store of bindings\<close>

definition roleBindable :: "access_db \<Rightarrow> string \<Rightarrow> bool" where
  "roleBindable db role = (\<exists>r \<in> set (ad_roles db). ro_name r = role)"

definition same_placement_key :: "binding_row \<Rightarrow> binding_row \<Rightarrow> bool" where
  "same_placement_key a b = (br_principal a = br_principal b \<and> br_role a = br_role b
     \<and> br_site a = br_site b \<and> br_environment a = br_environment b)"

definition regrant :: "binding_row \<Rightarrow> binding_row \<Rightarrow> binding_row" where
  "regrant new old = old\<lparr>br_valid_until := br_valid_until new, br_owners := br_owners new, br_tags := br_tags new\<rparr>"

text \<open>
  The two insertions. The key a conflict is resolved on differs; the other unique key of the table
  still refuses a row.
\<close>

definition GrantRole :: "access_env \<Rightarrow> string \<Rightarrow> string \<Rightarrow> Scope \<Rightarrow> moment option \<Rightarrow> access_db \<Rightarrow> access_error option \<times> access_db" where
  "GrantRole env pid role scope validUntil db =
     (if \<not> roleBindable db role then (Some ErrUnknownRole, db)
      else if \<not> sc_TeamAny scope then
        (if sc_Team scope = [] then (Some InvalidBinding, db)
         else case ae_cast env (sc_Team scope) of
           None \<Rightarrow> (Some QueryError, db)
         | Some team \<Rightarrow>
             let row = \<lparr>br_principal = pid, br_role = role, br_site = Wildcard, br_environment = Wildcard, br_team = Some team,
                        br_team_any = False, br_owners = sc_Owners scope, br_tags = sc_Tags scope, br_valid_until = validUntil\<rparr>;
                 hit = (\<lambda>b. br_principal b = pid \<and> br_role b = role \<and> br_team b = Some team)
             in if \<exists>b \<in> set (ad_bindings db). hit b then
                  (None, db\<lparr>ad_bindings := sql_update hit (regrant row) (ad_bindings db)\<rparr>)
                else if \<exists>b \<in> set (ad_bindings db). same_placement_key row b then (Some QueryError, db)
                else if team \<notin> set (ad_teams db) \<or> \<not> has_principal db pid then (Some QueryError, db)
                else (None, db\<lparr>ad_bindings := ad_bindings db @ [row]\<rparr>))
      else
        let row = \<lparr>br_principal = pid, br_role = role, br_site = orWildcard (sc_Site scope),
                   br_environment = orWildcard (sc_Environment scope), br_team = None, br_team_any = True,
                   br_owners = sc_Owners scope, br_tags = sc_Tags scope, br_valid_until = validUntil\<rparr>
        in if \<exists>b \<in> set (ad_bindings db). same_placement_key row b then
             (None, db\<lparr>ad_bindings := sql_update (same_placement_key row) (regrant row) (ad_bindings db)\<rparr>)
           else if \<not> has_principal db pid then (Some QueryError, db)
           else (None, db\<lparr>ad_bindings := ad_bindings db @ [row]\<rparr>))"

definition RevokeRole :: "access_env \<Rightarrow> string \<Rightarrow> string \<Rightarrow> Scope \<Rightarrow> access_db \<Rightarrow> (access_error + bool) \<times> access_db" where
  "RevokeRole env pid role scope db =
     (if sc_Team scope \<noteq> [] then
        (case ae_cast env (sc_Team scope) of
           None \<Rightarrow> (Inl QueryError, db)
         | Some team \<Rightarrow>
             let hit = (\<lambda>b. br_principal b = pid \<and> br_role b = role \<and> br_team b = Some team)
             in (Inr (\<exists>b \<in> set (ad_bindings db). hit b), db\<lparr>ad_bindings := sql_delete hit (ad_bindings db)\<rparr>))
      else
        let hit = (\<lambda>b. br_principal b = pid \<and> br_role b = role \<and> br_site b = orWildcard (sc_Site scope)
                      \<and> br_environment b = orWildcard (sc_Environment scope) \<and> br_team b = None)
        in (Inr (\<exists>b \<in> set (ad_bindings db). hit b), db\<lparr>ad_bindings := sql_delete hit (ad_bindings db)\<rparr>))"

definition scope_of_row :: "binding_row \<Rightarrow> Scope" where
  "scope_of_row b = \<lparr>sc_Site = br_site b, sc_Environment = br_environment b,
     sc_Team = (case br_team b of None \<Rightarrow> [] | Some t \<Rightarrow> t), sc_TeamAny = br_team_any b,
     sc_Owners = br_owners b, sc_Tags = br_tags b\<rparr>"

definition binding_of_row :: "access_db \<Rightarrow> binding_row \<Rightarrow> Binding" where
  "binding_of_row db b = \<lparr>b_Role = br_role b, b_Scope = scope_of_row b, b_ValidUntil = br_valid_until b,
     b_Granted = granted_by_role db (br_role b)\<rparr>"

text \<open>The order of the rows decides nothing; they come in the order of the table.\<close>

definition readBindings :: "moment \<Rightarrow> string \<Rightarrow> bool \<Rightarrow> access_db \<Rightarrow> Binding list" where
  "readBindings now pid liveOnly db =
     map (binding_of_row db)
       (filter (\<lambda>b. br_principal b = pid
          \<and> (liveOnly \<longrightarrow> (case br_valid_until b of None \<Rightarrow> True | Some t \<Rightarrow> now < t))) (ad_bindings db))"

definition principal_of :: "moment \<Rightarrow> string \<Rightarrow> access_db \<Rightarrow> Principal" where
  "principal_of now pid db = \<lparr>p_ID = pid, p_Subject = [], p_DisplayName = [], p_Kind = [], p_DirectoryUID = [],
     p_AwaitingIssuer = [], p_Bindings = readBindings now pid True db\<rparr>"

section \<open>The store of identities\<close>

definition EnsurePrincipal :: "access_env \<Rightarrow> string \<Rightarrow> string \<Rightarrow> string \<Rightarrow> access_db \<Rightarrow> string \<times> access_db" where
  "EnsurePrincipal env subject displayName kind db =
     (case find (\<lambda>p. pr_subject p = subject) (ad_principals db) of
        Some p \<Rightarrow>
          (pr_id p, db\<lparr>ad_principals := sql_update (\<lambda>p. pr_subject p = subject)
             (\<lambda>p. p\<lparr>pr_display_name := (if displayName = [] then pr_display_name p else displayName)\<rparr>) (ad_principals db)\<rparr>)
      | None \<Rightarrow>
          (ae_fresh env, db\<lparr>ad_principals := ad_principals db @
             [\<lparr>pr_id = ae_fresh env, pr_subject = subject, pr_display_name = displayName,
               pr_kind = (if kind = [] then ''user'' else kind), pr_awaiting_issuer = None\<rparr>]\<rparr>))"

definition EnsureAwaitingPrincipal :: "access_env \<Rightarrow> string \<Rightarrow> string \<Rightarrow> string \<Rightarrow> access_db \<Rightarrow> access_error + (string \<times> bool \<times> access_db)" where
  "EnsureAwaitingPrincipal env subject displayName issuer db =
     (if TrimSpace subject = [] \<or> TrimSpace issuer = [] then Inl InvalidBinding
      else case find (\<lambda>p. ae_lower env (pr_subject p) = ae_lower env subject) (ad_principals db) of
        Some p \<Rightarrow> Inr (pr_id p, False, db)
      | None \<Rightarrow>
          Inr (ae_fresh env, True, db\<lparr>ad_principals := ad_principals db @
             [\<lparr>pr_id = ae_fresh env, pr_subject = subject, pr_display_name = displayName,
               pr_kind = ''user'', pr_awaiting_issuer = Some issuer\<rparr>]\<rparr>))"

definition IssueToken :: "access_env \<Rightarrow> string \<Rightarrow> string \<Rightarrow> int \<Rightarrow> access_db \<Rightarrow> access_db" where
  "IssueToken env pid description ttl db =
     db\<lparr>ad_tokens := ad_tokens db @ [\<lparr>tk_id = ae_fresh env, tk_principal = pid, tk_description = description,
        tk_expires_at = (if 0 < ttl then Some (ae_now env + ttl) else None)\<rparr>]\<rparr>"

end
