(* ===== verification/Access_Handlers.thy ===== *)
theory Access_Handlers
  imports Access
begin

text \<open>
  The handlers of the API that change who may do what: the guard of a grant
  (\<open>src/internal/adminapi/principals.go\<close>), the grants and revocations over a placement and over a
  team (\<open>principals.go\<close>, \<open>access.go\<close>, \<open>access_grant.go\<close>), the identities made with roles, and the roles an
  installation defines (\<open>roles.go\<close>). A transaction that is not committed leaves the tables as they were.
\<close>

section \<open>The guard of a grant\<close>

definition authorize :: "moment \<Rightarrow> Principal \<Rightarrow> string \<Rightarrow> Scope \<Rightarrow> bool" where
  "authorize now p permission scope = (Authenticated p \<and> Can now p permission scope)"

definition holdsInScope :: "moment \<Rightarrow> Principal \<Rightarrow> string \<Rightarrow> Scope \<Rightarrow> bool" where
  "holdsInScope now actor permission scope = (\<exists>own \<in> set (ScopesFor now actor permission). Contains own scope)"

definition mayGrant :: "moment \<Rightarrow> Principal \<Rightarrow> string list \<Rightarrow> Scope \<Rightarrow> bool" where
  "mayGrant now actor permissions scope =
     (permissions \<noteq> [] \<and> list_all (\<lambda>permission. holdsInScope now actor permission scope) permissions)"

text \<open>The identity a path names, by the identifier the table has for it.\<close>

definition principalTarget :: "access_env \<Rightarrow> access_db \<Rightarrow> string \<Rightarrow> access_error + string" where
  "principalTarget env db path =
     (if \<not> ae_uuid env path then Inl PrincipalNotFound
      else case ae_cast env path of
        None \<Rightarrow> Inl QueryError
      | Some pid \<Rightarrow> if has_principal db pid then Inr pid else Inl PrincipalNotFound)"

section \<open>Grants over a placement\<close>

record roleRequest =
  rq_Role :: string
  rq_Site :: string
  rq_Environment :: string
  rq_TeamScope :: "(string \<times> string) option"
  rq_Owners :: "string list"
  rq_Tags :: "string list"
  rq_ValidUntil :: "moment option option"

definition trimmedList :: "string list \<Rightarrow> string list" where
  "trimmedList values = filter (\<lambda>v. v \<noteq> []) (map TrimSpace values)"

definition scope_of_request :: "roleRequest \<Rightarrow> Scope option" where
  "scope_of_request request =
     (let owners = trimmedList (rq_Owners request); tags = trimmedList (rq_Tags request);
          scope = \<lparr>sc_Site = TrimSpace (rq_Site request), sc_Environment = TrimSpace (rq_Environment request),
                   sc_Team = [], sc_TeamAny = False,
                   sc_Owners = (if owners = [] then [Wildcard] else owners),
                   sc_Tags = (if tags = [] then [Wildcard] else tags)\<rparr>
      in case rq_TeamScope request of
           None \<Rightarrow> None
         | Some (mode, teamID) \<Rightarrow>
             let team = TrimSpace teamID; mode = ToLower (TrimSpace mode) in
             if mode = ''any'' then (if team \<noteq> [] then None else Some (scope\<lparr>sc_TeamAny := True\<rparr>))
             else if mode = ''exact'' then (if team = [] then None else Some (scope\<lparr>sc_Team := team\<rparr>))
             else None)"

definition parse_role_request :: "roleRequest \<Rightarrow> (string \<times> Scope \<times> moment option) option" where
  "parse_role_request request =
     (if TrimSpace (rq_Role request) = [] then None
      else case scope_of_request request of
        None \<Rightarrow> None
      | Some scope \<Rightarrow>
          (case rq_ValidUntil request of None \<Rightarrow> None | Some validUntil \<Rightarrow> Some (rq_Role request, scope, validUntil)))"

definition handleGrantRole :: "access_env \<Rightarrow> string \<Rightarrow> string \<Rightarrow> roleRequest \<Rightarrow> access_db \<Rightarrow> access_error option \<times> access_db" where
  "handleGrantRole env actorID path request db =
     (let actor = principal_of (ae_now env) actorID db in
      if \<not> authorize (ae_now env) actor PermPrincipalManage GlobalScope then (Some Denied, db)
      else case principalTarget env db path of
        Inl err \<Rightarrow> (Some err, db)
      | Inr targetID \<Rightarrow>
          if \<not> ae_body env then (Some InvalidBody, db)
          else (case parse_role_request request of
             None \<Rightarrow> (Some InvalidBinding, db)
           | Some (role, scope, validUntil) \<Rightarrow>
               (case RolePermissions db role of
                  Inl err \<Rightarrow> (Some err, db)
                | Inr carried \<Rightarrow>
                    if \<not> mayGrant (ae_now env) actor carried scope then (Some Escalation, db)
                    else if \<not> ae_step_up env then (Some StepUpRequired, db)
                    else GrantRole env targetID role scope validUntil db)))"

definition handleRevokeRole :: "access_env \<Rightarrow> string \<Rightarrow> string \<Rightarrow> string \<Rightarrow> string \<Rightarrow> string \<Rightarrow> access_db \<Rightarrow> access_error option \<times> access_db" where
  "handleRevokeRole env actorID path role site environment db =
     (let actor = principal_of (ae_now env) actorID db in
      if \<not> authorize (ae_now env) actor PermPrincipalManage GlobalScope then (Some Denied, db)
      else case principalTarget env db path of
        Inl err \<Rightarrow> (Some err, db)
      | Inr targetID \<Rightarrow>
          (case RolePermissions db role of
             Inl err \<Rightarrow> (Some err, db)
           | Inr carried \<Rightarrow>
               if \<not> ae_body env then (Some InvalidBody, db)
               else if \<not> ae_step_up env then (Some StepUpRequired, db)
               else (case RevokeRole env targetID role (Placement (TrimSpace site) (TrimSpace environment)) db of
                  (Inl err, db') \<Rightarrow> (Some err, db)
                | (Inr removed, db') \<Rightarrow> if removed then (None, db') else (Some BindingNotFound, db))))"

section \<open>Identities made with roles\<close>

record createPrincipalRequest =
  cp_Subject :: string
  cp_DisplayName :: string
  cp_Kind :: string
  cp_Roles :: "roleRequest list"
  cp_IssueToken :: bool
  cp_TokenTTLHours :: int

definition hour :: int where "hour = 3600000000000"

definition maxTokenTTL :: int where "maxTokenTTL = 365 * 24 * hour"

text \<open>The bindings of the request, each read, resolved and held against what the actor holds.\<close>

fun parse_bindings :: "moment \<Rightarrow> Principal \<Rightarrow> access_db \<Rightarrow> roleRequest list \<Rightarrow> access_error + (string \<times> Scope \<times> moment option) list" where
  "parse_bindings now actor db [] = Inr []"
| "parse_bindings now actor db (request # rest) =
     (case parse_role_request request of
        None \<Rightarrow> Inl InvalidBinding
      | Some (role, scope, validUntil) \<Rightarrow>
          (case RolePermissions db role of
             Inl err \<Rightarrow> Inl err
           | Inr carried \<Rightarrow>
               if \<not> mayGrant now actor carried scope then Inl Escalation
               else and_then (parse_bindings now actor db rest) (\<lambda>more. Inr ((role, scope, validUntil) # more))))"

fun grant_all :: "access_env \<Rightarrow> string \<Rightarrow> (string \<times> Scope \<times> moment option) list \<Rightarrow> access_db \<Rightarrow> access_error option \<times> access_db" where
  "grant_all env pid [] db = (None, db)"
| "grant_all env pid ((role, scope, validUntil) # rest) db =
     (case GrantRole env pid role scope validUntil db of
        (Some err, db') \<Rightarrow> (Some err, db')
      | (None, db') \<Rightarrow> grant_all env pid rest db')"

text \<open>The length of life of a token; the product of the hours wraps as a signed word of 64 bits does.\<close>

definition token_ttl :: "int \<Rightarrow> int" where
  "token_ttl hours =
     (let ttl = sint (word_of_int (hours * hour) :: 64 word) in if ttl \<le> 0 then 30 * 24 * hour else ttl)"

definition handleCreatePrincipal :: "access_env \<Rightarrow> string \<Rightarrow> createPrincipalRequest \<Rightarrow> access_db \<Rightarrow> access_error option \<times> access_db" where
  "handleCreatePrincipal env actorID request db =
     (let actor = principal_of (ae_now env) actorID db; ttl = token_ttl (cp_TokenTTLHours request) in
      if \<not> authorize (ae_now env) actor PermPrincipalManage GlobalScope then (Some Denied, db)
      else if \<not> ae_body env then (Some InvalidBody, db)
      else if cp_Subject request = [] then (Some InvalidSubject, db)
      else if cp_Kind request \<noteq> [] \<and> cp_Kind request \<noteq> ''user'' \<and> cp_Kind request \<noteq> ''service'' then (Some InvalidSubject, db)
      else if cp_IssueToken request \<and> maxTokenTTL < ttl then (Some InvalidTTL, db)
      else case parse_bindings (ae_now env) actor db (cp_Roles request) of
        Inl err \<Rightarrow> (Some err, db)
      | Inr bindings \<Rightarrow>
          if \<not> ae_step_up env then (Some StepUpRequired, db)
          else
            let (pid, db1) = EnsurePrincipal env (cp_Subject request) (cp_DisplayName request) (cp_Kind request) db
            in case grant_all env pid bindings db1 of
                 (Some err, db2) \<Rightarrow> (Some err, db)
               | (None, db2) \<Rightarrow>
                   (None, if cp_IssueToken request then IssueToken env pid (''token for '' @ cp_Subject request) ttl db2 else db2))"

definition handleGrantToHolder :: "access_env \<Rightarrow> string \<Rightarrow> string \<Rightarrow> string \<Rightarrow> string \<Rightarrow> string \<Rightarrow> string \<Rightarrow> access_db \<Rightarrow> access_error option \<times> access_db" where
  "handleGrantToHolder env actorID subject0 displayName role0 site environment db =
     (let actor = principal_of (ae_now env) actorID db; subject = TrimSpace subject0; role = TrimSpace role0;
          scope = PlacementWithin (TrimSpace site) (TrimSpace environment) None None in
      if \<not> authorize (ae_now env) actor PermPrincipalManage GlobalScope then (Some Denied, db)
      else if \<not> ae_body env then (Some InvalidBody, db)
      else if subject = [] then (Some InvalidBinding, db)
      else if ae_issuer env = [] then (Some NoProvider, db)
      else case RolePermissions db role of
        Inl err \<Rightarrow> (Some err, db)
      | Inr carried \<Rightarrow>
          if \<not> mayGrant (ae_now env) actor carried scope then (Some Escalation, db)
          else if \<not> ae_step_up env then (Some StepUpRequired, db)
          else (case EnsureAwaitingPrincipal env subject (TrimSpace displayName) (ae_issuer env) db of
             Inl err \<Rightarrow> (Some err, db)
           | Inr (pid, written, db1) \<Rightarrow>
               (case GrantRole env pid role scope None db1 of
                  (Some err, db2) \<Rightarrow> (Some InvalidBinding, db)
                | (None, db2) \<Rightarrow> (None, db2))))"

section \<open>Grants over a team\<close>

record teamBindingRequest =
  tq_Role :: string
  tq_Team :: string
  tq_Site :: string
  tq_Environment :: string
  tq_ValidUntil :: "moment option option"

definition parse_team_request :: "access_env \<Rightarrow> teamBindingRequest \<Rightarrow> access_error + (string \<times> Scope \<times> moment option)" where
  "parse_team_request env request =
     (let team = TrimSpace (tq_Team request) in
      if TrimSpace (tq_Role request) = [] then Inl InvalidBinding
      else if TrimSpace (tq_Site request) \<noteq> [] \<or> TrimSpace (tq_Environment request) \<noteq> [] then Inl ScopeConflict
      else if team = [] then Inl InvalidTeam
      else if \<not> ae_uuid env team then Inl InvalidTeam
      else case tq_ValidUntil request of
        None \<Rightarrow> Inl InvalidBinding
      | Some validUntil \<Rightarrow> Inr (tq_Role request, OfTeam team, validUntil))"

text \<open>The team as the store of hosts finds it (\<open>Team\<close> of \<open>src/internal/hosts/teams.go\<close>).\<close>

definition Team_found :: "access_env \<Rightarrow> access_db \<Rightarrow> string \<Rightarrow> access_error option" where
  "Team_found env db teamID =
     (if \<not> ae_uuid env teamID then Some TeamNotFound
      else case ae_cast env teamID of
        None \<Rightarrow> Some QueryError
      | Some t \<Rightarrow> if t \<in> set (ad_teams db) then None else Some TeamNotFound)"

definition authorizeTeamBinding :: "access_env \<Rightarrow> Principal \<Rightarrow> string \<Rightarrow> access_db \<Rightarrow> access_error + string" where
  "authorizeTeamBinding env actor path db =
     (if \<not> authorize (ae_now env) actor PermPrincipalManage GlobalScope then Inl Denied
      else if \<not> authorize (ae_now env) actor PermTeamBindingWrite GlobalScope then Inl Denied
      else principalTarget env db path)"

definition handleGrantTeamRole :: "access_env \<Rightarrow> string \<Rightarrow> string \<Rightarrow> teamBindingRequest \<Rightarrow> access_db \<Rightarrow> access_error option \<times> access_db" where
  "handleGrantTeamRole env actorID path request db =
     (let actor = principal_of (ae_now env) actorID db in
      case authorizeTeamBinding env actor path db of
        Inl err \<Rightarrow> (Some err, db)
      | Inr targetID \<Rightarrow>
          if \<not> ae_body env then (Some InvalidBody, db)
          else (case parse_team_request env request of
             Inl err \<Rightarrow> (Some err, db)
           | Inr (role, scope, validUntil) \<Rightarrow>
               (case Team_found env db (sc_Team scope) of
                  Some err \<Rightarrow> (Some err, db)
                | None \<Rightarrow>
                    (case RolePermissions db role of
                       Inl err \<Rightarrow> (Some err, db)
                     | Inr carried \<Rightarrow>
                         if \<not> mayGrant (ae_now env) actor carried scope then (Some Escalation, db)
                         else if \<not> ae_step_up env then (Some StepUpRequired, db)
                         else GrantRole env targetID role scope validUntil db))))"

definition handleRevokeTeamRole :: "access_env \<Rightarrow> string \<Rightarrow> string \<Rightarrow> string \<Rightarrow> teamBindingRequest \<Rightarrow> access_db \<Rightarrow> access_error option \<times> access_db" where
  "handleRevokeTeamRole env actorID path role request db =
     (let actor = principal_of (ae_now env) actorID db; team = TrimSpace (tq_Team request) in
      case authorizeTeamBinding env actor path db of
        Inl err \<Rightarrow> (Some err, db)
      | Inr targetID \<Rightarrow>
          (case RolePermissions db role of
             Inl err \<Rightarrow> (Some err, db)
           | Inr carried \<Rightarrow>
               if \<not> ae_body env then (Some InvalidBody, db)
               else if TrimSpace (tq_Site request) \<noteq> [] \<or> TrimSpace (tq_Environment request) \<noteq> [] then (Some ScopeConflict, db)
               else if team = [] \<or> \<not> ae_uuid env team then (Some InvalidTeam, db)
               else if \<not> ae_step_up env then (Some StepUpRequired, db)
               else (case RevokeRole env targetID role (OfTeam team) db of
                  (Inl err, db') \<Rightarrow> (Some err, db)
                | (Inr removed, db') \<Rightarrow> if removed then (None, db') else (Some BindingNotFound, db))))"

section \<open>Roles of the installation\<close>

text \<open>The permissions a definition of a role asks for, all of them held everywhere by its author.\<close>

definition readRoleRequest :: "access_env \<Rightarrow> Principal \<Rightarrow> string list \<Rightarrow> access_error + string list" where
  "readRoleRequest env actor names =
     (let permissions = filter (\<lambda>n. n \<noteq> []) (map TrimSpace names) in
      if \<not> ae_body env then Inl InvalidBody
      else if \<not> list_all KnownPermission permissions then Inl InvalidRole
      else if permissions = [] then Inl InvalidRole
      else if \<not> list_all (\<lambda>p. holdsInScope (ae_now env) actor p GlobalScope) (sort permissions) then Inl Escalation
      else Inr (sort permissions))"

definition handleCreateRole :: "access_env \<Rightarrow> string \<Rightarrow> string \<Rightarrow> string list \<Rightarrow> access_db \<Rightarrow> access_error option \<times> access_db" where
  "handleCreateRole env actorID name names db =
     (let actor = principal_of (ae_now env) actorID db in
      if \<not> authorize (ae_now env) actor PermPrincipalManage GlobalScope then (Some Denied, db)
      else case readRoleRequest env actor names of
        Inl err \<Rightarrow> (Some err, db)
      | Inr permissions \<Rightarrow>
          if \<not> ae_step_up env then (Some StepUpRequired, db) else CreateRole (TrimSpace name) permissions db)"

definition handleReplaceRole :: "access_env \<Rightarrow> string \<Rightarrow> string \<Rightarrow> string list \<Rightarrow> access_db \<Rightarrow> access_error option \<times> access_db" where
  "handleReplaceRole env actorID name names db =
     (let actor = principal_of (ae_now env) actorID db in
      if \<not> authorize (ae_now env) actor PermPrincipalManage GlobalScope then (Some Denied, db)
      else if BuiltIn name then (Some ErrBuiltInRole, db)
      else case readRoleRequest env actor names of
        Inl err \<Rightarrow> (Some err, db)
      | Inr permissions \<Rightarrow>
          if \<not> roleBindable db name then (Some ErrUnknownRole, db)
          else if \<not> ae_step_up env then (Some StepUpRequired, db)
          else ReplaceRole name permissions db)"

definition handleDeleteRole :: "access_env \<Rightarrow> string \<Rightarrow> string \<Rightarrow> access_db \<Rightarrow> access_error option \<times> access_db" where
  "handleDeleteRole env actorID name db =
     (let actor = principal_of (ae_now env) actorID db in
      if \<not> authorize (ae_now env) actor PermPrincipalManage GlobalScope then (Some Denied, db)
      else if BuiltIn name then (Some ErrBuiltInRole, db)
      else if \<not> ae_body env then (Some InvalidBody, db)
      else if \<not> roleBindable db name then (Some ErrUnknownRole, db)
      else if \<not> ae_step_up env then (Some StepUpRequired, db)
      else DeleteRole name db)"

section \<open>The first identity\<close>

text \<open>
  What the panel does when it starts with no identity (\<open>bootstrapAdmin\<close> of \<open>src/internal/app/app.go\<close>). The
  file the token is written to is not part of the model.
\<close>

definition BootstrapSubject :: string where "BootstrapSubject = ''bootstrap-admin''"

definition RolePlatformAdmin :: string where "RolePlatformAdmin = ''platform_admin''"

definition bootstrapAdmin :: "access_env \<Rightarrow> access_db \<Rightarrow> access_error option \<times> access_db" where
  "bootstrapAdmin env db =
     (if ad_principals db \<noteq> [] then (None, db)
      else
        let (pid, db1) = EnsurePrincipal env BootstrapSubject ''Bootstrap administrator'' ''user'' db
        in case GrantRole env pid RolePlatformAdmin GlobalScope None db1 of
             (Some err, db2) \<Rightarrow> (Some err, db)
           | (None, db2) \<Rightarrow> (None, IssueToken env pid ''the bootstrap token'' (30 * 24 * hour) db2))"

section \<open>Requests\<close>

text \<open>Every request the handlers above answer; one that is refused changes nothing.\<close>

datatype access_request =
  Grant string roleRequest
| Revoke string string string string
| Create_Principal createPrincipalRequest
| Grant_Holder string string string string string
| Grant_Team string teamBindingRequest
| Revoke_Team string string teamBindingRequest
| Create_Role string "string list"
| Replace_Role string "string list"
| Delete_Role string

fun handle :: "access_env \<Rightarrow> string \<Rightarrow> access_request \<Rightarrow> access_db \<Rightarrow> access_error option \<times> access_db" where
  "handle env actor (Grant path request) db = handleGrantRole env actor path request db"
| "handle env actor (Revoke path role site environment) db = handleRevokeRole env actor path role site environment db"
| "handle env actor (Create_Principal request) db = handleCreatePrincipal env actor request db"
| "handle env actor (Grant_Holder subject name role site environment) db = handleGrantToHolder env actor subject name role site environment db"
| "handle env actor (Grant_Team path request) db = handleGrantTeamRole env actor path request db"
| "handle env actor (Revoke_Team path role request) db = handleRevokeTeamRole env actor path role request db"
| "handle env actor (Create_Role name names) db = handleCreateRole env actor name names db"
| "handle env actor (Replace_Role name names) db = handleReplaceRole env actor name names db"
| "handle env actor (Delete_Role name) db = handleDeleteRole env actor name db"

end
