(* ===== verification/Access_Safety.thy ===== *)
theory Access_Safety
  imports Access_Handlers
begin

text \<open>
  Nobody hands out what nobody holds. The reach of the tables is what some binding on record
  allows, whoever has it and whether or not it has ended: pairs of a permission and a target. Every
  handler keeps the constraints of the tables, and a handler whose request spells out the placement
  never adds to the reach.
\<close>

section \<open>The constraints of the tables\<close>

definition binding_key :: "binding_row \<Rightarrow> string \<times> string \<times> string \<times> string" where
  "binding_key b = (br_principal b, br_role b, br_site b, br_environment b)"

definition binding_ok :: "(string \<Rightarrow> string option) \<Rightarrow> binding_row \<Rightarrow> bool" where
  "binding_ok cast b =
     ((br_team_any b \<longleftrightarrow> br_team b = None)
      \<and> (case br_team b of None \<Rightarrow> True
         | Some t \<Rightarrow> br_site b = Wildcard \<and> br_environment b = Wildcard \<and> cast t = Some t))"

definition access_ok :: "(string \<Rightarrow> string option) \<Rightarrow> access_db \<Rightarrow> bool" where
  "access_ok cast db =
     (list_all (\<lambda>b. binding_ok cast b \<and> roleBindable db (br_role b) \<and> has_principal db (br_principal b)) (ad_bindings db)
      \<and> distinct (map binding_key (ad_bindings db))
      \<and> list_all (\<lambda>(r, p). \<exists>row \<in> set (ad_roles db). ro_name row = r \<and> \<not> ro_built_in row) (ad_role_permissions db)
      \<and> distinct (ad_role_permissions db) \<and> distinct (map ro_name (ad_roles db)))"

definition idempotent_cast :: "(string \<Rightarrow> string option) \<Rightarrow> bool" where
  "idempotent_cast cast = (\<forall>t t'. cast t = Some t' \<longrightarrow> cast t' = Some t')"

lemma same_placement_key_iff: "same_placement_key a b \<longleftrightarrow> binding_key a = binding_key b"
  by (auto simp: same_placement_key_def binding_key_def)

lemma regrant_fields [simp]:
  "br_principal (regrant n b) = br_principal b" "br_role (regrant n b) = br_role b" "br_site (regrant n b) = br_site b"
  "br_environment (regrant n b) = br_environment b" "br_team (regrant n b) = br_team b" "br_team_any (regrant n b) = br_team_any b"
  "br_owners (regrant n b) = br_owners n" "br_tags (regrant n b) = br_tags n"
  by (simp_all add: regrant_def)

lemma regrant_keeps [simp]: "binding_key (regrant n b) = binding_key b" "binding_ok cast (regrant n b) = binding_ok cast b"
  by (simp_all add: binding_key_def binding_ok_def split: option.split)

text \<open>What a grant may leave behind: the rows it had, one of them written anew, or one more row.\<close>

lemma GrantRole_cases:
  assumes "GrantRole env pid role scope v db = (e, db')"
  obtains "db' = db"
  | P n where "db' = db\<lparr>ad_bindings := sql_update P (regrant n) (ad_bindings db)\<rparr>" "e = None"
      "\<And>b. P b \<Longrightarrow> br_role b = role" "br_owners n = sc_Owners scope" "br_tags n = sc_Tags scope"
      "\<And>b. P b \<Longrightarrow> if sc_TeamAny scope
          then br_site b = orWildcard (sc_Site scope) \<and> br_environment b = orWildcard (sc_Environment scope)
          else br_team b = ae_cast env (sc_Team scope) \<and> br_team b \<noteq> None"
  | n where "db' = db\<lparr>ad_bindings := ad_bindings db @ [n]\<rparr>" "e = None" "binding_key n \<notin> binding_key ` set (ad_bindings db)"
      "br_principal n = pid" "br_role n = role" "has_principal db pid" "roleBindable db role"
      "br_owners n = sc_Owners scope" "br_tags n = sc_Tags scope" "br_team_any n = sc_TeamAny scope"
      "if sc_TeamAny scope
          then br_site n = orWildcard (sc_Site scope) \<and> br_environment n = orWildcard (sc_Environment scope) \<and> br_team n = None
          else br_site n = Wildcard \<and> br_environment n = Wildcard \<and> br_team n = ae_cast env (sc_Team scope) \<and> br_team n \<noteq> None"
proof (cases "roleBindable db role \<and> e = None")
  case False
  with assms that(1) show ?thesis by (auto simp: GrantRole_def Let_def split: if_splits option.splits)
next
  case True
  show ?thesis
  proof (cases "sc_TeamAny scope")
    case any: True
    let ?row = "\<lparr>br_principal = pid, br_role = role, br_site = orWildcard (sc_Site scope),
                   br_environment = orWildcard (sc_Environment scope), br_team = None, br_team_any = True,
                   br_owners = sc_Owners scope, br_tags = sc_Tags scope, br_valid_until = v\<rparr>"
    show ?thesis
    proof (cases "\<exists>b \<in> set (ad_bindings db). same_placement_key ?row b")
      case hit: True
      show ?thesis
        by (rule that(2) [of "same_placement_key ?row" ?row]) (use assms True any hit in \<open>auto simp: GrantRole_def Let_def same_placement_key_def\<close>)
    next
      case miss: False
      show ?thesis
        by (rule that(3) [of ?row]) (use assms True any miss in \<open>auto simp: GrantRole_def Let_def same_placement_key_iff split: if_splits\<close>)
    qed
  next
    case exact: False
    then obtain team where team: "ae_cast env (sc_Team scope) = Some team"
      using assms True by (auto simp: GrantRole_def split: if_splits option.splits)
    let ?row = "\<lparr>br_principal = pid, br_role = role, br_site = Wildcard, br_environment = Wildcard, br_team = Some team,
                        br_team_any = False, br_owners = sc_Owners scope, br_tags = sc_Tags scope, br_valid_until = v\<rparr>"
    let ?hit = "\<lambda>b. br_principal b = pid \<and> br_role b = role \<and> br_team b = Some team"
    show ?thesis
    proof (cases "\<exists>b \<in> set (ad_bindings db). ?hit b")
      case hit: True
      then have eq: "db' = db\<lparr>ad_bindings := sql_update ?hit (regrant ?row) (ad_bindings db)\<rparr>"
        using assms True exact team by (simp add: GrantRole_def Let_def split: if_splits)
      show ?thesis by (rule that(2) [OF eq]) (use True exact team in auto)
    next
      case miss: False
      have "db' = db\<lparr>ad_bindings := ad_bindings db @ [?row]\<rparr>" "\<forall>b \<in> set (ad_bindings db). \<not> same_placement_key ?row b" "has_principal db pid"
        using assms True exact team miss by (auto simp: GrantRole_def Let_def split: if_splits)
      then show ?thesis
        by (intro that(3) [of ?row]) (use True exact team in \<open>auto simp: same_placement_key_iff\<close>)
    qed
  qed
qed

section \<open>The constraints hold at every moment\<close>

lemma roleBindable_same: "ad_roles db' = ad_roles db \<Longrightarrow> roleBindable db' = roleBindable db"
  by (auto simp: roleBindable_def fun_eq_iff)

lemma has_principal_more: "set (ad_principals db) \<subseteq> set (ad_principals db') \<Longrightarrow> has_principal db pid \<Longrightarrow> has_principal db' pid"
  by (auto simp: has_principal_def)

lemma GrantRole_ok:
  assumes "access_ok (ae_cast env) db" "idempotent_cast (ae_cast env)" "GrantRole env pid role scope v db = (e, db')"
  shows "access_ok (ae_cast env) db'"
  using assms(3)
proof (cases rule: GrantRole_cases)
  case 1
  then show ?thesis using assms(1) by simp
next
  case (2 P n)
  have "map binding_key (sql_update P (regrant n) (ad_bindings db)) = map binding_key (ad_bindings db)"
    by (rule map_sql_update) simp
  then show ?thesis
    using assms(1) by (auto simp: 2(1) access_ok_def list_all_iff roleBindable_def has_principal_def set_sql_update)
next
  case (3 n)
  have "binding_ok (ae_cast env) n"
    using assms(2) 3(10,11) by (cases "sc_TeamAny scope"; cases "br_team n") (auto simp: binding_ok_def idempotent_cast_def)
  then show ?thesis
    using assms(1) 3 by (auto simp: access_ok_def list_all_iff roleBindable_def has_principal_def)
qed

lemma GrantRole_tables:
  assumes "GrantRole env pid role scope v db = (e, db')"
  shows "ad_role_permissions db' = ad_role_permissions db" "ad_roles db' = ad_roles db" "ad_principals db' = ad_principals db"
  using assms by (cases rule: GrantRole_cases; simp)+

lemma RevokeRole_ok:
  assumes "access_ok cast db" "RevokeRole env pid role scope db = (r, db')"
  shows "access_ok cast db'"
proof -
  obtain P where "db' = db \<or> db' = db\<lparr>ad_bindings := sql_delete P (ad_bindings db)\<rparr>"
    using assms(2) by (auto simp: RevokeRole_def Let_def split: if_splits option.splits)
  then show ?thesis
    using assms(1) by (auto simp: access_ok_def list_all_iff sql_delete_def roleBindable_def has_principal_def distinct_map_filter)
qed

lemma grant_all_ok:
  assumes "access_ok (ae_cast env) db" "idempotent_cast (ae_cast env)" "grant_all env pid bs db = (e, db')"
  shows "access_ok (ae_cast env) db'"
  using assms(1,3)
proof (induction bs arbitrary: db)
  case (Cons b bs)
  obtain role scope v where b: "b = (role, scope, v)" by (cases b)
  obtain e1 db1 where g: "GrantRole env pid role scope v db = (e1, db1)" by fastforce
  have "access_ok (ae_cast env) db1" by (rule GrantRole_ok [OF Cons.prems(1) assms(2) g])
  then show ?case using Cons.IH [of db1] Cons.prems(2) by (cases e1) (auto simp: b g)
qed simp

lemma more_principals_ok:
  assumes "access_ok cast db" "ad_bindings db' = ad_bindings db" "ad_roles db' = ad_roles db"
    "ad_role_permissions db' = ad_role_permissions db" "\<And>pid. has_principal db pid \<Longrightarrow> has_principal db' pid"
  shows "access_ok cast db'"
  using assms by (auto simp: access_ok_def list_all_iff roleBindable_def)

lemma EnsurePrincipal_ok:
  assumes "access_ok cast db" "EnsurePrincipal env subject name kind db = (pid, db')"
  shows "access_ok cast db'"
proof (rule more_principals_ok [OF assms(1)])
  let ?upd = "\<lambda>p. p\<lparr>pr_display_name := (if name = [] then pr_display_name p else name)\<rparr>"
  have "pr_id ` set (sql_update (\<lambda>p. pr_subject p = subject) ?upd (ad_principals db)) = pr_id ` set (ad_principals db)"
    by (rule image_sql_update) simp
  then have "pr_id ` set (ad_principals db) \<subseteq> pr_id ` set (ad_principals db')"
    using assms(2) by (auto simp: EnsurePrincipal_def split: option.splits)
  then show "has_principal db q \<Longrightarrow> has_principal db' q" for q
    unfolding has_principal_def by (metis (no_types, lifting) image_iff subset_iff)
qed (use assms(2) in \<open>auto simp: EnsurePrincipal_def split: option.splits\<close>)

lemma EnsureAwaitingPrincipal_ok:
  assumes "access_ok cast db" "EnsureAwaitingPrincipal env subject name issuer db = Inr (pid, written, db')"
  shows "access_ok cast db'"
  by (rule more_principals_ok [OF assms(1)])
     (use assms(2) in \<open>auto simp: EnsureAwaitingPrincipal_def has_principal_def split: option.splits if_splits\<close>)

lemma IssueToken_ok: "access_ok cast db \<Longrightarrow> access_ok cast (IssueToken env pid d ttl db)"
  by (rule more_principals_ok) (auto simp: IssueToken_def has_principal_def)

lemma CreateRole_ok:
  assumes ok: "access_ok cast db"
  shows "access_ok cast (snd (CreateRole name ps db))"
proof -
  let ?n = "TrimSpace name"
  have new: "access_ok cast (writePermissions ?n ps (db\<lparr>ad_roles := ad_roles db @ [\<lparr>ro_name = ?n, ro_built_in = False\<rparr>]\<rparr>))"
    if fresh: "\<forall>r \<in> set (ad_roles db). ro_name r \<noteq> ?n"
  proof -
    have "\<forall>p. (?n, p) \<notin> set (ad_role_permissions db)"
      using ok fresh by (fastforce simp: access_ok_def list_all_iff)
    then show ?thesis
      using ok fresh by (auto simp: access_ok_def list_all_iff writePermissions_def roleBindable_def has_principal_def distinct_map inj_on_def)
  qed
  show ?thesis using ok new by (auto simp: CreateRole_def Let_def split: option.split)
qed

lemma ReplaceRole_ok:
  assumes ok: "access_ok cast db"
  shows "access_ok cast (snd (ReplaceRole name ps db))"
proof -
  have "access_ok cast (writePermissions name ps (db\<lparr>ad_role_permissions := sql_delete (\<lambda>(r, p). r = name) (ad_role_permissions db)\<rparr>))"
    if "\<exists>r \<in> set (ad_roles db). ro_name r = name \<and> \<not> ro_built_in r"
    using ok that
    by (auto simp: access_ok_def list_all_iff writePermissions_def roleBindable_def has_principal_def sql_delete_def distinct_map inj_on_def)
  then show ?thesis using ok by (auto simp: ReplaceRole_def split: option.split)
qed

lemma DeleteRole_ok:
  assumes ok: "access_ok cast db"
  shows "access_ok cast (snd (DeleteRole name db))"
proof -
  let ?db = "db\<lparr>ad_roles := sql_delete (\<lambda>r. ro_name r = name \<and> \<not> ro_built_in r) (ad_roles db),
                     ad_role_permissions := sql_delete (\<lambda>(r, p). r = name) (ad_role_permissions db)\<rparr>"
  have "access_ok cast ?db" if free: "\<forall>b \<in> set (ad_bindings db). br_role b \<noteq> name"
  proof -
    have kept: "roleBindable ?db (br_role b)" if "b \<in> set (ad_bindings db)" for b
      using ok free that by (fastforce simp: access_ok_def list_all_iff roleBindable_def sql_delete_def)
    have carried: "\<exists>row \<in> set (ad_roles ?db). ro_name row = r \<and> \<not> ro_built_in row" if "(r, p) \<in> set (ad_role_permissions ?db)" for r p
      using ok that by (fastforce simp: access_ok_def list_all_iff sql_delete_def)
    have "distinct (map ro_name (ad_roles ?db))" "distinct (ad_role_permissions ?db)"
      using ok by (auto simp: access_ok_def sql_delete_def distinct_map_filter)
    then show ?thesis
      using ok kept carried by (auto simp: access_ok_def list_all_iff has_principal_def)
  qed
  then show ?thesis using ok by (auto simp: DeleteRole_def)
qed

section \<open>What a handler comes down to\<close>

text \<open>
  \<open>may_hand_out\<close> says what the guards of every grant establish: the role is resolved and the actor may grant it.
\<close>

definition may_hand_out :: "access_env \<Rightarrow> string \<Rightarrow> access_db \<Rightarrow> string \<Rightarrow> Scope \<Rightarrow> bool" where
  "may_hand_out env actor db role scope =
     (case RolePermissions db role of Inl _ \<Rightarrow> False
      | Inr carried \<Rightarrow> mayGrant (ae_now env) (principal_of (ae_now env) actor db) carried scope)"

lemma handleGrantRole_cases:
  assumes "handleGrantRole env actor path request db = (e, db')"
  obtains "db' = db"
  | pid role scope v where "parse_role_request request = Some (role, scope, v)" "may_hand_out env actor db role scope"
      "GrantRole env pid role scope v db = (e, db')"
  using assms by (auto simp: handleGrantRole_def Let_def may_hand_out_def split: if_splits option.splits sum.splits)

lemma handleGrantTeamRole_cases:
  assumes "handleGrantTeamRole env actor path request db = (e, db')"
  obtains "db' = db"
  | pid role team v where "may_hand_out env actor db role (OfTeam team)" "GrantRole env pid role (OfTeam team) v db = (e, db')"
proof (cases "db' = db")
  case False
  then obtain pid role scope v where *: "parse_team_request env request = Inr (role, scope, v)"
      "may_hand_out env actor db role scope" "GrantRole env pid role scope v db = (e, db')"
    using assms by (auto simp: handleGrantTeamRole_def Let_def may_hand_out_def split: if_splits option.splits sum.splits)
  then obtain team where "scope = OfTeam team"
    by (auto simp: parse_team_request_def Let_def split: if_splits option.splits)
  with * that(2) show ?thesis by blast
qed (rule that(1))

lemma handleGrantToHolder_cases:
  assumes "handleGrantToHolder env actor subject name role site environment db = (e, db')"
  obtains "db' = db"
  | pid written db1 where
      "EnsureAwaitingPrincipal env (TrimSpace subject) (TrimSpace name) (ae_issuer env) db = Inr (pid, written, db1)"
      "may_hand_out env actor db (TrimSpace role) (PlacementWithin (TrimSpace site) (TrimSpace environment) None None)"
      "GrantRole env pid (TrimSpace role) (PlacementWithin (TrimSpace site) (TrimSpace environment) None None) None db1 = (None, db')"
  using assms
  by (auto simp: handleGrantToHolder_def Let_def may_hand_out_def split: if_splits option.splits sum.splits prod.splits)

lemma parse_bindings_hand_out:
  assumes "parse_bindings (ae_now env) (principal_of (ae_now env) actor db) db requests = Inr bs"
  shows "list_all (\<lambda>(role, scope, v). may_hand_out env actor db role scope) bs
    \<and> list_all2 (\<lambda>request b. parse_role_request request = Some b) requests bs"
  using assms
proof (induction requests arbitrary: bs)
  case (Cons r rs)
  then obtain role scope v carried more where "parse_role_request r = Some (role, scope, v)" "RolePermissions db role = Inr carried"
      "mayGrant (ae_now env) (principal_of (ae_now env) actor db) carried scope"
      "parse_bindings (ae_now env) (principal_of (ae_now env) actor db) db rs = Inr more" "bs = (role, scope, v) # more"
    by (auto split: option.splits sum.splits if_splits)
  then show ?case using Cons.IH by (auto simp: may_hand_out_def)
qed simp

lemma handleCreatePrincipal_cases:
  assumes "handleCreatePrincipal env actor request db = (e, db')"
  obtains "db' = db"
  | pid db1 bs db2 where "EnsurePrincipal env (cp_Subject request) (cp_DisplayName request) (cp_Kind request) db = (pid, db1)"
      "parse_bindings (ae_now env) (principal_of (ae_now env) actor db) db (cp_Roles request) = Inr bs"
      "grant_all env pid bs db1 = (None, db2)" "db' = db2 \<or> (\<exists>d ttl. db' = IssueToken env pid d ttl db2)"
proof (cases "db' = db")
  case False
  obtain pid db1 where ep: "EnsurePrincipal env (cp_Subject request) (cp_DisplayName request) (cp_Kind request) db = (pid, db1)"
    by fastforce
  show ?thesis
    using assms False that(2) [OF ep]
    by (auto simp: handleCreatePrincipal_def Let_def ep split: if_splits option.splits sum.splits prod.splits)
qed (rule that(1))

lemma revoke_cases:
  assumes "handleRevokeRole env actor path role site environment db = (e, db')
    \<or> handleRevokeTeamRole env actor path role request db = (e, db')"
  obtains "db' = db" | pid scope r where "RevokeRole env pid role scope db = (r, db')"
  using assms
  by (auto simp: handleRevokeRole_def handleRevokeTeamRole_def Let_def split: if_splits option.splits sum.splits prod.splits)

lemma role_handler_cases:
  assumes "handleCreateRole env actor name names db = (e, db') \<or> handleReplaceRole env actor name names db = (e, db')"
  obtains "db' = db"
  | ps where "readRoleRequest env (principal_of (ae_now env) actor db) names = Inr ps"
      "db' = snd (CreateRole (TrimSpace name) ps db) \<or> db' = snd (ReplaceRole name ps db)"
  using assms
  by (auto simp: handleCreateRole_def handleReplaceRole_def Let_def split: if_splits option.splits sum.splits prod.splits)

lemma handleDeleteRole_cases:
  assumes "handleDeleteRole env actor name db = (e, db')"
  obtains "db' = db" | "db' = snd (DeleteRole name db)"
  using assms by (auto simp: handleDeleteRole_def Let_def split: if_splits)

text \<open>Every handler keeps the constraints, and so does the first start.\<close>

lemma handle_ok:
  assumes "access_ok (ae_cast env) db" "idempotent_cast (ae_cast env)" "handle env actor request db = (e, db')"
  shows "access_ok (ae_cast env) db'"
proof (cases request)
  case (Grant path rq)
  with assms(3) have "handleGrantRole env actor path rq db = (e, db')" by simp
  then show ?thesis by (cases rule: handleGrantRole_cases) (use assms(1,2) in \<open>auto intro: GrantRole_ok\<close>)
next
  case (Revoke path role site environment)
  with assms(3) have "handleRevokeRole env actor path role site environment db = (e, db')
    \<or> handleRevokeTeamRole env actor path role undefined db = (e, db')" by simp
  then show ?thesis by (cases rule: revoke_cases) (use assms(1) in \<open>auto intro: RevokeRole_ok\<close>)
next
  case (Create_Principal rq)
  with assms(3) have "handleCreatePrincipal env actor rq db = (e, db')" by simp
  then show ?thesis
    by (cases rule: handleCreatePrincipal_cases) (use assms(1,2) in \<open>auto intro!: IssueToken_ok intro: grant_all_ok EnsurePrincipal_ok\<close>)
next
  case (Grant_Holder subject name role site environment)
  with assms(3) have "handleGrantToHolder env actor subject name role site environment db = (e, db')" by simp
  then show ?thesis
    by (cases rule: handleGrantToHolder_cases) (use assms(1,2) in \<open>auto intro: GrantRole_ok EnsureAwaitingPrincipal_ok\<close>)
next
  case (Grant_Team path rq)
  with assms(3) have "handleGrantTeamRole env actor path rq db = (e, db')" by simp
  then show ?thesis by (cases rule: handleGrantTeamRole_cases) (use assms(1,2) in \<open>auto intro: GrantRole_ok\<close>)
next
  case (Revoke_Team path role rq)
  with assms(3) have "handleRevokeRole env actor path role undefined undefined db = (e, db')
    \<or> handleRevokeTeamRole env actor path role rq db = (e, db')" by simp
  then show ?thesis by (cases rule: revoke_cases) (use assms(1) in \<open>auto intro: RevokeRole_ok\<close>)
next
  case (Create_Role name names)
  with assms(3) have "handleCreateRole env actor name names db = (e, db') \<or> handleReplaceRole env actor name names db = (e, db')" by simp
  then show ?thesis by (cases rule: role_handler_cases) (use assms(1) CreateRole_ok ReplaceRole_ok in auto)
next
  case (Replace_Role name names)
  with assms(3) have "handleCreateRole env actor name names db = (e, db') \<or> handleReplaceRole env actor name names db = (e, db')" by simp
  then show ?thesis by (cases rule: role_handler_cases) (use assms(1) CreateRole_ok ReplaceRole_ok in auto)
next
  case (Delete_Role name)
  with assms(3) have "handleDeleteRole env actor name db = (e, db')" by simp
  then show ?thesis by (cases rule: handleDeleteRole_cases) (use assms(1) DeleteRole_ok in auto)
qed

lemma bootstrapAdmin_ok:
  assumes "access_ok (ae_cast env) db" "idempotent_cast (ae_cast env)"
  shows "access_ok (ae_cast env) (snd (bootstrapAdmin env db))"
proof -
  obtain pid db1 where ep: "EnsurePrincipal env BootstrapSubject ''Bootstrap administrator'' ''user'' db = (pid, db1)" by fastforce
  obtain e db2 where g: "GrantRole env pid RolePlatformAdmin GlobalScope None db1 = (e, db2)" by fastforce
  have "access_ok (ae_cast env) db2"
    by (rule GrantRole_ok [OF EnsurePrincipal_ok [OF assms(1) ep] assms(2) g])
  then show ?thesis using assms(1) by (auto simp: bootstrapAdmin_def ep g intro!: IssueToken_ok split: option.split)
qed

end
