(* ===== verification/Access_Reach.thy ===== *)
theory Access_Reach
  imports Access_Safety
begin

text \<open>
  Nobody hands out what nobody holds. The reach of the tables is what some binding on record
  allows, whoever has it and whether or not it has ended: pairs of a permission and a target. A
  request that spells out its placement never adds to the reach, whichever handler answers it and
  in whichever order the requests come.
\<close>

section \<open>The reach of the tables\<close>

definition role_carries :: "access_db \<Rightarrow> string \<Rightarrow> string \<Rightarrow> bool" where
  "role_carries db role permission = (if BuiltIn role then Has role permission else permission \<in> set (granted_by_role db role))"

definition reach :: "access_db \<Rightarrow> (string \<times> Scope) set" where
  "reach db = {(permission, target). \<exists>b \<in> set (ad_bindings db). role_carries db (br_role b) permission \<and> Matches (scope_of_row b) target}"

lemma Grants_binding_of_row [simp]: "Grants (binding_of_row db b) permission = role_carries db (br_role b) permission"
  by (simp add: Grants_def binding_of_row_def role_carries_def)

lemma ScopesFor_row:
  assumes "s \<in> set (ScopesFor now (principal_of now pid db) permission)"
  obtains b where "b \<in> set (ad_bindings db)" "br_principal b = pid" "role_carries db (br_role b) permission" "s = scope_of_row b"
proof -
  obtain r where r: "r \<in> set (ad_bindings db)" "br_principal r = pid" "Grants (binding_of_row db r) permission" "s = b_Scope (binding_of_row db r)"
    using assms by (auto simp: ScopesFor_def live_def principal_of_def readBindings_def)
  then show ?thesis by (intro that [of r]) (simp_all add: binding_of_row_def [of db r, THEN arg_cong, of b_Scope])
qed

text \<open>What an identity can do, now or at any other moment, is part of the reach.\<close>

lemma Can_reach: "Can now (principal_of now pid db) permission target \<Longrightarrow> (permission, target) \<in> reach db"
  by (auto simp: Can_ScopesFor reach_def elim!: ScopesFor_row)

lemma RolePermissions_carries:
  assumes "RolePermissions db role = Inr carried" "carried \<noteq> []" "role_carries db role permission"
  shows "permission \<in> set carried"
  using assms
  by (auto simp: RolePermissions_def role_carries_def Has_def Permissions_of_role_def permissions_of_role_def BuiltIn_def
      split: if_splits option.splits)

section \<open>What a grant writes\<close>

definition stored_scope :: "access_env \<Rightarrow> Scope \<Rightarrow> Scope" where
  "stored_scope env scope =
     (if sc_TeamAny scope then scope\<lparr>sc_Site := orWildcard (sc_Site scope), sc_Environment := orWildcard (sc_Environment scope)\<rparr>
      else scope\<lparr>sc_Site := Wildcard, sc_Environment := Wildcard, sc_Team := the (ae_cast env (sc_Team scope))\<rparr>)"

lemma Matches_regrant:
  assumes "binding_ok (ae_cast env) b" "br_owners n = sc_Owners scope" "br_tags n = sc_Tags scope"
    "if sc_TeamAny scope then br_site b = orWildcard (sc_Site scope) \<and> br_environment b = orWildcard (sc_Environment scope)
     else br_team b = ae_cast env (sc_Team scope) \<and> br_team b \<noteq> None"
    "Matches (scope_of_row (regrant n b)) target"
  shows "Matches (stored_scope env scope) target"
  using assms
  by (auto simp: Matches_def scope_of_row_def stored_scope_def binding_ok_def matchesTeam_def split: if_splits option.splits)

lemma GrantRole_reach:
  assumes G: "GrantRole env pid role scope v db = (e, db')" and ok: "access_ok (ae_cast env) db" and R: "reach db \<subseteq> R"
    and allowed: "\<And>permission target. role_carries db role permission \<Longrightarrow> Matches (stored_scope env scope) target \<Longrightarrow>
      sc_TeamAny scope \<or> ae_cast env (sc_Team scope) \<noteq> None \<Longrightarrow> (permission, target) \<in> R"
  shows "reach db' \<subseteq> R"
proof -
  have carries: "role_carries db' = role_carries db"
    using GrantRole_tables [OF G] by (auto simp: role_carries_def granted_by_role_def fun_eq_iff)
  have rows: "binding_ok (ae_cast env) b" if "b \<in> set (ad_bindings db)" for b
    using ok that by (auto simp: access_ok_def list_all_iff)
  from G show ?thesis
  proof (cases rule: GrantRole_cases)
    case 1
    then show ?thesis using R by simp
  next
    case (2 P n)
    have "(permission, target) \<in> R"
      if "b \<in> set (ad_bindings db)" "P b" "role_carries db (br_role b) permission" "Matches (scope_of_row (regrant n b)) target"
      for b permission target
    proof (rule allowed)
      show "role_carries db role permission" using 2(3) that(2,3) by simp
      show "Matches (stored_scope env scope) target"
        by (rule Matches_regrant [OF rows [OF that(1)] 2(4,5) 2(6) [OF that(2)] that(4)])
      show "sc_TeamAny scope \<or> ae_cast env (sc_Team scope) \<noteq> None" 
        using 2(6) [OF that(2)] by metis
    qed
    moreover have "ad_bindings db' = sql_update P (regrant n) (ad_bindings db)" using 2(1) by simp
    ultimately show ?thesis using R by (auto simp: reach_def carries set_sql_update)
  next
    case (3 n)
    have "(permission, target) \<in> R" if "role_carries db role permission" "Matches (scope_of_row n) target" for permission target
    proof (rule allowed [OF that(1)])
      show "Matches (stored_scope env scope) target"
        using that(2) 3(8-11) by (cases "br_team n") (auto simp: scope_of_row_def stored_scope_def Matches_def matchesTeam_def split: if_splits)
      show "sc_TeamAny scope \<or> ae_cast env (sc_Team scope) \<noteq> None" 
        using 3(11) by metis
    qed
    moreover have "ad_bindings db' = ad_bindings db @ [n]" using 3(1) by simp
    ultimately show ?thesis using R 3(5) by (auto simp: reach_def carries)
  qed
qed

section \<open>Requests that spell out their placement\<close>

text \<open>
  A placement is spelled out when neither the site nor the environment is blank; a grant over a
  team, which is recorded for every site and environment, says so.
\<close>

definition spelled_scope :: "Scope \<Rightarrow> bool" where
  "spelled_scope scope =
     (if sc_TeamAny scope then TrimSpace (sc_Site scope) \<noteq> [] \<and> TrimSpace (sc_Environment scope) \<noteq> []
      else sc_Site scope = Wildcard \<and> sc_Environment scope = Wildcard)"

lemma may_hand_out_reach:
  assumes hand: "may_hand_out env actor db role scope" and ok: "access_ok (ae_cast env) db" and spelled: "spelled_scope scope"
    and carries: "role_carries db role permission" and target: "Matches (stored_scope env scope) target"
    and cast: "sc_TeamAny scope \<or> ae_cast env (sc_Team scope) \<noteq> None"
  shows "(permission, target) \<in> reach db"
proof -
  let ?p = "principal_of (ae_now env) actor db"
  obtain carried where c: "RolePermissions db role = Inr carried" "mayGrant (ae_now env) ?p carried scope"
    using hand by (auto simp: may_hand_out_def split: sum.splits)
  then have "permission \<in> set carried" using RolePermissions_carries carries by (auto simp: mayGrant_def)
  then obtain own where own: "own \<in> set (ScopesFor (ae_now env) ?p permission)" "Contains own scope"
    using c(2) by (auto simp: mayGrant_def holdsInScope_def list_all_iff)
  from own(1) obtain b where b: "b \<in> set (ad_bindings db)" "role_carries db (br_role b) permission" "own = scope_of_row b"
    by (rule ScopesFor_row)
  have row: "binding_ok (ae_cast env) b" using ok b(1) by (auto simp: access_ok_def list_all_iff)
  have "Contains own (stored_scope env scope)"
  proof (cases "sc_TeamAny scope")
    case True
    then have "stored_scope env scope = scope" using spelled by (simp add: stored_scope_def spelled_scope_def orWildcard_def)
    then show ?thesis using own(2) by simp
  next
    case False
    then show ?thesis
      using own(2) spelled cast row
      by (auto simp: stored_scope_def spelled_scope_def Contains_def containsTeam_def b(3) scope_of_row_def binding_ok_def split: option.splits)
  qed
  then have "Matches own target" by (rule Contains_matches [OF _ target])
  then show ?thesis using b by (auto simp: reach_def)
qed

definition spelled_binding :: "roleRequest \<Rightarrow> bool" where
  "spelled_binding request = (case parse_role_request request of None \<Rightarrow> True | Some (role, scope, v) \<Rightarrow> spelled_scope scope)"

fun spelled_out :: "access_request \<Rightarrow> bool" where
  "spelled_out (Grant path request) = spelled_binding request"
| "spelled_out (Create_Principal request) = list_all spelled_binding (cp_Roles request)"
| "spelled_out (Grant_Holder subject name role site environment) = (TrimSpace site \<noteq> [] \<and> TrimSpace environment \<noteq> [])"
| "spelled_out other = True"

lemma same_tables_reach:
  assumes "ad_bindings db' = ad_bindings db" "ad_role_permissions db' = ad_role_permissions db"
  shows "reach db' = reach db" "role_carries db' = role_carries db"
  using assms by (auto simp: reach_def role_carries_def granted_by_role_def fun_eq_iff)

lemma EnsurePrincipal_tables:
  assumes "EnsurePrincipal env subject name kind db = (pid, db')"
  shows "ad_bindings db' = ad_bindings db" "ad_role_permissions db' = ad_role_permissions db"
  using assms by (auto simp: EnsurePrincipal_def split: option.splits)

lemma EnsureAwaitingPrincipal_tables:
  assumes "EnsureAwaitingPrincipal env subject name issuer db = Inr (pid, written, db')"
  shows "ad_bindings db' = ad_bindings db" "ad_role_permissions db' = ad_role_permissions db"
  using assms by (auto simp: EnsureAwaitingPrincipal_def split: option.splits if_splits)

lemma hand_out_reach:
  assumes "GrantRole env pid role scope v db1 = (e, db')" "access_ok (ae_cast env) db1" "reach db1 \<subseteq> reach db"
    "ad_role_permissions db1 = ad_role_permissions db" "access_ok (ae_cast env) db"
    "may_hand_out env actor db role scope" "spelled_scope scope"
  shows "reach db' \<subseteq> reach db"
proof (rule GrantRole_reach [OF assms(1-3)])
  fix permission target
  assume "role_carries db1 role permission" "Matches (stored_scope env scope) target" "sc_TeamAny scope \<or> ae_cast env (sc_Team scope) \<noteq> None"
  moreover have "role_carries db1 role = role_carries db role"
    using assms(4) by (auto simp: role_carries_def granted_by_role_def fun_eq_iff)
  ultimately show "(permission, target) \<in> reach db" using may_hand_out_reach [OF assms(6,5,7)] by simp
qed

lemma grant_all_reach:
  assumes "grant_all env pid bs db1 = (e, db')" "access_ok (ae_cast env) db1" "reach db1 \<subseteq> reach db"
    "ad_role_permissions db1 = ad_role_permissions db" and fixed: "access_ok (ae_cast env) db" "idempotent_cast (ae_cast env)"
    and all: "list_all (\<lambda>(role, scope, v). may_hand_out env actor db role scope) bs" "list_all (\<lambda>(role, scope, v). spelled_scope scope) bs"
  shows "reach db' \<subseteq> reach db"
  using assms(1-4) all
proof (induction bs arbitrary: db1)
  case (Cons b bs)
  obtain role scope v where b: "b = (role, scope, v)" by (cases b)
  obtain e1 db2 where g: "GrantRole env pid role scope v db1 = (e1, db2)" by fastforce
  have "reach db2 \<subseteq> reach db" using hand_out_reach [OF g Cons.prems(2-4) fixed(1), of actor] Cons.prems(5,6) by (simp add: b)
  moreover have "access_ok (ae_cast env) db2" by (rule GrantRole_ok [OF Cons.prems(2) fixed(2) g])
  moreover have "ad_role_permissions db2 = ad_role_permissions db" using GrantRole_tables(1) [OF g] Cons.prems(4) by simp
  ultimately show ?case using Cons.IH [of db2] Cons.prems(1,5,6) by (cases e1) (auto simp: b g)
qed simp

lemma fewer_bindings_reach:
  assumes "set (ad_bindings db') \<subseteq> set (ad_bindings db)" "set (ad_role_permissions db') \<subseteq> set (ad_role_permissions db)"
  shows "reach db' \<subseteq> reach db"
proof -
  have "role_carries db role permission" if "role_carries db' role permission" for role permission
    using that assms(2) by (auto simp: role_carries_def granted_by_role_def split: if_splits)
  then show ?thesis using assms(1) by (auto simp: reach_def)
qed

lemma RevokeRole_reach: "RevokeRole env pid role scope db = (r, db') \<Longrightarrow> reach db' \<subseteq> reach db"
  by (rule fewer_bindings_reach) (auto simp: RevokeRole_def Let_def set_sql_delete split: if_splits option.splits)

lemma DeleteRole_reach: "reach (snd (DeleteRole name db)) \<subseteq> reach db"
  by (rule fewer_bindings_reach) (auto simp: DeleteRole_def set_sql_delete)

text \<open>What a role is defined with, its author holds everywhere.\<close>

lemma readRoleRequest_reach:
  assumes "readRoleRequest env (principal_of (ae_now env) actor db) names = Inr ps" "permission \<in> set ps"
  shows "(permission, target) \<in> reach db"
proof -
  have "list_all (\<lambda>p. holdsInScope (ae_now env) (principal_of (ae_now env) actor db) p GlobalScope) ps"
    using assms(1) by (simp add: readRoleRequest_def Let_def split: if_splits)
  then obtain own where own: "own \<in> set (ScopesFor (ae_now env) (principal_of (ae_now env) actor db) permission)" "Contains own GlobalScope"
    using assms(2) by (auto simp: list_all_iff holdsInScope_def)
  from own(1) show ?thesis
    by (rule ScopesFor_row) (use Contains_global [OF own(2)] in \<open>auto simp: reach_def\<close>)
qed

lemma role_write_carries:
  assumes "role_carries (snd (CreateRole n ps db)) role permission \<or> role_carries (snd (ReplaceRole m ps db)) role permission"
  shows "permission \<in> set ps \<or> role_carries db role permission"
  using assms
  by (auto simp: CreateRole_def ReplaceRole_def Let_def role_carries_def granted_by_role_def writePermissions_def sql_delete_def
      split: if_splits option.splits)

lemma role_write_bindings [simp]:
  "ad_bindings (snd (CreateRole n ps db)) = ad_bindings db" "ad_bindings (snd (ReplaceRole n ps db)) = ad_bindings db"
  by (auto simp: CreateRole_def ReplaceRole_def Let_def writePermissions_def split: option.split)

lemma role_write_reach:
  assumes "readRoleRequest env (principal_of (ae_now env) actor db) names = Inr ps"
    "db' = snd (CreateRole n ps db) \<or> db' = snd (ReplaceRole m ps db)"
  shows "reach db' \<subseteq> reach db"
proof
  fix x assume "x \<in> reach db'"
  then obtain permission target b where x: "x = (permission, target)" and b: "b \<in> set (ad_bindings db')"
      "role_carries db' (br_role b) permission" "Matches (scope_of_row b) target" by (auto simp: reach_def)
  have "permission \<in> set ps \<or> role_carries db (br_role b) permission" using role_write_carries assms(2) b(2) by metis
  then show "x \<in> reach db"
    using readRoleRequest_reach [OF assms(1)] b assms(2) by (auto simp: x) (auto simp: reach_def)
qed

section \<open>Requests in any order\<close>

lemma handle_reach:
  assumes ok: "access_ok (ae_cast env) db" "idempotent_cast (ae_cast env)"
    and h: "handle env actor request db = (e, db')" and spelled: "spelled_out request"
  shows "reach db' \<subseteq> reach db"
proof (cases request)
  case (Grant path rq)
  with h have "handleGrantRole env actor path rq db = (e, db')" by simp
  then show ?thesis
    by (cases rule: handleGrantRole_cases) (use ok spelled Grant hand_out_reach [OF _ ok(1) order_refl refl ok(1)] in \<open>auto simp: spelled_binding_def\<close>)
next
  case (Grant_Team path rq)
  with h have "handleGrantTeamRole env actor path rq db = (e, db')" by simp
  then show ?thesis
    by (cases rule: handleGrantTeamRole_cases)
      (use ok hand_out_reach [OF _ ok(1) order_refl refl ok(1)] in \<open>auto simp: OfTeam_def spelled_scope_def\<close>)
next
  case (Grant_Holder subject name role site environment)
  with h have "handleGrantToHolder env actor subject name role site environment db = (e, db')" by simp
  then show ?thesis
  proof (cases rule: handleGrantToHolder_cases)
    case (2 pid written db1)
    have "spelled_scope (PlacementWithin (TrimSpace site) (TrimSpace environment) None None)"
      using spelled by (simp add: Grant_Holder PlacementWithin_def spelled_scope_def TrimSpace_idem)
    then show ?thesis
      using hand_out_reach [OF 2(3) EnsureAwaitingPrincipal_ok [OF ok(1) 2(1)] _ _ ok(1) 2(2)]
        same_tables_reach(1) [OF EnsureAwaitingPrincipal_tables [OF 2(1)]] EnsureAwaitingPrincipal_tables(2) [OF 2(1)] by simp
  qed simp
next
  case (Create_Principal rq)
  with h have "handleCreatePrincipal env actor rq db = (e, db')" by simp
  then show ?thesis
  proof (cases rule: handleCreatePrincipal_cases)
    case (2 pid db1 bs db2)
    note parsed = parse_bindings_hand_out [OF 2(2)]
    have "list_all (\<lambda>(role, scope, v). spelled_scope scope) bs"
      using parsed spelled by (fastforce simp: Create_Principal spelled_binding_def list_all2_conv_all_nth list_all_length)
    then have "reach db2 \<subseteq> reach db"
      using grant_all_reach [OF 2(3) EnsurePrincipal_ok [OF ok(1) 2(1)] _ _ ok, of actor] parsed
        same_tables_reach(1) [OF EnsurePrincipal_tables [OF 2(1)]] EnsurePrincipal_tables(2) [OF 2(1)] by simp
    moreover have "reach (IssueToken env pid d ttl db2) = reach db2" for d ttl
      by (rule same_tables_reach(1)) (simp_all add: IssueToken_def)
    ultimately show ?thesis using 2(4) by auto
  qed simp
next
  case (Revoke path role site environment)
  with h have "handleRevokeRole env actor path role site environment db = (e, db')
    \<or> handleRevokeTeamRole env actor path role undefined db = (e, db')" by simp
  then show ?thesis by (cases rule: revoke_cases) (use RevokeRole_reach in auto)
next
  case (Revoke_Team path role rq)
  with h have "handleRevokeRole env actor path role undefined undefined db = (e, db')
    \<or> handleRevokeTeamRole env actor path role rq db = (e, db')" by simp
  then show ?thesis by (cases rule: revoke_cases) (use RevokeRole_reach in auto)
next
  case (Create_Role name names)
  with h have "handleCreateRole env actor name names db = (e, db') \<or> handleReplaceRole env actor name names db = (e, db')" by simp
  then show ?thesis by (cases rule: role_handler_cases) (use role_write_reach in auto)
next
  case (Replace_Role name names)
  with h have "handleCreateRole env actor name names db = (e, db') \<or> handleReplaceRole env actor name names db = (e, db')" by simp
  then show ?thesis by (cases rule: role_handler_cases) (use role_write_reach in auto)
next
  case (Delete_Role name)
  with h have "handleDeleteRole env actor name db = (e, db')" by simp
  then show ?thesis by (cases rule: handleDeleteRole_cases) (use DeleteRole_reach in auto)
qed

text \<open>
  A state is the tables; the cast is the one of the database and does not change. The tables start
  as the migrations leave them, with the roles of the product and nobody bound to one.
\<close>

definition access_start :: "access_db \<Rightarrow> bool" where
  "access_start db = (ad_bindings db = [] \<and> ad_role_permissions db = [] \<and> distinct (map ro_name (ad_roles db)))"

inductive access_move :: "(string \<Rightarrow> string option) \<Rightarrow> access_db \<Rightarrow> access_db \<Rightarrow> bool" for cast where
  move_request: "ae_cast env = cast \<Longrightarrow> handle env actor request db = (e, db') \<Longrightarrow> access_move cast db db'"
| move_bootstrap: "ae_cast env = cast \<Longrightarrow> bootstrapAdmin env db = (e, db') \<Longrightarrow> access_move cast db db'"

inductive spelled_move :: "(string \<Rightarrow> string option) \<Rightarrow> access_db \<Rightarrow> access_db \<Rightarrow> bool" for cast where
  spelled_request: "ae_cast env = cast \<Longrightarrow> spelled_out request \<Longrightarrow> handle env actor request db = (e, db') \<Longrightarrow> spelled_move cast db db'"

inductive_cases access_moveE: "access_move cast db db'"
inductive_cases spelled_moveE: "spelled_move cast db db'"

interpretation accsys: invariant_system access_start "\<lambda>s t. access_move cast s t \<and> idempotent_cast cast" "access_ok cast"
proof
  show "access_start s \<Longrightarrow> access_ok cast s" for s
    by (simp add: access_start_def access_ok_def)
  show "access_ok cast t" if "access_ok cast s" "access_move cast s t \<and> idempotent_cast cast" for s t
    using that by (auto elim!: access_moveE intro: handle_ok dest: bootstrapAdmin_ok)
qed

end
