(* ===== verification/Authz_Properties.thy ===== *)
theory Authz_Properties
  imports Authz_SQL Access_Reach
begin

text \<open>
  The properties of authorisation: the condition a list is narrowed with says what the decision
  says, requests that spell out their placement never widen what anybody holds, and two things the
  code does that its comments rule out, a blank placement that is recorded as everywhere and a
  second team that cannot be bound.
\<close>

text \<open>
  C13: The SQL condition a list of hosts is narrowed with selects exactly the hosts the decision
  allows. \<open>ScopeSQL\<close> over the scopes of an identity for a permission and the columns of the hosts is
  the text of a condition, a disjunction of conjunctions of comparisons with its placeholders and
  arguments, and the row of a host satisfies that condition exactly when \<open>Can\<close> grants the permission
  on that host, so a list never shows a host the identity may not read and never hides one it may.
  No binding names a blank owner, which the requests never do, and the team of a binding is the text
  the database writes for an identifier, which its cast leaves as it is.
\<close>

theorem list_selects_what_is_allowed:
  assumes "\<forall>b \<in> set (p_Bindings p). [] \<notin> set (sc_Owners (b_Scope b)) \<and> team_canonical cast (b_Scope b)"
  shows "ScopeSQL (ScopesFor now p permission) (HostColumns al) off = render off (scope_condition (HostColumns al) (ScopesFor now p permission))
    \<and> (condition_holds cast (host_row al h) (scope_condition (HostColumns al) (ScopesFor now p permission))
       \<longleftrightarrow> Can now p permission (target_of h))"
proof -
  have "\<forall>s \<in> set (ScopesFor now p permission). [] \<notin> set (sc_Owners s) \<and> team_canonical cast s"
    using assms by (auto simp: ScopesFor_def live_def)
  then show ?thesis by (simp add: ScopeSQL_render scope_condition_holds Can_ScopesFor)
qed

definition sample_reader :: Principal where
  "sample_reader = \<lparr>p_ID = ''u1'', p_Subject = ''ann'', p_DisplayName = [], p_Kind = ''user'', p_DirectoryUID = [], p_AwaitingIssuer = [],
     p_Bindings = [\<lparr>b_Role = ''viewer'', b_Scope = Placement ''paris'' ''*'', b_ValidUntil = None, b_Granted = []\<rparr>,
                   \<lparr>b_Role = ''viewer'', b_Scope = OfTeam ''t1'', b_ValidUntil = Some 5, b_Granted = []\<rparr>]\<rparr>"

definition sample_cast :: "string \<Rightarrow> string option" where
  "sample_cast t = (if t = ''t1'' \<or> t = ''T1'' then Some ''t1'' else None)"

theorem list_selects_what_is_allowed_witness:
  "list_all (\<lambda>b. [] \<notin> set (sc_Owners (b_Scope b)) \<and> team_canonical sample_cast (b_Scope b)) (p_Bindings sample_reader)
   \<and> ScopeSQL (ScopesFor 1 sample_reader ''host.read'') (HostColumns ''h'') 2 = (''(h.site = $3 or h.team_id = $4::uuid)'', [Text ''paris'', Text ''t1''])
   \<and> condition_holds sample_cast (host_row ''h'' \<lparr>hf_site = ''lyon'', hf_environment = ''prod'', hf_team = ''t1'', hf_owner = [], hf_tags = []\<rparr>)
       (scope_condition (HostColumns ''h'') (ScopesFor 1 sample_reader ''host.read''))
   \<and> \<not> condition_holds sample_cast (host_row ''h'' \<lparr>hf_site = ''lyon'', hf_environment = ''prod'', hf_team = [], hf_owner = [], hf_tags = []\<rparr>)
       (scope_condition (HostColumns ''h'') (ScopesFor 1 sample_reader ''host.read''))"
proof -
  have h: "\<forall>b \<in> set (p_Bindings sample_reader). [] \<notin> set (sc_Owners (b_Scope b)) \<and> team_canonical sample_cast (b_Scope b)"
    by (simp add: sample_reader_def Placement_def PlacementWithin_def OfTeam_def Wildcard_def team_canonical_def sample_cast_def)
  have text_of: "ScopeSQL (ScopesFor 1 sample_reader ''host.read'') (HostColumns ''h'') 2 = (''(h.site = $3 or h.team_id = $4::uuid)'', [Text ''paris'', Text ''t1''])"
    by code_simp
  have can: "Can 1 sample_reader ''host.read'' (target_of \<lparr>hf_site = ''lyon'', hf_environment = ''prod'', hf_team = ''t1'', hf_owner = [], hf_tags = []\<rparr>)"
    "\<not> Can 1 sample_reader ''host.read'' (target_of \<lparr>hf_site = ''lyon'', hf_environment = ''prod'', hf_team = [], hf_owner = [], hf_tags = []\<rparr>)"
    by code_simp+
  show ?thesis
    using h text_of can list_selects_what_is_allowed [OF h, of 1 "''host.read''" "''h''" 2] by (simp only: list_all_iff) blast
qed

text \<open>
  C6: Nobody hands out what nobody holds. From the tables of a new installation, after any requests
  and the first start, requests that spell out their site and environment, whoever sends them, in
  whatever order and to whichever of the handlers of grants, revocations, identities and roles, never
  make a permission reach a target that no binding on record reached before. The cast of a text to an
  identifier answers an identifier it leaves as it is.
\<close>

theorem no_request_widens_the_reach:
  assumes "idempotent_cast cast" "access_start db0" "(access_move cast)\<^sup>*\<^sup>* db0 db" "(spelled_move cast)\<^sup>*\<^sup>* db db'"
  shows "reach db' \<subseteq> reach db"
proof -
  have "(\<lambda>s t. access_move cast s t \<and> idempotent_cast cast)\<^sup>*\<^sup>* db0 db"
    using assms(1,3) by (simp add: rtranclp_mono [THEN predicate2D])
  then have ok: "access_ok cast db" by (rule accsys.inv_reachable [OF assms(2)])
  from assms(4) have "access_ok cast db' \<and> reach db' \<subseteq> reach db"
  proof (induction rule: rtranclp_induct)
    case (step s t)
    from step.hyps(2) show ?case
    proof (rule spelled_moveE)
      fix env request actor e
      assume m: "ae_cast env = cast" "spelled_out request" "handle env actor request s = (e, t)"
      show ?thesis
        using handle_ok [of env s actor request e t] handle_reach [of env s actor request e t] step.IH m assms(1) by auto
    qed
  qed (simp add: ok)
  then show ?thesis ..
qed

definition sample_env :: access_env where
  "sample_env = \<lparr>ae_now = 10, ae_body = True, ae_step_up = True, ae_cast = Some, ae_lower = ToLower, ae_uuid = (\<lambda>_. True),
     ae_fresh = ''u9'', ae_issuer = []\<rparr>"

definition new_installation :: access_db where
  "new_installation = \<lparr>ad_principals = [], ad_tokens = [], ad_teams = [], ad_roles = map (\<lambda>r. \<lparr>ro_name = r, ro_built_in = True\<rparr>)
       [''viewer'', ''auditor'', ''operator'', ''approver'', ''identity_admin'', ''platform_admin''],
     ad_role_permissions = [], ad_bindings = [], ad_mapped_roles = []\<rparr>"

definition sample_request :: "string \<Rightarrow> string \<Rightarrow> string \<Rightarrow> roleRequest" where
  "sample_request role site environment = \<lparr>rq_Role = role, rq_Site = site, rq_Environment = environment, rq_TeamScope = Some (''any'', []),
     rq_Owners = [], rq_Tags = [], rq_ValidUntil = Some None\<rparr>"

definition sample_creation :: createPrincipalRequest where
  "sample_creation = \<lparr>cp_Subject = ''ann'', cp_DisplayName = [], cp_Kind = [], cp_Roles = [sample_request ''approver'' ''paris'' ''*''],
     cp_IssueToken = False, cp_TokenTTLHours = 0\<rparr>"

theorem no_request_widens_the_reach_witness:
  "access_start new_installation
   \<and> (let db = snd (bootstrapAdmin (sample_env\<lparr>ae_fresh := ''u1''\<rparr>) new_installation);
          db' = snd (handle sample_env ''u1'' (Create_Principal sample_creation) db)
      in map br_role (ad_bindings db') = [''platform_admin'', ''approver''] \<and> reach db' \<subseteq> reach db)"
proof -
  let ?env = "sample_env\<lparr>ae_fresh := ''u1''\<rparr>" and ?request = "Create_Principal sample_creation"
  let ?db = "snd (bootstrapAdmin ?env new_installation)" and ?db' = "snd (handle sample_env ''u1'' (Create_Principal sample_creation) (snd (bootstrapAdmin (sample_env\<lparr>ae_fresh := ''u1''\<rparr>) new_installation)))"
  have cast: "idempotent_cast Some" by (simp add: idempotent_cast_def)
  have start: "access_start new_installation" by code_simp
  have "access_move Some new_installation ?db"
    by (rule move_bootstrap [of ?env, OF _ surjective_pairing]) (simp add: sample_env_def)
  moreover have "spelled_move Some ?db ?db'"
    by (rule spelled_request [of sample_env, OF _ _ surjective_pairing]) (simp add: sample_env_def, code_simp)
  ultimately have "reach ?db' \<subseteq> reach ?db"
    using no_request_widens_the_reach [OF cast start] by blast
  moreover have "map br_role (ad_bindings ?db') = [''platform_admin'', ''approver'']" by code_simp
  ultimately show ?thesis using start by (simp add: Let_def)
qed

text \<open>
  C28: A blank placement is checked as reaching nothing and recorded as everywhere. An actor that may
  manage identities, and that holds each permission of a role somewhere, for any team, owner and tag
  but at whatever site and environment, asks to grant that role for any team, owner and tag, with no
  end and with the site and the environment left blank, to an identity that has no binding yet. The
  request is accepted, and the identity then has every permission of the role on every target, also
  where the actor has it on none.
\<close>

theorem blank_placement_grants_everywhere:
  assumes "authorize (ae_now env) (principal_of (ae_now env) actor db) PermPrincipalManage GlobalScope"
    and "principalTarget env db path = Inr pid" "ae_body env" "ae_step_up env"
    and "parse_role_request request = Some (role, scope, None)" "sc_TeamAny scope" "sc_Site scope = []" "sc_Environment scope = []"
    and "sc_Owners scope = [Wildcard]" "sc_Tags scope = [Wildcard]"
    and "roleBindable db role" "RolePermissions db role = Inr carried" "carried \<noteq> []"
    and "\<forall>permission \<in> set carried. \<exists>own \<in> set (ScopesFor (ae_now env) (principal_of (ae_now env) actor db) permission).
           sc_TeamAny own \<and> Wildcard \<in> set (sc_Owners own) \<and> Wildcard \<in> set (sc_Tags own)"
    and "\<forall>b \<in> set (ad_bindings db). br_principal b \<noteq> pid" "role_carries db role permission"
  shows "\<exists>db'. handleGrantRole env actor path request db = (None, db')
    \<and> Can (ae_now env) (principal_of (ae_now env) pid db') permission target"
proof -
  let ?row = "\<lparr>br_principal = pid, br_role = role, br_site = Wildcard, br_environment = Wildcard, br_team = None, br_team_any = True,
     br_owners = [Wildcard], br_tags = [Wildcard], br_valid_until = None\<rparr>"
  let ?db' = "db\<lparr>ad_bindings := ad_bindings db @ [?row]\<rparr>"
  have "holdsInScope (ae_now env) (principal_of (ae_now env) actor db) q scope" if "q \<in> set carried" for q
    using assms(7,8,14) that unfolding holdsInScope_def Contains_def
    by (fastforce simp: containsValue_def containsTeam_def containsAll_def hasWildcard_def)
  then have "mayGrant (ae_now env) (principal_of (ae_now env) actor db) carried scope"
    using assms(13) by (simp add: mayGrant_def list_all_iff)
  moreover have "has_principal db pid"
    using assms(2) by (auto simp: principalTarget_def split: if_splits option.splits)
  then have "GrantRole env pid role scope None db = (None, ?db')"
    using assms(6-11,15) by (auto simp: GrantRole_def Let_def orWildcard_def same_placement_key_def)
  ultimately have run: "handleGrantRole env actor path request db = (None, ?db')"
    using assms(1-5,12) by (simp add: handleGrantRole_def)
  have "Grants (binding_of_row ?db' ?row) permission"
    using assms(16) by (auto simp: role_carries_def granted_by_role_def split: if_splits)
  moreover have "Matches (b_Scope (binding_of_row ?db' ?row)) target"
    by (simp add: binding_of_row_def scope_of_row_def Matches_def matchesValue_def matchesTeam_def matchesAny_def)
  moreover have "binding_of_row ?db' ?row \<in> set (live (ae_now env) (principal_of (ae_now env) pid ?db'))"
    by (auto simp: live_def principal_of_def readBindings_def Active_def binding_of_row_def)
  ultimately show ?thesis using run unfolding Can_def by blast
qed

definition sample_tables :: access_db where
  "sample_tables = \<lparr>ad_principals = map (\<lambda>n. \<lparr>pr_id = n, pr_subject = n, pr_display_name = [], pr_kind = ''user'', pr_awaiting_issuer = None\<rparr>) [''ann'', ''bob''],
     ad_tokens = [], ad_teams = [''t1'', ''t2''], ad_roles = [\<lparr>ro_name = ''approver'', ro_built_in = True\<rparr>, \<lparr>ro_name = ''managers'', ro_built_in = False\<rparr>],
     ad_role_permissions = [(''managers'', ''principal.manage'')],
     ad_bindings =
       [\<lparr>br_principal = ''ann'', br_role = ''managers'', br_site = ''*'', br_environment = ''*'', br_team = None, br_team_any = True,
         br_owners = [''*''], br_tags = [''*''], br_valid_until = None\<rparr>,
        \<lparr>br_principal = ''ann'', br_role = ''approver'', br_site = ''paris'', br_environment = ''prod'', br_team = None, br_team_any = True,
         br_owners = [''*''], br_tags = [''*''], br_valid_until = None\<rparr>],
     ad_mapped_roles = []\<rparr>"

theorem blank_placement_grants_everywhere_witness:
  "(let db' = snd (handleGrantRole sample_env ''ann'' ''bob'' (sample_request ''approver'' [] []) sample_tables);
        lyon = TargetOf ''lyon'' ''prod'' [] [] []
    in \<not> Can 10 (principal_of 10 ''ann'' sample_tables) ''host.read'' lyon \<and> Can 10 (principal_of 10 ''bob'' db') ''host.read'' lyon)"
proof -
  let ?rq = "sample_request ''approver'' [] []" and ?lyon = "TargetOf ''lyon'' ''prod'' [] [] []"
  let ?scope = "GlobalScope\<lparr>sc_Site := [], sc_Environment := []\<rparr>"
  let ?carried = "projr (RolePermissions sample_tables ''approver'')"
  have a: "authorize (ae_now sample_env) (principal_of (ae_now sample_env) ''ann'' sample_tables) PermPrincipalManage GlobalScope" by code_simp
  have t: "principalTarget sample_env sample_tables ''bob'' = Inr ''bob''" by code_simp
  have p: "parse_role_request ?rq = Some (''approver'', ?scope, None)" by code_simp
  have k: "roleBindable sample_tables ''approver''" by code_simp
  have c: "RolePermissions sample_tables ''approver'' = Inr ?carried" "?carried \<noteq> []" by code_simp+
  have "list_all (\<lambda>permission. list_ex (\<lambda>own. sc_TeamAny own \<and> Wildcard \<in> set (sc_Owners own) \<and> Wildcard \<in> set (sc_Tags own))
      (ScopesFor (ae_now sample_env) (principal_of (ae_now sample_env) ''ann'' sample_tables) permission)) ?carried" by code_simp
  then have o: "\<forall>permission \<in> set ?carried. \<exists>own \<in> set (ScopesFor (ae_now sample_env) (principal_of (ae_now sample_env) ''ann'' sample_tables) permission).
      sc_TeamAny own \<and> Wildcard \<in> set (sc_Owners own) \<and> Wildcard \<in> set (sc_Tags own)" unfolding list_all_iff list_ex_iff .
  have b: "\<forall>b \<in> set (ad_bindings sample_tables). br_principal b \<noteq> ''bob''" by (simp add: sample_tables_def)
  have r: "role_carries sample_tables ''approver'' ''host.read''" by code_simp
  have "\<exists>db'. handleGrantRole sample_env ''ann'' ''bob'' ?rq sample_tables = (None, db')
      \<and> Can (ae_now sample_env) (principal_of (ae_now sample_env) ''bob'' db') ''host.read'' ?lyon"
    by (rule blank_placement_grants_everywhere [OF a t _ _ p _ _ _ _ _ k c o b r]) (simp_all add: GlobalScope_def sample_env_def)
  moreover have "\<not> Can 10 (principal_of 10 ''ann'' sample_tables) ''host.read'' ?lyon" by code_simp
  ultimately show ?thesis by (auto simp: Let_def sample_env_def)
qed

text \<open>
  C29: A second team cannot be bound. Once an identity has a role over one team, granting the same
  role over another team fails with an error of the database and changes nothing: every binding over
  a team is recorded with an asterisk for the site and the environment, and the unique key of the
  placements still holds.
\<close>

theorem second_team_is_refused:
  assumes "access_ok (ae_cast env) db" "b \<in> set (ad_bindings db)" "br_principal b = pid" "br_role b = role" "br_team b = Some first"
    and "ae_cast env team = Some second" "team \<noteq> []"
    and "\<forall>c \<in> set (ad_bindings db). \<not> (br_principal c = pid \<and> br_role c = role \<and> br_team c = Some second)"
  shows "GrantRole env pid role (OfTeam team) v db = (Some QueryError, db)"
proof -
  have "binding_ok (ae_cast env) b" "roleBindable db role" using assms(1-4) by (auto simp: access_ok_def list_all_iff)
  then have "br_site b = Wildcard" "br_environment b = Wildcard" using assms(5) by (simp_all add: binding_ok_def)
  then have taken: "\<exists>c \<in> set (ad_bindings db). pid = br_principal c \<and> role = br_role c \<and> Wildcard = br_site c \<and> Wildcard = br_environment c"
    using assms(2-4) by (intro bexI [of _ b]) simp_all
  show ?thesis
    using assms(6-8) \<open>roleBindable db role\<close> taken by (auto simp: GrantRole_def OfTeam_def Let_def same_placement_key_def)
qed

theorem second_team_is_refused_witness:
  "(let db = snd (GrantRole sample_env ''bob'' ''approver'' (OfTeam ''t1'') None sample_tables)
    in length (ad_bindings db) = 3 \<and> GrantRole sample_env ''bob'' ''approver'' (OfTeam ''t2'') None db = (Some QueryError, db))"
proof -
  let ?db = "snd (GrantRole sample_env ''bob'' ''approver'' (OfTeam ''t1'') None sample_tables)"
  let ?b = "\<lparr>br_principal = ''bob'', br_role = ''approver'', br_site = ''*'', br_environment = ''*'', br_team = Some ''t1'', br_team_any = False,
         br_owners = [''*''], br_tags = [''*''], br_valid_until = None\<rparr>"
  have rows: "ad_bindings ?db = ad_bindings sample_tables @ [?b]" by code_simp
  have ok: "access_ok (ae_cast sample_env) ?db" by code_simp
  have "GrantRole sample_env ''bob'' ''approver'' (OfTeam ''t2'') None ?db = (Some QueryError, ?db)"
    by (rule second_team_is_refused [OF ok, of ?b _ _ "''t1''" _ "''t2''"])
       (simp_all only: rows, simp_all add: sample_tables_def sample_env_def)
  moreover have "length (ad_bindings ?db) = 3" by (simp only: rows) (simp add: sample_tables_def)
  ultimately show ?thesis by (simp only: Let_def)
qed

end
