(* ===== verification/Spec2Isabelle.thy ===== *)
theory Spec2Isabelle
  imports Job_Outcomes Version_Properties Spool_Properties Selector_Properties Authz_Properties
begin

text \<open>
  A verification library for Flotestro, a control plane for fleets of Linux hosts.

  \<^bold>\<open>The program.\<close> Operators order work in a panel. An order names hosts by a selector; each host gets a
  job, a row that moves through a state machine from the order over approvals and the queue to a
  lease, a dispatch and a result. Gateways hold the connections of the agents, lease jobs for them
  and write back what they answer. Every job takes capacity from budgets before it is leased. Relays
  stand between the gateways and sites with poor links and keep what agents send in a spool on disk
  until it is acknowledged. The panel compares package versions to find vulnerable packages and to
  name the direction of a change. Who may do what follows from roles bound to identities within
  scopes. State lives in PostgreSQL and, for the relay, in files.

  \<^bold>\<open>Conventions.\<close> A Go string is a list of bytes. A table is a list of rows and a statement a function on
  it, one transaction a function from tables to tables; a refused transaction leaves them as they
  were. Errors are values of a sum or an option type, one constructor for each sentinel error. What
  comes from outside is an argument: the moment of a transaction, fresh identifiers, the rows others
  have locked, the outcome of every system call of the spool, the registry of actions, the parser
  and the cast of identifiers (\<open>uuid\<close>, PostgreSQL). \<open>Flo_Prelude\<close> holds the tables, results, the locale
  of invariants and string lemmas; \<open>Go_Strings\<close> and \<open>Go_Binary\<close> hold what the code calls of Go's standard
  library, among it \<open>TrimSpace\<close> over UTF-8, \<open>Atoi\<close>, the binary layouts, CRC-32C and SHA-256.

  \<^bold>\<open>Theories and sources.\<close>

  \<^item> \<open>Opspec\<close>: what the other parts read of an action (\<open>src/internal/opspec/opspec.go\<close>).
  \<^item> \<open>Budgets\<close>, \<open>Budget_Store\<close>: which budgets an operation needs and the store that grants them
    (\<open>src/internal/budgets\<close>). The live leases of a budget never weigh more than its capacity; a grant is
    all or nothing; a claimant that waited long enough is granted; a fenced renewal vouches for its owners.
  \<^item> \<open>Job_State\<close>, \<open>Job_Tables\<close>, \<open>Job_Store\<close>: the state machine, the tables and one function for each operation
    of \<open>src/internal/jobs\<close> that writes. \<open>Job_Safety\<close>, \<open>Job_Runs\<close>, \<open>Job_Properties\<close> and \<open>Job_Outcomes\<close> prove, over
    every run in which tasks are taken back over the attempt that still carries them, that final states
    are final, a leased job has exactly one open attempt, approvals come from enough different people, a
    superseded session settles nothing and capacity goes back; and for single operations the answers,
    the bound on output and what a sweep leaves, over any tables.
  \<^item> \<open>Comparators\<close>, \<open>Versions\<close>, \<open>Version_Order\<close>, \<open>Version_Properties\<close>: the dpkg and rpm comparisons of
    \<open>src/internal/vuln/version\<close> and \<open>src/internal/packages/vercmp.go\<close>, their rule books as comparisons of
    lists, that they are orders and where the two packages agree.
  \<^item> \<open>Spool_Record\<close>, \<open>Spool_Store\<close>, \<open>Spool_Recover\<close>: records, segments, index, every operation and the start of
    \<open>src/internal/relay/spool\<close>, over the bytes of the files. \<open>Spool_Safety\<close>, \<open>Spool_Keeps\<close>, \<open>Spool_Ops\<close>,
    \<open>Spool_Runs\<close>, \<open>Spool_Recovery\<close>, \<open>Spool_Map\<close>, \<open>Spool_Reach\<close> and \<open>Spool_Properties\<close> show, over runs of
    operations and restarts, the spool to refine a map from identifiers to records, to keep what it
    took, to find it again after a restart and to grow no further than its limit; two runs show where the code loses or repeats a record.
  \<^item> \<open>Selector\<close>, \<open>Selector_SQL\<close>, \<open>Selector_Store\<close>, \<open>Selector_Parse\<close>: validation, expansion, compilation to SQL,
    saved groups and the text form (\<open>src/internal/selector\<close>). \<open>Selector_Sound\<close>, \<open>Selector_Meaning\<close>,
    \<open>Selector_Parsing\<close> and \<open>Selector_Properties\<close> show that what parses compiles, that no value a client
    chooses becomes SQL text, that expansion keeps the meaning, and that the parser ends and accepts its
    grammar.
  \<^item> \<open>Authz_Roles\<close>, \<open>Authz\<close>, \<open>Authz_SQL\<close>: permissions, roles, scopes, decisions and the SQL condition lists are
    narrowed with (\<open>src/internal/authz/model.go\<close>, \<open>http.go\<close>). \<open>Access\<close> is the store of roles, bindings and
    identities (\<open>roles.go\<close>, \<open>store.go\<close>), \<open>Access_Handlers\<close> the handlers that change them
    (\<open>src/internal/adminapi/principals.go\<close>, \<open>access.go\<close>, \<open>access_grant.go\<close>, \<open>roles.go\<close>) and the first start
    (\<open>src/internal/app/app.go\<close>). \<open>Access_Safety\<close> proves the constraints of the tables for every request,
    \<open>Access_Reach\<close> and \<open>Authz_Properties\<close> that requests which spell out their placement never widen what
    is held, that a list shows what the decision allows, and two defects of grants.

  \<^bold>\<open>How the parts meet.\<close> The job store calls the budgets (\<open>releaseBudgets\<close> on every way out of a lease) and
  reads the registry of actions; a campaign or an order resolves a selector against the saved groups;
  the list of hosts is narrowed by the scopes of the reader. Runs of a component are step relations
  over its operations, and the locale \<open>invariant_system\<close> of the prelude, interpreted for budgets, jobs,
  spool, groups and access, carries an invariant from one step to every reachable state.

  \<^bold>\<open>Bounds and fuel.\<close> Recursion is structural or has a termination proof, with one exception: the mutual
  recursion of the parser of selectors takes fuel, four units for each token and four more, and
  \<open>parser_ends\<close> shows that this is enough for every text and that more changes nothing. Tokens of
  sessions, free space and lengths on disk keep their width; the length of life of a token of the API
  is computed in 64 bits; moments are unbounded.

  \<^bold>\<open>Assumptions.\<close> The properties of the spool hold for system calls that may fail at any moment, where a
  failing write writes nothing (\<open>short_write_hides_the_next_record\<close> is the other case) and a write that
  a stop of the process cuts off leaves its first bytes; the calls of an opening succeed, and what was
  written survives the stop. The runs of the job store take a task back over the attempt that still
  carries it, which \<open>ReleaseLease\<close> does not check (\<open>stale_release_requeues_a_carried_job\<close> is the other
  case). A cast to an identifier answers a text it leaves as it is, and the teams of bindings are such
  texts. Statements of one transaction see one state of the tables, which the row locks of the code
  ensure.

  \<^bold>\<open>Not modelled.\<close> The agent, the helper and the modules act on an operating system and parse the output of
  its tools. The gateway, the relay beside its spool, the directory and identity clients and the
  notifications are network code. Certificates, signatures and encryption rest on libraries. The
  handlers of the API beside those of access read tables for screens or call parts listed here, and
  the middleware that turns a token into an identity, sessions, group mappings and the audit entries of
  the handlers of access are left out. Campaigns, policies, remediation, monitoring, endpoints and the
  leases of background passes have logic of their own that this library does not cover. JSON decoding,
  the text of error messages, generated code, the web interface and the programs under \<open>src/cmd\<close> and
  \<open>src/tools\<close> are not part of it. Queries that only read for a screen are left out of the modelled stores.
\<close>

end
